(* ===== verification/Prelude.thy ===== *)
theory Prelude
  imports Main "HOL-Library.Word" "HOL-Library.Sublist"
begin

text \<open>
  Shared vocabulary of the development: byte strings, little-endian conversion
  between machine words and byte strings, slices, Rust's \<open>checked_add\<close> on
  64-bit and 32-bit counters, and the generic lemmas on lists and words that the
  component theories use.

  Conventions.  Bytes are \<open>8 word\<close>; values that are serialised on the wire are
  words of their own width.  Offsets, lengths, segment ids and counters are
  natural numbers; wherever the code checks for overflow of a u64 or u32, or
  casts to a narrower type, the bound or the reduction is written out.
\<close>

unbundle bit_operations_syntax

type_synonym u8 = "8 word"
type_synonym u16 = "16 word"
type_synonym u32 = "32 word"
type_synonym u64 = "64 word"
type_synonym bytes = "8 word list"

text \<open>\<open>word_arith\<close>: facts that move word-valued fields to natural numbers.
  \<open>wire_len\<close>: lengths of the encoded pieces of a record.\<close>

named_theorems word_arith
named_theorems wire_len

section \<open>Little-endian conversion\<close>

text \<open>\<open>to_le_bytes\<close> of an n-byte integer, and \<open>from_le_bytes\<close>.\<close>

primrec le_bytes :: "nat \<Rightarrow> 'a::len word \<Rightarrow> bytes" where
  "le_bytes 0 w = []"
| "le_bytes (Suc n) w = ucast w # le_bytes n (drop_bit 8 w)"

primrec le_word :: "bytes \<Rightarrow> 'a::len word" where
  "le_word [] = 0"
| "le_word (b # bs) = ucast b OR push_bit 8 (le_word bs)"

lemma length_le_bytes [simp, wire_len]: "length (le_bytes n w) = n"
  by (induction n arbitrary: w) auto

lemma le_word_le_bytes: "le_word (le_bytes n w) = take_bit (8 * n) w"
  for w :: "'a::len word"
proof (induction n arbitrary: w)
  case 0
  show ?case by simp
next
  case (Suc n)
  have "ucast (ucast w :: u8) OR push_bit 8 (take_bit (8 * n) (drop_bit 8 w))
      = take_bit (8 * Suc n) w"
    by (rule bit_word_eqI) (auto simp: bit_simps)
  then show ?case by (simp only: le_bytes.simps le_word.simps Suc.IH)
qed

lemma le_word_small: "take_bit (8 * length bs) (le_word bs) = (le_word bs :: 'a::len word)"
proof (induction bs)
  case Nil
  show ?case by simp
next
  case (Cons b bs)
  have "bit (le_word bs :: 'a word) i \<Longrightarrow> i < 8 * length bs" for i
    by (subst (asm) Cons.IH [symmetric]) (auto simp: bit_simps)
  then have "bit (le_word (b # bs) :: 'a word) i \<Longrightarrow> i < 8 * length (b # bs)" for i
    by (auto simp: bit_simps dest!: bit_imp_le_length [where 'a = 8]) fastforce+
  then show ?case by (intro bit_word_eqI) (auto simp: bit_simps)
qed

lemma le_bytes_le_word:
  "8 * length bs \<le> LENGTH('a) \<Longrightarrow> le_bytes (length bs) (le_word bs :: 'a::len word) = bs"
proof (induction bs)
  case Nil
  show ?case by simp
next
  case (Cons b bs)
  let ?X = "le_word bs :: 'a word"
  have small: "bit ?X i \<Longrightarrow> i < 8 * length bs" for i
    by (subst (asm) le_word_small [symmetric]) (auto simp: bit_simps)
  have "ucast (ucast b OR push_bit 8 ?X) = b"
    using Cons.prems by (intro bit_word_eqI) (auto simp: bit_simps)
  moreover have "drop_bit 8 (ucast b OR push_bit 8 ?X) = ?X"
  proof (rule bit_word_eqI)
    fix i assume "i < LENGTH('a)"
    show "bit (drop_bit 8 (ucast b OR push_bit 8 ?X)) i = bit ?X i"
      using Cons.prems small [of i] by (auto simp: bit_simps dest: bit_imp_le_length)
  qed
  ultimately show ?case using Cons by simp
qed

lemma le_word_le_bytes_full [simp]:
  "le_word (le_bytes 2 w) = (w :: u16)"
  "le_word (le_bytes 4 x) = (x :: u32)"
  "le_word (le_bytes 8 y) = (y :: u64)"
  by (simp_all add: le_word_le_bytes take_bit_word_eq_self)

section \<open>Slices\<close>

text \<open>\<open>&xs[i..j]\<close> for \<open>i \<le> j \<le> length xs\<close>.\<close>

definition slice :: "nat \<Rightarrow> nat \<Rightarrow> 'a list \<Rightarrow> 'a list" where
  "slice i j xs = take (j - i) (drop i xs)"

lemma length_slice [simp]: "length (slice i j xs) = min (j - i) (length xs - i)"
  by (simp add: slice_def)

lemma slice_append_left: "j \<le> length xs \<Longrightarrow> slice i j (xs @ ys) = slice i j xs"
  by (simp add: slice_def)

lemma slice_append_right:
  "length xs \<le> i \<Longrightarrow> slice i j (xs @ ys) = slice (i - length xs) (j - length xs) ys"
  by (simp add: slice_def)

lemma slice_exact: "slice 0 (length xs) (xs @ ys) = xs"
  by (simp add: slice_def)

lemma slice_drop: "slice i j (drop n xs) = slice (n + i) (n + j) xs"
  by (simp add: slice_def add.commute)

lemma slice_cat: "i \<le> j \<Longrightarrow> j \<le> k \<Longrightarrow> slice i j xs @ slice j k xs = slice i k xs"
proof -
  assume ij: "i \<le> j" and jk: "j \<le> k"
  have "take (k - i) (drop i xs) = take ((j - i) + (k - j)) (drop i xs)"
    using ij jk by simp
  also have "\<dots> = take (j - i) (drop i xs) @ take (k - j) (drop (j - i) (drop i xs))"
    by (rule take_add)
  finally show ?thesis using ij by (simp add: slice_def)
qed

lemma slice_one: "i < length xs \<Longrightarrow> slice i (Suc i) xs = [xs ! i]"
  by (simp add: slice_def take_Suc_conv_app_nth)

lemma slice_full: "length xs = n \<Longrightarrow> slice 0 n xs = xs"
  by (simp add: slice_def)

section \<open>Checked arithmetic\<close>

definition checked_add_u64 :: "nat \<Rightarrow> nat \<Rightarrow> nat option" where
  "checked_add_u64 a b = (if a + b < 2 ^ 64 then Some (a + b) else None)"

definition checked_add_u32 :: "nat \<Rightarrow> nat \<Rightarrow> nat option" where
  "checked_add_u32 a b = (if a + b < 2 ^ 32 then Some (a + b) else None)"

text \<open>\<open>txid.checked_add(1)\<close> on a 64-bit transaction id.\<close>

definition checked_succ :: "u64 \<Rightarrow> u64 option" where
  "checked_succ w = (if w = - 1 then None else Some (w + 1))"

lemma checked_add_u64_Some [simp]:
  "checked_add_u64 a b = Some c \<longleftrightarrow> a + b < 2 ^ 64 \<and> c = a + b"
  by (auto simp: checked_add_u64_def)

lemma checked_add_u64_None [simp]: "checked_add_u64 a b = None \<longleftrightarrow> 2 ^ 64 \<le> a + b"
  by (auto simp: checked_add_u64_def)

lemma checked_succ_Some: "checked_succ w = Some v \<Longrightarrow> unat v = Suc (unat w)"
proof -
  assume "checked_succ w = Some v"
  then have v: "v = 1 + w" and "w \<noteq> - 1"
    by (auto simp: checked_succ_def split: if_splits)
  then have "1 + w \<noteq> 0" by (metis add.commute add_eq_0_iff)
  with v show ?thesis by (simp add: unatSuc)
qed

lemma checked_succ_less: "checked_succ w = Some v \<Longrightarrow> w < v"
  by (simp add: word_less_nat_alt checked_succ_Some)

section \<open>Results\<close>

text \<open>
  A fallible Rust function returns \<open>error + 'a\<close>, \<open>Inl\<close> for \<open>Err\<close>.
  Sequencing with \<open>?\<close> is a \<open>case\<close> on the sum.
\<close>

fun is_ok :: "'e + 'a \<Rightarrow> bool" where
  "is_ok (Inl e) = False"
| "is_ok (Inr x) = True"

lemma is_ok_iff: "is_ok r \<longleftrightarrow> (\<exists>x. r = Inr x)"
  by (cases r) auto

end
