(* ===== verification/Errors.thy ===== *)
theory Errors
  imports Prelude
begin

text \<open>
  The failure values of the crate.  \<open>decode_error\<close> is \<open>DecodeError\<close> of
  \<open>format.rs\<close>.  Everywhere else the crate returns \<open>anyhow::Error\<close>; the
  datatype \<open>error\<close> has one constructor per \<open>bail!\<close>, \<open>anyhow!\<close> or
  \<open>with_context\<close> site (its arguments are the values the message prints),
  and \<open>Io\<close> for a failed operating-system call, which names the call.

  Operating-system calls are allowed to fail.  An operation of the model takes
  an argument \<open>env\<close> of type \<open>os_env\<close> that says which calls succeed during
  that operation; every theorem quantifies over it.
\<close>

section \<open>Types declared in format.rs\<close>

datatype record_type = Raw | Put | Delete

datatype decode_error =
    BadMagic bytes
  | UnknownVersion u16
  | UnknownRecordType u8
  | ReservedFlagsSet u8
  | KeyTooLarge u32
  | PayloadTooLarge u32

section \<open>Operating-system calls\<close>

datatype os_call =
    CreateDirAll
  | OpenLockFile
  | WritePid                \<comment> \<open>the best-effort pid line in the lock file\<close>
  | ReadDir
  | CreateFile nat          \<comment> \<open>\<open>File::create\<close> of a segment\<close>
  | FsyncDir                \<comment> \<open>\<open>safeatomic_rs::fsync_dir\<close>\<close>
  | OpenAppend nat          \<comment> \<open>\<open>OpenOptions::append\<close> on a segment\<close>
  | OpenRead nat            \<comment> \<open>\<open>File::open\<close> of a segment\<close>
  | ReadToEnd nat
  | StatSegment nat
  | WriteAll nat
  | SyncAll nat
  | Pread nat nat nat       \<comment> \<open>segment, offset, length\<close>
  | StatDir
  | ReadTargetDir
  | CreateParent
  | WriteAtomic
  | StatOutfile             \<comment> \<open>\<open>std::fs::metadata\<close> of an exported file\<close>

text \<open>
  \<open>works env c\<close>: the call \<open>c\<close> succeeds.  \<open>written env\<close>: how many bytes a
  failing \<open>write_all\<close> had already handed to the file.  \<open>pid_left\<close>: what a failing
  best-effort pid write leaves in the lock file.  \<open>node_len env name\<close>: the length that \<open>stat\<close>
  gives for an entry that is not a regular file.  A call that one operation makes
  twice (listing the directory in \<open>open\<close>) succeeds or fails both times.
\<close>

record os_env =
  works :: "os_call \<Rightarrow> bool"
  written :: nat
  pid_left :: bytes
  node_len :: "string \<Rightarrow> nat"

definition all_works :: os_env where
  "all_works = \<lparr>works = (\<lambda>_. True), written = 0, pid_left = [], node_len = (\<lambda>_. 0)\<rparr>"

lemma all_works_works [simp]: "works all_works c"
  by (simp add: all_works_def)

section \<open>Errors\<close>

datatype error =
    KeyLenExceeds nat
  | PayloadLenExceeds nat
  | UnknownRecordTypeByte u8
  | Io os_call
  | AlreadyLocked
  | SegmentIdOverflow nat
  | TruncatedNonTail nat nat              \<comment> \<open>offset, segment\<close>
  | CrcNonTail nat nat
  | StructuralDecode nat nat decode_error
  | WriterPoisoned string
  | ActiveSizeOverflow
  | TxidOverflow u64
  | RotateNonIncreasing nat nat
  | ShortRead nat nat nat nat
  | FrameLengthMismatch nat nat nat nat
  | NotAPut nat nat record_type
  | TruncatedFrame nat nat nat nat
  | CrcFrame nat nat nat
  | StructuralFrame nat nat decode_error
  | KeydirDesync
  | TargetNotEmpty
  | NotADirectory

end
