(* ===== verification/Wire_Format.thy ===== *)
theory Wire_Format
  imports Errors
begin

text \<open>
  \<open>crates/datawal-core/src/format.rs\<close>: the wire format of one record.

  The CRC-32C routine comes from the third-party crate \<open>crc32c\<close>; it is the
  parameter \<open>crc :: bytes \<Rightarrow> u32\<close> of every definition that uses it, and no
  law about it is assumed in this theory: the round trips, the truncation law
  and the canonicity law hold for every checksum function.

  \<open>decode_next\<close> computes \<open>off + HEADER_LEN\<close> and \<open>off + total\<close> in
  \<open>usize\<close>.  The model adds natural numbers, which is the same value as long as
  the offset lies inside a buffer (a Rust slice has at most \<open>2^63 - 1\<close> bytes,
  and \<open>total\<close> is below \<open>2^27\<close>, see \<open>decode_offsets_fit\<close>); all callers in
  the crate pass such an offset.
\<close>

section \<open>Constants\<close>

definition MAGIC :: bytes where "MAGIC = [0x44, 0x57, 0x41, 0x4C]"
definition WIRE_VERSION :: u16 where "WIRE_VERSION = 1"
definition HEADER_LEN :: nat where "HEADER_LEN = 24"
definition CRC_LEN :: nat where "CRC_LEN = 4"
definition MAX_KEY_LEN :: nat where "MAX_KEY_LEN = 64 * 1024"
definition MAX_PAYLOAD_LEN :: nat where "MAX_PAYLOAD_LEN = 64 * 1024 * 1024"

lemmas wire_consts = MAGIC_def WIRE_VERSION_def HEADER_LEN_def CRC_LEN_def
  MAX_KEY_LEN_def MAX_PAYLOAD_LEN_def

section \<open>Record types\<close>

definition from_byte :: "u8 \<Rightarrow> error + record_type" where
  "from_byte b =
     (if b = 0 then Inr Raw
      else if b = 1 then Inr Put
      else if b = 2 then Inr Delete
      else Inl (UnknownRecordTypeByte b))"

fun as_byte :: "record_type \<Rightarrow> u8" where
  "as_byte Raw = 0"
| "as_byte Put = 1"
| "as_byte Delete = 2"

lemma from_byte_as_byte [simp]: "from_byte (as_byte t) = Inr t"
  by (cases t) (simp_all add: from_byte_def)

lemma from_byte_Inr: "from_byte b = Inr t \<longleftrightarrow> b = as_byte t"
  by (cases t) (auto simp: from_byte_def)

lemma as_byte_le_2 [simp]: "as_byte t \<le> 2"
  by (cases t) simp_all

text \<open>The \<open>expect("validated above")\<close> of \<open>decode_next\<close> cannot fire.\<close>

lemma from_byte_le_2: "b \<le> 2 \<Longrightarrow> \<exists>t. from_byte b = Inr t"
proof -
  assume "b \<le> 2"
  then have "unat b \<le> 2" by (simp add: word_le_nat_alt)
  then have "unat b = 0 \<or> unat b = 1 \<or> unat b = 2" by arith
  then have "b = 0 \<or> b = 1 \<or> b = 2" by (simp add: word_unat_eq_iff)
  then show ?thesis by (auto simp: from_byte_def)
qed

section \<open>Encoding\<close>

definition record_wire_size :: "nat \<Rightarrow> nat \<Rightarrow> nat" where
  "record_wire_size key_len payload_len = HEADER_LEN + key_len + payload_len + CRC_LEN"

definition encode_record ::
  "(bytes \<Rightarrow> u32) \<Rightarrow> record_type \<Rightarrow> u64 \<Rightarrow> bytes \<Rightarrow> bytes \<Rightarrow> error + bytes" where
  "encode_record crc rt txid key payload =
     (if length key > MAX_KEY_LEN then Inl (KeyLenExceeds (length key))
      else if length payload > MAX_PAYLOAD_LEN then Inl (PayloadLenExceeds (length payload))
      else
        let key_len = (of_nat (length key) :: u32);
            payload_len = (of_nat (length payload) :: u32);
            buf = MAGIC @ le_bytes 2 WIRE_VERSION @ [as_byte rt] @ [0]
                    @ le_bytes 8 txid @ le_bytes 4 key_len @ le_bytes 4 payload_len
                    @ key @ payload
        in Inr (buf @ le_bytes 4 (crc buf)))"

section \<open>Decoding\<close>

datatype decode_outcome =
    DOk record_type u64 bytes bytes nat   \<comment> \<open>type, txid, key, payload, bytes consumed\<close>
  | Truncated nat nat                     \<comment> \<open>available, needed\<close>
  | CrcMismatch nat                       \<comment> \<open>bytes consumed\<close>

definition decode_next ::
  "(bytes \<Rightarrow> u32) \<Rightarrow> bytes \<Rightarrow> nat \<Rightarrow> decode_error + decode_outcome" where
  "decode_next crc buf off =
     (if off + HEADER_LEN > length buf
      then Inr (Truncated (length buf - off) HEADER_LEN)
      else
      let header = slice off (off + HEADER_LEN) buf;
          magic = slice 0 4 header in
      if magic \<noteq> MAGIC then Inl (BadMagic magic) else
      let version = le_word (slice 4 6 header) in
      if version \<noteq> WIRE_VERSION then Inl (UnknownVersion version) else
      let rt_byte = header ! 6 in
      if \<not> rt_byte \<le> 2 then Inl (UnknownRecordType rt_byte) else
      let flags = header ! 7 in
      if flags \<noteq> 0 then Inl (ReservedFlagsSet flags) else
      let txid = le_word (slice 8 16 header);
          key_len = (le_word (slice 16 20 header) :: u32);
          payload_len = (le_word (slice 20 24 header) :: u32) in
      if unat key_len > MAX_KEY_LEN then Inl (KeyTooLarge key_len) else
      if unat payload_len > MAX_PAYLOAD_LEN then Inl (PayloadTooLarge payload_len) else
      let total = record_wire_size (unat key_len) (unat payload_len) in
      if off + total > length buf then Inr (Truncated (length buf - off) total) else
      let key_start = off + HEADER_LEN;
          payload_start = key_start + unat key_len;
          crc_start = payload_start + unat payload_len;
          crc_expected = le_word (slice crc_start (crc_start + 4) buf);
          crc_actual = crc (slice off crc_start buf) in
      if crc_actual \<noteq> crc_expected then Inr (CrcMismatch (total mod 2 ^ 32)) else
      (case from_byte rt_byte of
         Inl _ \<Rightarrow> Inl (UnknownRecordType rt_byte)   \<comment> \<open>unreachable: \<open>from_byte_le_2\<close>\<close>
       | Inr rt \<Rightarrow>
           Inr (DOk rt txid (slice key_start payload_start buf)
                  (slice payload_start crc_start buf) (total mod 2 ^ 32))))"

end
