(* ===== verification/Frames.thy ===== *)
theory Frames
  imports Wire_Format
begin

text \<open>
  The correctness of the wire format: what \<open>encode_record\<close> writes is exactly
  what \<open>decode_next\<close> accepts.

  A \<open>frame\<close> is the content of one record without its position in a log, and
  \<open>wire crc f\<close> its bytes.  The locale \<open>frame_code\<close> is the interface between a
  self-delimiting frame format and the code that walks a byte stream; it yields
  the uniqueness of the longest valid prefix, and is interpreted on this format.
\<close>

record frame =
  fr_type :: record_type
  fr_txid :: u64
  fr_key :: bytes
  fr_payload :: bytes

definition frame_ok :: "frame \<Rightarrow> bool" where
  "frame_ok f \<longleftrightarrow> length (fr_key f) \<le> MAX_KEY_LEN \<and> length (fr_payload f) \<le> MAX_PAYLOAD_LEN"

definition frame_header :: "frame \<Rightarrow> bytes" where
  "frame_header f = MAGIC @ le_bytes 2 WIRE_VERSION @ [as_byte (fr_type f)] @ [0]
     @ le_bytes 8 (fr_txid f) @ le_bytes 4 (of_nat (length (fr_key f)) :: u32)
     @ le_bytes 4 (of_nat (length (fr_payload f)) :: u32)"

definition frame_body :: "frame \<Rightarrow> bytes" where
  "frame_body f = frame_header f @ fr_key f @ fr_payload f"

definition wire :: "(bytes \<Rightarrow> u32) \<Rightarrow> frame \<Rightarrow> bytes" where
  "wire crc f = frame_body f @ le_bytes 4 (crc (frame_body f))"

text \<open>The frame at the front of a byte string, if a complete valid one is there.\<close>

definition parse_frame :: "(bytes \<Rightarrow> u32) \<Rightarrow> bytes \<Rightarrow> frame option" where
  "parse_frame crc bs =
     (case decode_next crc bs 0 of
        Inr (DOk rt txid key payload n) \<Rightarrow>
          Some \<lparr>fr_type = rt, fr_txid = txid, fr_key = key, fr_payload = payload\<rparr>
      | _ \<Rightarrow> None)"

definition wire_len :: "frame \<Rightarrow> nat" where
  "wire_len f = record_wire_size (length (fr_key f)) (length (fr_payload f))"

section \<open>Lengths\<close>

lemma length_frame_header [simp]: "length (frame_header f) = 24"
  by (simp add: frame_header_def MAGIC_def)

lemma length_frame_body: "length (frame_body f) = 24 + length (fr_key f) + length (fr_payload f)"
  by (simp add: frame_body_def)

lemma length_wire: "length (wire crc f) = wire_len f"
  by (simp add: wire_def length_frame_body wire_len_def record_wire_size_def wire_consts)

lemma wire_len_ge: "28 \<le> wire_len f"
  by (simp add: wire_len_def record_wire_size_def wire_consts)

lemma wire_nonempty [simp]: "wire crc f \<noteq> []"
  using wire_len_ge [of f] by (auto simp flip: length_wire [of crc f])

lemma frame_ok_wire_len: "frame_ok f \<Longrightarrow> wire_len f \<le> 67174428"
  by (simp add: frame_ok_def wire_len_def record_wire_size_def wire_consts)

lemma frame_ok_wire_len_u32: "frame_ok f \<Longrightarrow> wire_len f mod 2 ^ 32 = wire_len f"
  using frame_ok_wire_len [of f] by simp

text \<open>The additions of \<open>decode_next\<close> stay below \<open>2^64\<close> for an offset inside a slice.\<close>

lemma decode_offsets_fit:
  "off \<le> length buf \<Longrightarrow> length buf < 2 ^ 63 \<Longrightarrow> k \<le> MAX_KEY_LEN \<Longrightarrow> p \<le> MAX_PAYLOAD_LEN
   \<Longrightarrow> off + record_wire_size k p < 2 ^ 64"
  by (simp add: record_wire_size_def wire_consts)

lemma encode_record_wire:
  "encode_record crc rt txid key payload =
     (if length key > MAX_KEY_LEN then Inl (KeyLenExceeds (length key))
      else if length payload > MAX_PAYLOAD_LEN then Inl (PayloadLenExceeds (length payload))
      else Inr (wire crc \<lparr>fr_type = rt, fr_txid = txid, fr_key = key, fr_payload = payload\<rparr>))"
  by (simp add: encode_record_def wire_def frame_body_def frame_header_def Let_def)

lemma encode_record_Inr:
  "encode_record crc rt txid key payload = Inr bs \<longleftrightarrow>
     (\<exists>f. f = \<lparr>fr_type = rt, fr_txid = txid, fr_key = key, fr_payload = payload\<rparr>
          \<and> frame_ok f \<and> bs = wire crc f)"
  by (auto simp: encode_record_wire frame_ok_def)

section \<open>The fields of a header\<close>

lemma header_fields:
  "slice 0 4 (frame_header f) = MAGIC"
  "slice 4 6 (frame_header f) = le_bytes 2 WIRE_VERSION"
  "frame_header f ! 6 = as_byte (fr_type f)"
  "frame_header f ! 7 = 0"
  "slice 8 16 (frame_header f) = le_bytes 8 (fr_txid f)"
  "slice 16 20 (frame_header f) = le_bytes 4 (of_nat (length (fr_key f)) :: u32)"
  "slice 20 24 (frame_header f) = le_bytes 4 (of_nat (length (fr_payload f)) :: u32)"
  by (simp_all add: frame_header_def slice_def MAGIC_def nth_append)

lemma unat_len_u32:
  "n \<le> MAX_PAYLOAD_LEN \<Longrightarrow> unat (of_nat n :: u32) = n"
  "n \<le> MAX_KEY_LEN \<Longrightarrow> unat (of_nat n :: u32) = n"
  by (simp_all add: unat_of_nat wire_consts)

lemma slice_header: "slice 0 24 (frame_header f @ rest) = frame_header f"
  using slice_exact [of "frame_header f" rest] by simp

lemma decode_wire:
  assumes "frame_ok f"
  shows "decode_next crc (wire crc f @ rest) 0 =
           Inr (DOk (fr_type f) (fr_txid f) (fr_key f) (fr_payload f) (wire_len f))"
proof -
  let ?k = "length (fr_key f)" and ?p = "length (fr_payload f)"
  have u: "unat (of_nat ?k :: u32) = ?k" "unat (of_nat ?p :: u32) = ?p"
    "?k \<le> MAX_KEY_LEN" "?p \<le> MAX_PAYLOAD_LEN"
    using assms by (simp_all add: frame_ok_def unat_len_u32)
  have buf: "wire crc f @ rest = frame_header f @ fr_key f @ fr_payload f
      @ le_bytes 4 (crc (frame_body f)) @ rest"
    by (simp add: wire_def frame_body_def)
  have s: "slice 24 (24 + ?k) (wire crc f @ rest) = fr_key f"
    "slice (24 + ?k) (24 + ?k + ?p) (wire crc f @ rest) = fr_payload f"
    "slice (24 + ?k + ?p) (24 + ?k + ?p + 4) (wire crc f @ rest) = le_bytes 4 (crc (frame_body f))"
    "slice 0 (24 + ?k + ?p) (wire crc f @ rest) = frame_body f"
    unfolding buf by (simp_all add: slice_def frame_body_def)
  have h: "slice 0 24 (wire crc f @ rest) = frame_header f"
    unfolding buf by (rule slice_header)
  have l: "length (wire crc f @ rest) = record_wire_size ?k ?p + length rest"
    by (simp add: length_wire wire_len_def)
  have ge: "24 \<le> record_wire_size ?k ?p"
    by (simp add: record_wire_size_def HEADER_LEN_def)
  have t: "record_wire_size ?k ?p mod 2 ^ 32 = wire_len f"
    using frame_ok_wire_len_u32 [OF assms] by (simp add: wire_len_def)
  show ?thesis
    unfolding decode_next_def Let_def HEADER_LEN_def
    using u l s h t ge by (simp add: header_fields)
qed


section \<open>Decoding at an offset\<close>

lemma decode_next_shift:
  assumes "off \<le> length buf"
  shows "decode_next crc buf off = decode_next crc (drop off buf) 0"
proof -
  have s: "slice i j (drop off buf) = slice (off + i) (off + j) buf" for i j
    by (simp add: slice_drop)
  have c: "length buf - off < x \<longleftrightarrow> length buf < off + x" for x
    using assms by auto
  show ?thesis
    unfolding decode_next_def Let_def s add_0 add_0_right add.assoc length_drop diff_zero c
    by (rule refl)
qed

lemma decode_next_append [simp]:
  "decode_next crc (pre @ bs) (length pre) = decode_next crc bs 0"
  by (subst decode_next_shift) simp_all

text \<open>A frame cut short is reported as truncated, with the right byte counts.\<close>

lemma decode_short:
  assumes ok: "frame_ok f" and h: "take 24 bs = frame_header f" and len: "length bs < wire_len f"
  shows "decode_next crc bs 0 = Inr (Truncated (length bs) (wire_len f))"
proof -
  have n: "24 \<le> length bs" using arg_cong [OF h, of length] by simp
  have s: "slice 0 24 bs = frame_header f" using h by (simp add: slice_def)
  have u: "unat (of_nat (length (fr_key f)) :: u32) = length (fr_key f)"
    "unat (of_nat (length (fr_payload f)) :: u32) = length (fr_payload f)"
    "length (fr_key f) \<le> MAX_KEY_LEN" "length (fr_payload f) \<le> MAX_PAYLOAD_LEN"
    using ok by (simp_all add: frame_ok_def unat_len_u32)
  show ?thesis
    unfolding decode_next_def Let_def HEADER_LEN_def
    using u s n len by (simp add: header_fields wire_len_def)
qed

lemma decode_truncated:
  assumes ok: "frame_ok f" and m: "m < wire_len f"
  shows "decode_next crc (take m (wire crc' f)) 0 =
           Inr (Truncated m (if m < 24 then 24 else wire_len f))"
proof (cases "m < 24")
  case True
  then show ?thesis
    using m by (simp add: decode_next_def HEADER_LEN_def length_wire)
next
  case False
  then have "take 24 (take m (wire crc' f)) = frame_header f"
    by (simp add: wire_def frame_body_def min_def)
  from decode_short [OF ok this] False m show ?thesis by (simp add: length_wire)
qed

section \<open>Decoding is canonical\<close>

text \<open>
  A byte string that decodes is the encoding of what it decodes to: there is
  exactly one wire image per record, and \<open>bytes_consumed\<close> is its length.
\<close>

lemma header_split:
  assumes "length h = 24"
  shows "h = slice 0 4 h @ slice 4 6 h @ [h ! 6] @ [h ! 7] @ slice 8 16 h @ slice 16 20 h
              @ slice 20 24 h"
proof -
  have "[h ! 6] = slice 6 7 h" "[h ! 7] = slice 7 8 h"
    using assms slice_one [of 6 h] slice_one [of 7 h] by simp_all
  then show ?thesis
    using assms by (simp add: slice_cat slice_full)
qed

text \<open>The conditions under which a byte string decodes, read off \<open>decode_next\<close>.\<close>

lemma decode_next_DOk:
  assumes "decode_next crc bs 0 = Inr (DOk rt txid key payload n)"
  defines "h \<equiv> slice 0 24 bs"
  defines "k \<equiv> unat (le_word (slice 16 20 h) :: u32)" and "p \<equiv> unat (le_word (slice 20 24 h) :: u32)"
  shows "24 \<le> length bs" "slice 0 4 h = MAGIC" "le_word (slice 4 6 h) = WIRE_VERSION"
    "h ! 6 = as_byte rt" "h ! 7 = 0" "txid = le_word (slice 8 16 h)"
    "k \<le> MAX_KEY_LEN" "p \<le> MAX_PAYLOAD_LEN" "record_wire_size k p \<le> length bs"
    "key = slice 24 (24 + k) bs" "payload = slice (24 + k) (24 + k + p) bs"
    "crc (slice 0 (24 + k + p) bs) = le_word (slice (24 + k + p) (24 + k + p + 4) bs)"
    "n = record_wire_size k p mod 2 ^ 32"
  using assms(1)
  unfolding decode_next_def Let_def h_def k_def p_def HEADER_LEN_def
  by (auto split: if_splits sum.splits simp: from_byte_Inr not_less)

lemma decode_canonical:
  assumes dec: "decode_next crc bs 0 = Inr (DOk rt txid key payload n)"
  defines "f \<equiv> \<lparr>fr_type = rt, fr_txid = txid, fr_key = key, fr_payload = payload\<rparr>"
  shows "frame_ok f" "n = wire_len f" "bs = wire crc f @ drop n bs"
proof -
  define h where "h = slice 0 24 bs"
  define k where "k = unat (le_word (slice 16 20 h) :: u32)"
  define p where "p = unat (le_word (slice 20 24 h) :: u32)"
  note D = decode_next_DOk [OF dec, folded h_def, folded k_def p_def]
  have lh: "length h = 24" using D(1) by (simp add: h_def)
  have tot: "24 + k + p + 4 \<le> length bs"
    using D(9) by (simp add: record_wire_size_def wire_consts)
  have lk: "length key = k" and lp: "length payload = p"
    using D(10,11) tot by simp_all
  show ok: "frame_ok f" using D(7,8) lk lp by (simp add: frame_ok_def f_def)
  show n: "n = wire_len f"
    using D(13) frame_ok_wire_len_u32 [OF ok] lk lp by (simp add: wire_len_def f_def)
  have kw: "(of_nat (length key) :: u32) = le_word (slice 16 20 h)"
    "(of_nat (length payload) :: u32) = le_word (slice 20 24 h)"
    by (simp_all add: lk lp k_def p_def)
  have b: "le_bytes 2 WIRE_VERSION = slice 4 6 h" "le_bytes 8 txid = slice 8 16 h"
    "le_bytes 4 (of_nat (length key) :: u32) = slice 16 20 h"
    "le_bytes 4 (of_nat (length payload) :: u32) = slice 20 24 h"
    using le_bytes_le_word [of "slice 4 6 h", where 'a = 16]
      le_bytes_le_word [of "slice 8 16 h", where 'a = 64]
      le_bytes_le_word [of "slice 16 20 h", where 'a = 32]
      le_bytes_le_word [of "slice 20 24 h", where 'a = 32] lh D(3,6)
    by (simp_all add: kw)
  have hdr: "frame_header f = h"
    using header_split [OF lh] D(2,4,5) b by (simp add: frame_header_def f_def)
  have body: "frame_body f = slice 0 (24 + k + p) bs"
    unfolding frame_body_def hdr using tot by (simp add: f_def D(10,11) h_def slice_cat)
  have c: "le_bytes 4 (crc (frame_body f)) = slice (24 + k + p) (24 + k + p + 4) bs"
    using le_bytes_le_word [of "slice (24 + k + p) (24 + k + p + 4) bs", where 'a = 32] tot
    by (simp add: body D(12))
  have "wire crc f = slice 0 (24 + k + p + 4) bs"
    by (simp add: wire_def body c [unfolded body] slice_cat)
  moreover have "n = 24 + k + p + 4"
    using n lk lp by (simp add: wire_len_def record_wire_size_def wire_consts f_def)
  ultimately show "bs = wire crc f @ drop n bs"
    by (simp add: slice_def)
qed

lemma parse_frame_wire: "frame_ok f \<Longrightarrow> parse_frame crc (wire crc f @ rest) = Some f"
  by (simp add: parse_frame_def decode_wire)

lemma parse_frame_Some:
  assumes "parse_frame crc bs = Some f"
  shows "frame_ok f \<and> bs = wire crc f @ drop (wire_len f) bs"
  using assms decode_canonical
  by (fastforce simp: parse_frame_def split: sum.splits decode_outcome.splits)

lemma parse_frame_DOk:
  "decode_next crc bs 0 = Inr (DOk rt txid key payload n) \<Longrightarrow>
   parse_frame crc bs = Some \<lparr>fr_type = rt, fr_txid = txid, fr_key = key, fr_payload = payload\<rparr>"
  by (simp add: parse_frame_def)

section \<open>Detected damage\<close>

text \<open>
  Key and payload bytes replaced by others of the same length: if the checksum
  tells the two bodies apart, the decoder reports a CRC mismatch of the frame's
  size.  The same for a replaced trailer.
\<close>

lemma decode_corrupt_body:
  assumes ok: "frame_ok f" and len: "length body' = length (fr_key f) + length (fr_payload f)"
    and crc: "crc (frame_header f @ body') \<noteq> le_word trailer" and tl: "length trailer = 4"
  shows "decode_next crc (frame_header f @ body' @ trailer @ rest) 0 = Inr (CrcMismatch (wire_len f))"
proof -
  let ?k = "length (fr_key f)" and ?p = "length (fr_payload f)"
  let ?bs = "frame_header f @ body' @ trailer @ rest"
  have u: "unat (of_nat ?k :: u32) = ?k" "unat (of_nat ?p :: u32) = ?p"
    "?k \<le> MAX_KEY_LEN" "?p \<le> MAX_PAYLOAD_LEN"
    using ok by (simp_all add: frame_ok_def unat_len_u32)
  have s: "slice (24 + ?k + ?p) (24 + ?k + ?p + 4) ?bs = trailer"
    "slice 0 (24 + ?k + ?p) ?bs = frame_header f @ body'" "slice 0 24 ?bs = frame_header f"
    using len tl by (simp_all add: slice_def)
  have l: "length ?bs = record_wire_size ?k ?p + length rest" "24 \<le> record_wire_size ?k ?p"
    using len tl by (simp_all add: record_wire_size_def wire_consts)
  have t: "record_wire_size ?k ?p mod 2 ^ 32 = wire_len f"
    using frame_ok_wire_len_u32 [OF ok] by (simp add: wire_len_def)
  show ?thesis
    unfolding decode_next_def Let_def HEADER_LEN_def
    using u s l t crc by (simp add: header_fields)
qed

text \<open>
  An auxiliary function for the proofs: the header checks of \<open>decode_next\<close> alone, on the
  24 header bytes.  Header_Errors says by the encoder what its errors mean.
\<close>

definition header_verdict :: "bytes \<Rightarrow> decode_error option" where
  "header_verdict h =
     (if slice 0 4 h \<noteq> MAGIC then Some (BadMagic (slice 0 4 h))
      else if le_word (slice 4 6 h) \<noteq> WIRE_VERSION then Some (UnknownVersion (le_word (slice 4 6 h)))
      else if \<not> h ! 6 \<le> 2 then Some (UnknownRecordType (h ! 6))
      else if h ! 7 \<noteq> 0 then Some (ReservedFlagsSet (h ! 7))
      else if unat (le_word (slice 16 20 h) :: u32) > MAX_KEY_LEN
        then Some (KeyTooLarge (le_word (slice 16 20 h)))
      else if unat (le_word (slice 20 24 h) :: u32) > MAX_PAYLOAD_LEN
        then Some (PayloadTooLarge (le_word (slice 20 24 h)))
      else None)"

lemma decode_next_Inl:
  "decode_next crc bs 0 = Inl e \<longleftrightarrow> 24 \<le> length bs \<and> header_verdict (take 24 bs) = Some e"
proof (cases "24 \<le> length bs")
  case True
  define h where "h = slice 0 24 bs"
  have t: "take 24 bs = h" by (simp add: h_def slice_def)
  have n: "h ! 6 \<le> 2 \<Longrightarrow> \<exists>rt. from_byte (h ! 6) = Inr rt"
    by (rule from_byte_le_2)
  have "decode_next crc bs 0 = Inl e \<longleftrightarrow> header_verdict h = Some e"
  proof (cases "header_verdict h")
    case (Some d)
    then have "decode_next crc bs 0 = Inl d"
      unfolding decode_next_def Let_def HEADER_LEN_def header_verdict_def add_0 h_def [symmetric]
      using True by (simp split: if_split_asm)
    with Some show ?thesis by simp
  next
    case None
    then have c: "slice 0 4 h = MAGIC" "le_word (slice 4 6 h) = WIRE_VERSION" "h ! 6 \<le> 2" "h ! 7 = 0"
      "unat (le_word (slice 16 20 h) :: u32) \<le> MAX_KEY_LEN"
      "unat (le_word (slice 20 24 h) :: u32) \<le> MAX_PAYLOAD_LEN"
      unfolding header_verdict_def by (simp_all split: if_split_asm)
    from n [OF c(3)] obtain rt where "from_byte (h ! 6) = Inr rt" by blast
    with c have "\<exists>out. decode_next crc bs 0 = Inr out"
      unfolding decode_next_def Let_def HEADER_LEN_def add_0 h_def [symmetric]
      using True by simp
    with None show ?thesis by auto
  qed
  with True t show ?thesis by simp
next
  case False
  then show ?thesis by (simp add: decode_next_def HEADER_LEN_def)
qed

section \<open>Self-delimiting formats\<close>

text \<open>
  What a reader of a byte stream needs of a frame format.  The consequences are
  what recovery relies on: no frame is a proper prefix of another, and a byte
  string splits into a longest sequence of frames and an undecodable rest in
  exactly one way.
\<close>

locale frame_code =
  fixes enc :: "'f \<Rightarrow> bytes" and ok :: "'f \<Rightarrow> bool" and parse :: "bytes \<Rightarrow> 'f option"
  assumes parse_enc: "ok f \<Longrightarrow> parse (enc f @ rest) = Some f"
    and parse_inv: "parse bs = Some f \<Longrightarrow> ok f \<and> (\<exists>rest. bs = enc f @ rest)"
    and enc_nonempty: "enc f \<noteq> []"
begin

lemma parse_Nil: "parse [] = None"
  using parse_inv [of "[]"] enc_nonempty by (cases "parse []") auto

lemma enc_inj: "ok f \<Longrightarrow> ok g \<Longrightarrow> enc f @ x = enc g @ y \<Longrightarrow> f = g \<and> x = y"
  by (metis append_same_eq option.inject parse_enc same_append_eq)

lemma parse_strict_prefix:
  assumes "ok f" "m < length (enc f)"
  shows "parse (take m (enc f)) = None"
proof (rule ccontr)
  assume "parse (take m (enc f)) \<noteq> None"
  then obtain g rest where g: "ok g" "take m (enc f) = enc g @ rest"
    using parse_inv by blast
  then have "enc f @ [] = enc g @ (rest @ drop m (enc f))"
    by (metis append.assoc append.right_neutral append_take_drop_id)
  with assms g have "rest @ drop m (enc f) = []" by (metis enc_inj)
  with assms show False by simp
qed

lemma split_unique:
  "list_all ok fs \<Longrightarrow> list_all ok gs \<Longrightarrow> parse t = None \<Longrightarrow> parse u = None \<Longrightarrow>
   concat (map enc fs) @ t = concat (map enc gs) @ u \<Longrightarrow> fs = gs \<and> t = u"
proof (induction fs arbitrary: gs)
  case Nil
  then show ?case by (cases gs) (auto simp: parse_enc)
next
  case (Cons f fs)
  show ?case
  proof (cases gs)
    case Nil
    with Cons.prems show ?thesis by (auto simp: parse_enc dest: sym)
  next
    case (Cons g gs')
    with Cons.prems Cons.IH [of gs'] show ?thesis
      by (auto dest: enc_inj)
  qed
qed

text \<open>Cutting a stream of frames anywhere leaves whole frames and a torn rest.\<close>

lemma take_stream:
  "list_all ok fs \<Longrightarrow>
   \<exists>k t. k \<le> length fs \<and> take m (concat (map enc fs)) = concat (map enc (take k fs)) @ t
       \<and> parse t = None \<and> (t = [] \<or> (k < length fs \<and> (\<exists>n. 0 < n \<and> n < length (enc (fs ! k)) \<and> t = take n (enc (fs ! k)))))"
proof (induction fs arbitrary: m)
  case Nil
  then show ?case by (simp add: parse_Nil)
next
  case (Cons f fs)
  show ?case
  proof (cases "m < length (enc f)")
    case True
    then have "take m (concat (map enc (f # fs))) = take m (enc f)" by simp
    with True Cons.prems show ?thesis
      by (intro exI [of _ 0] exI [of _ "take m (enc f)"]) (auto simp: parse_strict_prefix)
  next
    case False
    from Cons.prems have "list_all ok fs" by simp
    from Cons.IH [OF this, of "m - length (enc f)"] obtain k t where
      kt: "k \<le> length fs" "take (m - length (enc f)) (concat (map enc fs)) = concat (map enc (take k fs)) @ t"
        "parse t = None" and
      t: "t = [] \<or> (k < length fs \<and> (\<exists>n. 0 < n \<and> n < length (enc (fs ! k)) \<and> t = take n (enc (fs ! k))))"
      by blast
    have "take m (concat (map enc (f # fs))) = concat (map enc (take (Suc k) (f # fs))) @ t"
      using False kt(2) by simp
    moreover have "t = [] \<or> (Suc k < length (f # fs) \<and>
        (\<exists>n. 0 < n \<and> n < length (enc ((f # fs) ! Suc k)) \<and> t = take n (enc ((f # fs) ! Suc k))))"
      using t by simp
    ultimately show ?thesis using kt(1,3) by (intro exI [of _ "Suc k"] exI [of _ t]) simp
  qed
qed

end

interpretation wf: frame_code "wire crc" frame_ok "parse_frame crc" for crc
proof unfold_locales
  show "frame_ok f \<Longrightarrow> parse_frame crc (wire crc f @ rest) = Some f" for f rest
    by (rule parse_frame_wire)
  show "parse_frame crc bs = Some f \<Longrightarrow> frame_ok f \<and> (\<exists>rest. bs = wire crc f @ rest)" for bs f
    using parse_frame_Some by blast
  show "wire crc f \<noteq> []" for f
    by simp
qed

end
