(* ===== verification/Filesystem.thy ===== *)
theory Filesystem
  imports Errors "HOL-Library.AList"
begin

text \<open>
  The part of \<open>std::fs\<close> that the crate uses: one directory as the list of its
  entries, in the (unspecified) order in which \<open>read_dir\<close> returns them.  A
  regular file is its bytes as seen through the page cache.  File names are
  \<open>OsString\<close>s: \<open>Utf8\<close> when \<open>to_str\<close> succeeds.
\<close>

datatype os_name = Utf8 string | NonUtf8 bytes

datatype node = RegFile bytes | OtherNode

type_synonym dir = "(os_name \<times> node) list"

definition dir_ok :: "dir \<Rightarrow> bool" where
  "dir_ok d \<longleftrightarrow> distinct (map fst d)"

definition file_content :: "dir \<Rightarrow> string \<Rightarrow> bytes option" where
  "file_content d name =
     (case map_of d (Utf8 name) of Some (RegFile bs) \<Rightarrow> Some bs | _ \<Rightarrow> None)"

definition put_file :: "dir \<Rightarrow> string \<Rightarrow> bytes \<Rightarrow> dir" where
  "put_file d name bs = AList.update (Utf8 name) (RegFile bs) d"

text \<open>\<open>File::create\<close>: truncates a regular file, creates a missing one, and fails
  on anything else.\<close>

definition create_file :: "dir \<Rightarrow> string \<Rightarrow> dir option" where
  "create_file d name =
     (case map_of d (Utf8 name) of Some OtherNode \<Rightarrow> None | _ \<Rightarrow> Some (put_file d name []))"

text \<open>A \<open>write\<close> through an append-mode handle goes to the physical end of the file.\<close>

definition append_file :: "dir \<Rightarrow> string \<Rightarrow> bytes \<Rightarrow> dir" where
  "append_file d name bs =
     (case file_content d name of None \<Rightarrow> d | Some old \<Rightarrow> put_file d name (old @ bs))"

section \<open>Laws\<close>

lemma dir_ok_put [simp]: "dir_ok d \<Longrightarrow> dir_ok (put_file d name bs)"
  by (simp add: dir_ok_def put_file_def distinct_update)

lemma dir_ok_append [simp]: "dir_ok d \<Longrightarrow> dir_ok (append_file d name bs)"
  by (simp add: append_file_def split: option.split)

lemma dir_ok_Nil [simp]: "dir_ok []"
  by (simp add: dir_ok_def)

lemma file_content_put [simp]:
  "file_content (put_file d name bs) name' = (if name' = name then Some bs else file_content d name')"
  by (simp add: file_content_def put_file_def update_conv')

lemma map_of_put:
  "map_of (put_file d name bs) n = (if n = Utf8 name then Some (RegFile bs) else map_of d n)"
  by (simp add: put_file_def update_conv')

lemma file_content_append:
  "file_content (append_file d name bs) name' =
     (if name' = name then map_option (\<lambda>old. old @ bs) (file_content d name)
      else file_content d name')"
  by (simp add: append_file_def split: option.split)

lemma create_file_content:
  "create_file d name = Some d' \<Longrightarrow>
   file_content d' name' = (if name' = name then Some [] else file_content d name')"
  by (auto simp: create_file_def split: option.splits node.splits)

lemma create_file_ok: "create_file d name = Some d' \<Longrightarrow> dir_ok d \<Longrightarrow> dir_ok d'"
  by (auto simp: create_file_def split: option.splits node.splits)

lemma create_file_Some:
  "create_file d name = Some d' \<longleftrightarrow> map_of d (Utf8 name) \<noteq> Some OtherNode \<and> d' = put_file d name []"
  by (auto simp: create_file_def split: option.split node.split)

lemma put_file_same: "file_content d name = Some bs \<Longrightarrow> put_file d name bs = d"
  by (induction d) (auto simp: file_content_def put_file_def split: if_splits option.splits node.splits)

lemma append_file_Nil [simp]: "append_file d name [] = d"
  by (simp add: append_file_def put_file_same split: option.split)

text \<open>The regular files of a well-formed directory, as a set of names.\<close>

lemma reg_file_iff:
  assumes "dir_ok d"
  shows "(\<exists>bs. (Utf8 name, RegFile bs) \<in> set d) \<longleftrightarrow> file_content d name \<noteq> None"
proof -
  have "(Utf8 name, RegFile bs) \<in> set d \<longleftrightarrow> map_of d (Utf8 name) = Some (RegFile bs)" for bs
    using assms by (simp add: dir_ok_def)
  then show ?thesis
    by (simp add: file_content_def split: option.split node.split)
qed

end
