(* ===== verification/Segments.thy ===== *)
theory Segments
  imports Filesystem
begin

text \<open>
  \<open>crates/datawal-core/src/segment.rs\<close>: segment file names and discovery.
  \<open>segment_path dir sid\<close> is the directory joined with \<open>segment_name sid\<close>; a
  directory is modelled on its own, so only the file name appears.  Segment ids
  are u32 in the code; the bound is written out where it is checked.
\<close>

section \<open>Decimal notation\<close>

definition digit_char :: "nat \<Rightarrow> char" where
  "digit_char d = char_of (48 + d)"

definition digit_val :: "char \<Rightarrow> nat" where
  "digit_val c = of_char c - 48"

definition is_ascii_digit :: "char \<Rightarrow> bool" where
  "is_ascii_digit c \<longleftrightarrow> 48 \<le> (of_char c :: nat) \<and> (of_char c :: nat) \<le> 57"

fun dec_digits :: "nat \<Rightarrow> string" where
  "dec_digits n = (if n < 10 then [digit_char n] else dec_digits (n div 10) @ [digit_char (n mod 10)])"

declare dec_digits.simps [simp del]

text \<open>\<open>{:0width$}\<close>: at least \<open>width\<close> characters, never fewer digits than needed.\<close>

definition zero_pad :: "nat \<Rightarrow> string \<Rightarrow> string" where
  "zero_pad width s = replicate (width - length s) CHR ''0'' @ s"

section \<open>segment.rs\<close>

definition SEGMENT_EXT :: string where "SEGMENT_EXT = ''dwal''"
definition SEGMENT_ID_WIDTH :: nat where "SEGMENT_ID_WIDTH = 8"

definition segment_name :: "nat \<Rightarrow> string" where
  "segment_name sid = zero_pad SEGMENT_ID_WIDTH (dec_digits sid) @ ''.'' @ SEGMENT_EXT"

definition strip_suffix :: "string \<Rightarrow> string \<Rightarrow> string option" where
  "strip_suffix name suf =
     (if length suf \<le> length name \<and> drop (length name - length suf) name = suf
      then Some (take (length name - length suf) name) else None)"

text \<open>\<open>str::parse::<u32>\<close> on a string of decimal digits: \<open>Err\<close> on empty input or
  overflow.\<close>

definition parse_u32_step :: "nat option \<Rightarrow> char \<Rightarrow> nat option" where
  "parse_u32_step acc c =
     (case acc of None \<Rightarrow> None
      | Some a \<Rightarrow> (if a * 10 + digit_val c < 2 ^ 32 then Some (a * 10 + digit_val c) else None))"

definition parse_u32 :: "string \<Rightarrow> nat option" where
  "parse_u32 s = (if s = [] then None else foldl parse_u32_step (Some 0) s)"

definition parse_segment_filename :: "string \<Rightarrow> nat option" where
  "parse_segment_filename name =
     (case strip_suffix name (''.'' @ SEGMENT_EXT) of
        None \<Rightarrow> None
      | Some stripped \<Rightarrow>
          if length stripped \<noteq> SEGMENT_ID_WIDTH then None
          else if \<not> list_all is_ascii_digit stripped then None
          else parse_u32 stripped)"

text \<open>The loop of \<open>list_segment_ids\<close>, in directory order.  Failures of single entries and of
  \<open>file_type\<close> make the listing fail like \<open>read_dir\<close> itself: they are the call \<open>ReadDir\<close>.\<close>

fun collect_ids :: "dir \<Rightarrow> nat list" where
  "collect_ids [] = []"
| "collect_ids ((name, node) # rest) =
     (case node of
        OtherNode \<Rightarrow> collect_ids rest
      | RegFile _ \<Rightarrow>
          (case name of
             NonUtf8 _ \<Rightarrow> collect_ids rest
           | Utf8 s \<Rightarrow>
               (case parse_segment_filename s of
                  None \<Rightarrow> collect_ids rest
                | Some sid \<Rightarrow> sid # collect_ids rest)))"

definition list_segment_ids :: "os_env \<Rightarrow> dir \<Rightarrow> error + nat list" where
  "list_segment_ids env d =
     (if works env ReadDir then Inr (sort (collect_ids d)) else Inl (Io ReadDir))"

definition active_segment_id :: "os_env \<Rightarrow> dir \<Rightarrow> error + nat option" where
  "active_segment_id env d =
     (case list_segment_ids env d of
        Inl e \<Rightarrow> Inl e
      | Inr ids \<Rightarrow> Inr (if ids = [] then None else Some (last ids)))"

definition next_segment_id :: "nat list \<Rightarrow> error + nat" where
  "next_segment_id existing =
     (if existing = [] then Inr 1
      else case checked_add_u32 (last existing) 1 of
             Some n \<Rightarrow> Inr n
           | None \<Rightarrow> Inl (SegmentIdOverflow (last existing)))"

text \<open>\<open>fs::metadata\<close> of the segment's path, 0 when there is nothing; its only caller discards
  the result.\<close>

definition segment_size :: "os_env \<Rightarrow> dir \<Rightarrow> nat \<Rightarrow> error + nat" where
  "segment_size env d sid =
     (if \<not> works env (StatSegment sid) then Inl (Io (StatSegment sid))
      else case map_of d (Utf8 (segment_name sid)) of
             Some (RegFile bs) \<Rightarrow> Inr (length bs)
           | Some OtherNode \<Rightarrow> Inr (node_len env (segment_name sid))
           | None \<Rightarrow> Inr 0)"

section \<open>Decimal notation round-trips\<close>

text \<open>\<open>fixed_digits w n\<close>: exactly \<open>w\<close> digits; \<open>dec_val\<close>: the value of a digit string.\<close>

fun fixed_digits :: "nat \<Rightarrow> nat \<Rightarrow> string" where
  "fixed_digits 0 n = []"
| "fixed_digits (Suc w) n = fixed_digits w (n div 10) @ [digit_char (n mod 10)]"

definition dec_val :: "string \<Rightarrow> nat" where
  "dec_val s = foldl (\<lambda>a c. a * 10 + digit_val c) 0 s"

lemma digit_char_val [simp]: "d < 10 \<Longrightarrow> digit_val (digit_char d) = d"
  by (simp add: digit_val_def digit_char_def)

lemma digit_char_is_digit [simp]: "d < 10 \<Longrightarrow> is_ascii_digit (digit_char d)"
  by (simp add: is_ascii_digit_def digit_char_def)

lemma digit_char_inv: "is_ascii_digit c \<Longrightarrow> digit_char (digit_val c) = c"
  by (simp add: is_ascii_digit_def digit_char_def digit_val_def)

lemma digit_val_less: "is_ascii_digit c \<Longrightarrow> digit_val c < 10"
  by (auto simp: is_ascii_digit_def digit_val_def)

lemma digit_char_0 [simp]: "digit_char 0 = CHR ''0''"
  by (simp add: digit_char_def char_of_eq_iff)

lemma dec_val_snoc [simp]: "dec_val (s @ [c]) = dec_val s * 10 + digit_val c"
  by (simp add: dec_val_def)

lemma dec_val_Nil [simp]: "dec_val [] = 0"
  by (simp add: dec_val_def)

lemma length_fixed_digits [simp]: "length (fixed_digits w n) = w"
  by (induction w arbitrary: n) auto

lemma fixed_digits_are_digits: "list_all is_ascii_digit (fixed_digits w n)"
  by (induction w arbitrary: n) auto

lemma dec_val_fixed: "dec_val (fixed_digits w n) = n mod 10 ^ w"
proof (induction w arbitrary: n)
  case (Suc w)
  then show ?case by (simp add: mod_mult2_eq)
qed simp

lemma fixed_digits_dec_val: "list_all is_ascii_digit s \<Longrightarrow> fixed_digits (length s) (dec_val s) = s"
proof (induction s rule: rev_induct)
  case (snoc c s)
  then show ?case by (auto simp: digit_val_less digit_char_inv)
qed simp

lemma dec_val_bound: "list_all is_ascii_digit s \<Longrightarrow> dec_val s < 10 ^ length s"
  by (metis dec_val_fixed fixed_digits_dec_val mod_less_divisor zero_less_numeral zero_less_power)

lemma fixed_digits_0: "fixed_digits w 0 = replicate w CHR ''0''"
  by (induction w) (auto simp: replicate_append_same)

lemma dec_digits_fixed: "n < 10 ^ w \<Longrightarrow> 0 < w \<Longrightarrow> zero_pad w (dec_digits n) = fixed_digits w n \<and> length (dec_digits n) \<le> w"
proof (induction n arbitrary: w rule: dec_digits.induct)
  case (1 n)
  then obtain v where w: "w = Suc v" by (cases w) auto
  show ?case
  proof (cases "n < 10")
    case True
    then show ?thesis
      by (simp add: dec_digits.simps [of n] w zero_pad_def fixed_digits_0)
  next
    case False
    with 1 w have "n div 10 < 10 ^ v" "0 < v"
      by (auto simp: less_mult_imp_div_less mult.commute intro: Nat.gr0I)
    with "1.IH" [OF False this] False show ?thesis
      by (auto simp: dec_digits.simps [of n] w zero_pad_def)
  qed
qed

lemma dec_digits_long: "10 ^ w \<le> n \<Longrightarrow> w < length (dec_digits n)"
proof (induction w arbitrary: n)
  case 0
  then show ?case by (subst dec_digits.simps) simp
next
  case (Suc w)
  have "(1::nat) \<le> 10 ^ w" by simp
  moreover have "10 * 10 ^ w \<le> n" using Suc.prems by simp
  ultimately have "10 ^ w \<le> n div 10" "\<not> n < 10" by linarith+
  with Suc.IH [of "n div 10"] show ?case by (subst dec_digits.simps) simp
qed

section \<open>Segment names\<close>

lemma parse_u32_digits:
  assumes "list_all is_ascii_digit s" "length s \<le> 9" "s \<noteq> []"
  shows "parse_u32 s = Some (dec_val s)"
proof -
  have "list_all is_ascii_digit s \<Longrightarrow> length s \<le> 9 \<Longrightarrow> foldl parse_u32_step (Some 0) s = Some (dec_val s)" for s
  proof (induction s rule: rev_induct)
    case (snoc c s)
    then have "dec_val (s @ [c]) < 10 ^ length (s @ [c])"
      by (intro dec_val_bound) simp
    also have "\<dots> \<le> (10::nat) ^ 9"
      using snoc.prems by (intro power_increasing) simp_all
    finally show ?case using snoc by (simp add: parse_u32_step_def)
  qed simp
  with assms show ?thesis by (simp add: parse_u32_def)
qed

lemma strip_suffix_Some: "strip_suffix name suf = Some s \<longleftrightarrow> name = s @ suf"
  by (auto simp: strip_suffix_def) (metis append_take_drop_id)

lemma segment_name_small:
  "sid < 10 ^ 8 \<Longrightarrow> segment_name sid = fixed_digits 8 sid @ ''.dwal''"
  by (simp add: segment_name_def SEGMENT_ID_WIDTH_def SEGMENT_EXT_def dec_digits_fixed)

lemma parse_segment_filename_Some:
  "parse_segment_filename name = Some sid \<longleftrightarrow> sid < 10 ^ 8 \<and> name = segment_name sid"
proof
  assume "parse_segment_filename name = Some sid"
  then obtain s where s: "name = s @ ''.dwal''" "length s = 8" "list_all is_ascii_digit s"
    "parse_u32 s = Some sid"
    by (auto simp: parse_segment_filename_def strip_suffix_Some SEGMENT_EXT_def SEGMENT_ID_WIDTH_def
        split: option.splits if_splits)
  then have "s \<noteq> []" by auto
  with s have sid: "sid = dec_val s" by (simp add: parse_u32_digits)
  with s have "sid < 10 ^ 8" using dec_val_bound [of s] by simp
  moreover from this have "segment_name sid = name"
    using s sid fixed_digits_dec_val [of s] by (simp add: segment_name_small)
  ultimately show "sid < 10 ^ 8 \<and> name = segment_name sid" by simp
next
  assume *: "sid < 10 ^ 8 \<and> name = segment_name sid"
  then have n: "name = fixed_digits 8 sid @ ''.dwal''" by (simp add: segment_name_small)
  have "fixed_digits 8 sid \<noteq> []" by (metis length_fixed_digits list.size(3) zero_neq_numeral)
  then have "parse_u32 (fixed_digits 8 sid) = Some sid"
    using * by (simp add: parse_u32_digits fixed_digits_are_digits dec_val_fixed)
  then show "parse_segment_filename name = Some sid"
    by (simp add: parse_segment_filename_def n strip_suffix_Some [THEN iffD2, of _ "fixed_digits 8 sid"]
        SEGMENT_EXT_def SEGMENT_ID_WIDTH_def fixed_digits_are_digits)
qed

lemma dec_val_zero_prefix: "dec_val (replicate k CHR ''0'' @ s) = dec_val s"
proof (induction s rule: rev_induct)
  case Nil
  show ?case by (simp add: dec_val_fixed flip: fixed_digits_0)
next
  case (snoc c s)
  then show ?case by (simp flip: append_assoc)
qed

lemma dec_val_dec_digits: "dec_val (dec_digits n) = n"
proof (induction n rule: dec_digits.induct)
  case (1 n)
  show ?case
  proof (cases "n < 10")
    case True
    then show ?thesis by (simp add: dec_digits.simps [of n] dec_val_def)
  next
    case False
    with 1 show ?thesis by (simp add: dec_digits.simps [of n])
  qed
qed

lemma segment_name_eq [simp]: "segment_name i = segment_name j \<longleftrightarrow> i = j"
proof
  assume "segment_name i = segment_name j"
  then have "zero_pad 8 (dec_digits i) = zero_pad 8 (dec_digits j)"
    by (simp add: segment_name_def SEGMENT_ID_WIDTH_def)
  then have "dec_val (zero_pad 8 (dec_digits i)) = dec_val (zero_pad 8 (dec_digits j))"
    by simp
  then show "i = j" by (simp add: zero_pad_def dec_val_zero_prefix dec_val_dec_digits)
qed simp

lemma parse_segment_name_big: "10 ^ 8 \<le> sid \<Longrightarrow> parse_segment_filename (segment_name sid) = None"
proof (cases "parse_segment_filename (segment_name sid)")
  case (Some j)
  assume "10 ^ 8 \<le> sid"
  then have "8 < length (dec_digits sid)" by (rule dec_digits_long)
  then have "13 < length (segment_name sid)"
    by (simp add: segment_name_def zero_pad_def SEGMENT_EXT_def)
  moreover from Some have "segment_name sid = segment_name j" "j < 10 ^ 8"
    by (simp_all add: parse_segment_filename_Some)
  then have "length (segment_name sid) = 13" by (simp add: segment_name_small)
  ultimately show ?thesis by simp
qed simp

section \<open>Discovery\<close>

text \<open>The segment ids of a directory, as the code lists them.\<close>

definition seg_ids :: "dir \<Rightarrow> nat list" where
  "seg_ids d = sort (collect_ids d)"

definition seg_content :: "dir \<Rightarrow> nat \<Rightarrow> bytes option" where
  "seg_content d sid = file_content d (segment_name sid)"

lemma set_collect_ids:
  "set (collect_ids d) = {sid. sid < 10 ^ 8 \<and> (\<exists>bs. (Utf8 (segment_name sid), RegFile bs) \<in> set d)}"
proof (induction d rule: collect_ids.induct)
  case (2 name node rest)
  then show ?case
    by (cases node; cases name) (auto simp: parse_segment_filename_Some split: option.splits simp flip: not_Some_eq)
qed simp

lemma set_seg_ids:
  "dir_ok d \<Longrightarrow> set (seg_ids d) = {sid. sid < 10 ^ 8 \<and> seg_content d sid \<noteq> None}"
  by (simp add: seg_ids_def set_collect_ids reg_file_iff seg_content_def)

lemma distinct_collect_ids: "dir_ok d \<Longrightarrow> distinct (collect_ids d)"
proof (induction d rule: collect_ids.induct)
  case (2 name node rest)
  have "fst ` set rest \<inter> {name} = {}" and "dir_ok rest"
    using "2.prems" by (auto simp: dir_ok_def)
  with 2 show ?case
    by (cases node; cases name) (force simp: parse_segment_filename_Some set_collect_ids split: option.splits)+
qed simp

lemma seg_ids_sorted [simp]: "sorted (seg_ids d)"
  by (simp add: seg_ids_def)

lemma seg_ids_distinct [simp]: "dir_ok d \<Longrightarrow> distinct (seg_ids d)"
  by (simp add: seg_ids_def distinct_collect_ids)

lemma seg_ids_eqI:
  "dir_ok d \<Longrightarrow> sorted xs \<Longrightarrow> distinct xs \<Longrightarrow>
   set xs = {sid. sid < 10 ^ 8 \<and> seg_content d sid \<noteq> None} \<Longrightarrow> seg_ids d = xs"
  by (rule sorted_distinct_set_unique) (simp_all add: set_seg_ids)

lemma list_segment_ids_Inr:
  "list_segment_ids env d = Inr ids \<longleftrightarrow> works env ReadDir \<and> ids = seg_ids d"
  by (auto simp: list_segment_ids_def seg_ids_def)

lemma seg_ids_append [simp]: "dir_ok d \<Longrightarrow> seg_ids (append_file d name bs) = seg_ids d"
  by (rule seg_ids_eqI) (auto simp: set_seg_ids seg_content_def file_content_append)

lemma seg_ids_create:
  assumes "dir_ok d" "create_file d (segment_name sid) = Some d'" "sid < 10 ^ 8" "\<forall>i\<in>set (seg_ids d). i < sid"
  shows "seg_ids d' = seg_ids d @ [sid]"
proof (rule seg_ids_eqI)
  show "dir_ok d'" using assms by (metis create_file_ok)
  show "sorted (seg_ids d @ [sid])" using assms(4) by (auto simp: sorted_append intro: less_imp_le)
  show "distinct (seg_ids d @ [sid])" using assms by auto
  show "set (seg_ids d @ [sid]) = {j. j < 10 ^ 8 \<and> seg_content d' j \<noteq> None}"
    using assms by (auto simp: set_seg_ids seg_content_def create_file_content split: if_splits)
qed

lemma seg_content_append:
  "seg_content (append_file d (segment_name sid) bs) i =
     (if i = sid then map_option (\<lambda>old. old @ bs) (seg_content d sid) else seg_content d i)"
  by (auto simp: seg_content_def file_content_append)

lemma seg_content_create:
  "create_file d (segment_name sid) = Some d' \<Longrightarrow>
   seg_content d' i = (if i = sid then Some [] else seg_content d i)"
  by (auto simp: seg_content_def create_file_content)

end
