(* ===== verification/Scan.thy ===== *)
theory Scan
  imports Frames Segments
begin

text \<open>
  Recovery scanning of \<open>crates/datawal-core/src/record_log.rs\<close>: \<open>Record\<close>,
  \<open>RecordRef\<close>, \<open>RecoveryReport\<close>, \<open>ScanInternal\<close>, \<open>scan_segment\<close> and
  \<open>scan_all\<close>.  The contract is the longest valid prefix: the reference
  definition \<open>split_frames\<close> splits the bytes of a segment into the frames at its
  front and the rest, and \<open>scan_loop_eq\<close> says that the loop of the code returns
  exactly that, with the right offsets and the right report.
\<close>

section \<open>Data types\<close>

record record_ref =
  ref_segment :: nat
  ref_offset :: nat
  ref_len :: nat

record log_record =
  rc_type :: record_type
  rc_txid :: u64
  rc_key :: bytes
  rc_payload :: bytes
  rc_segment :: nat
  rc_offset :: nat
  rc_len :: nat

record recovery_report =
  rr_files_scanned :: nat
  rr_records_replayed :: nat
  rr_tail_truncated :: nat
  rr_tail_bytes_discarded :: nat
  rr_mid_stream_errors :: nat
  rr_unsupported_versions :: nat
  rr_last_txid_seen :: u64

record scan_internal =
  si_records :: "log_record list"
  si_records_replayed :: nat
  si_files_scanned :: nat
  si_last_txid_seen :: u64
  si_tail_truncated :: nat
  si_tail_bytes_discarded :: nat
  si_logical_end :: "(nat \<times> nat) option"

definition empty_scan :: scan_internal where
  "empty_scan = \<lparr>si_records = [], si_records_replayed = 0, si_files_scanned = 0,
     si_last_txid_seen = 0, si_tail_truncated = 0, si_tail_bytes_discarded = 0,
     si_logical_end = None\<rparr>"

definition default_report :: recovery_report where
  "default_report = \<lparr>rr_files_scanned = 0, rr_records_replayed = 0, rr_tail_truncated = 0,
     rr_tail_bytes_discarded = 0, rr_mid_stream_errors = 0, rr_unsupported_versions = 0,
     rr_last_txid_seen = 0\<rparr>"

definition last_segment_logical_size_for :: "scan_internal \<Rightarrow> nat \<Rightarrow> nat option" where
  "last_segment_logical_size_for si segment =
     (case si_logical_end si of
        Some (sid, e) \<Rightarrow> if sid = segment then Some e else None
      | None \<Rightarrow> None)"

definition into_public :: "scan_internal \<Rightarrow> recovery_report" where
  "into_public si = \<lparr>rr_files_scanned = si_files_scanned si,
     rr_records_replayed = si_records_replayed si,
     rr_tail_truncated = si_tail_truncated si,
     rr_tail_bytes_discarded = si_tail_bytes_discarded si,
     rr_mid_stream_errors = 0, rr_unsupported_versions = 0,
     rr_last_txid_seen = si_last_txid_seen si\<rparr>"

section \<open>The scanning loop\<close>

lemma decode_next_progress:
  assumes "decode_next crc buf off = Inr (DOk rt txid key payload n)"
  shows "28 \<le> n \<and> off + n \<le> length buf"
proof (cases "off \<le> length buf")
  case True
  then have d: "decode_next crc (drop off buf) 0 = Inr (DOk rt txid key payload n)"
    using assms decode_next_shift by metis
  note c = decode_canonical [OF d]
  have "length (drop off buf) = wire_len \<lparr>fr_type = rt, fr_txid = txid, fr_key = key, fr_payload = payload\<rparr>
      + length (drop n (drop off buf))"
    by (metis c(3) length_append length_wire)
  then show ?thesis using c(2) wire_len_ge True
    by (simp add: le_diff_conv2)
next
  case False
  with assms show ?thesis by (simp add: decode_next_def)
qed

text \<open>One decoded record is pushed onto the scan state.\<close>

definition push_record :: "log_record \<Rightarrow> scan_internal \<Rightarrow> scan_internal" where
  "push_record r out = out\<lparr>si_records := si_records out @ [r],
     si_records_replayed := si_records_replayed out + 1,
     si_last_txid_seen := (if si_last_txid_seen out < rc_txid r then rc_txid r
                           else si_last_txid_seen out)\<rparr>"

text \<open>A tolerated tail of the last segment ends the scan at \<open>offset\<close>.\<close>

definition stop_at_tail :: "nat \<Rightarrow> nat \<Rightarrow> nat \<Rightarrow> scan_internal \<Rightarrow> scan_internal" where
  "stop_at_tail sid file_len offset out = out\<lparr>si_tail_truncated := si_tail_truncated out + 1,
     si_tail_bytes_discarded := si_tail_bytes_discarded out + (file_len - offset),
     si_logical_end := Some (sid, offset)\<rparr>"

function scan_loop ::
  "(bytes \<Rightarrow> u32) \<Rightarrow> nat \<Rightarrow> bool \<Rightarrow> bytes \<Rightarrow> nat \<Rightarrow> scan_internal \<Rightarrow> error + scan_internal" where
  "scan_loop crc sid is_last buf offset out =
     (if offset = length buf then Inr (out\<lparr>si_logical_end := Some (sid, offset)\<rparr>)
      else case decode_next crc buf offset of
        Inr (DOk rt txid key payload n) \<Rightarrow>
          scan_loop crc sid is_last buf (offset + n)
            (push_record \<lparr>rc_type = rt, rc_txid = txid, rc_key = key, rc_payload = payload,
                rc_segment = sid, rc_offset = offset, rc_len = n\<rparr> out)
      | Inr (Truncated _ _) \<Rightarrow>
          if is_last then Inr (stop_at_tail sid (length buf) offset out)
          else Inl (TruncatedNonTail offset sid)
      | Inr (CrcMismatch _) \<Rightarrow>
          if is_last then Inr (stop_at_tail sid (length buf) offset out)
          else Inl (CrcNonTail offset sid)
      | Inl err \<Rightarrow> Inl (StructuralDecode offset sid err))"
  by pat_completeness auto
termination
  by (relation "measure (\<lambda>(crc, sid, is_last, buf, offset, out). length buf - offset)")
    (auto dest!: decode_next_progress)

declare scan_loop.simps [simp del]

definition scan_segment ::
  "os_env \<Rightarrow> (bytes \<Rightarrow> u32) \<Rightarrow> dir \<Rightarrow> nat \<Rightarrow> bool \<Rightarrow> scan_internal \<Rightarrow> error + scan_internal" where
  "scan_segment env crc d sid is_last out =
     (case file_content d (segment_name sid) of
        None \<Rightarrow> Inl (Io (OpenRead sid))
      | Some buf \<Rightarrow>
          if \<not> works env (OpenRead sid) then Inl (Io (OpenRead sid))
          else if \<not> works env (ReadToEnd sid) then Inl (Io (ReadToEnd sid))
          else scan_loop crc sid is_last buf 0 out)"

text \<open>The loop over the ids: a segment is the last one when no id follows it.\<close>

fun scan_ids ::
  "os_env \<Rightarrow> (bytes \<Rightarrow> u32) \<Rightarrow> dir \<Rightarrow> nat list \<Rightarrow> scan_internal \<Rightarrow> error + scan_internal" where
  "scan_ids env crc d [] out = Inr out"
| "scan_ids env crc d (sid # rest) out =
     (case scan_segment env crc d sid (rest = [])
             (out\<lparr>si_files_scanned := si_files_scanned out + 1\<rparr>) of
        Inl e \<Rightarrow> Inl e
      | Inr out' \<Rightarrow> scan_ids env crc d rest out')"

definition scan_all ::
  "os_env \<Rightarrow> (bytes \<Rightarrow> u32) \<Rightarrow> dir \<Rightarrow> nat list \<Rightarrow> error + scan_internal" where
  "scan_all env crc d ids = scan_ids env crc d ids empty_scan"

section \<open>The reference: longest valid prefix\<close>

text \<open>\<open>stream crc fs\<close>: the bytes of consecutive frames; \<open>place sid off fs\<close>: the
  records they are, when the first one starts at \<open>off\<close> of segment \<open>sid\<close>.\<close>

definition stream :: "(bytes \<Rightarrow> u32) \<Rightarrow> frame list \<Rightarrow> bytes" where
  "stream crc fs = concat (map (wire crc) fs)"

definition located :: "nat \<Rightarrow> nat \<Rightarrow> frame \<Rightarrow> log_record" where
  "located sid off f = \<lparr>rc_type = fr_type f, rc_txid = fr_txid f, rc_key = fr_key f,
     rc_payload = fr_payload f, rc_segment = sid, rc_offset = off, rc_len = wire_len f\<rparr>"

fun place :: "nat \<Rightarrow> nat \<Rightarrow> frame list \<Rightarrow> log_record list" where
  "place sid off [] = []"
| "place sid off (f # fs) = located sid off f # place sid (off + wire_len f) fs"

function split_frames :: "(bytes \<Rightarrow> u32) \<Rightarrow> bytes \<Rightarrow> frame list \<times> bytes" where
  "split_frames crc bs =
     (case parse_frame crc bs of
        None \<Rightarrow> ([], bs)
      | Some f \<Rightarrow> (let (fs, t) = split_frames crc (drop (wire_len f) bs) in (f # fs, t)))"
  by pat_completeness auto
termination
proof (relation "measure (\<lambda>(crc, bs). length bs)")
  fix crc bs f
  assume "parse_frame crc bs = Some f"
  then have "length bs = wire_len f + length (drop (wire_len f) bs)"
    by (metis length_append length_wire parse_frame_Some)
  with wire_len_ge [of f]
  show "((crc, drop (wire_len f) bs), (crc, bs)) \<in> measure (\<lambda>(crc, bs). length bs)"
    by simp
qed simp

declare split_frames.simps [simp del]

datatype tail = CleanEnd | ShortTail | BadCrcTail | BrokenTail decode_error

definition tail_of :: "(bytes \<Rightarrow> u32) \<Rightarrow> bytes \<Rightarrow> tail" where
  "tail_of crc t =
     (if t = [] then CleanEnd
      else case decode_next crc t 0 of
        Inl e \<Rightarrow> BrokenTail e
      | Inr (Truncated _ _) \<Rightarrow> ShortTail
      | Inr (CrcMismatch _) \<Rightarrow> BadCrcTail
      | Inr (DOk _ _ _ _ _) \<Rightarrow> CleanEnd)"

definition end_scan ::
  "nat \<Rightarrow> bool \<Rightarrow> nat \<Rightarrow> nat \<Rightarrow> tail \<Rightarrow> scan_internal \<Rightarrow> error + scan_internal" where
  "end_scan sid is_last file_len off tail out =
     (case tail of
        CleanEnd \<Rightarrow> Inr (out\<lparr>si_logical_end := Some (sid, off)\<rparr>)
      | ShortTail \<Rightarrow> if is_last then Inr (stop_at_tail sid file_len off out)
                     else Inl (TruncatedNonTail off sid)
      | BadCrcTail \<Rightarrow> if is_last then Inr (stop_at_tail sid file_len off out)
                      else Inl (CrcNonTail off sid)
      | BrokenTail e \<Rightarrow> Inl (StructuralDecode off sid e))"

definition segment_spec ::
  "(bytes \<Rightarrow> u32) \<Rightarrow> nat \<Rightarrow> bool \<Rightarrow> bytes \<Rightarrow> scan_internal \<Rightarrow> error + scan_internal" where
  "segment_spec crc sid is_last buf out =
     (let (fs, t) = split_frames crc buf
      in end_scan sid is_last (length buf) (length buf - length t) (tail_of crc t)
           (fold push_record (place sid 0 fs) out))"

lemma stream_simps [simp]:
  "stream crc [] = []" "stream crc (f # fs) = wire crc f @ stream crc fs"
  "stream crc (fs @ gs) = stream crc fs @ stream crc gs"
  by (simp_all add: stream_def)

lemma length_stream: "length (stream crc fs) = sum_list (map wire_len fs)"
  by (induction fs) (simp_all add: length_wire)

lemma place_append:
  "place sid off (fs @ gs) = place sid off fs @ place sid (off + sum_list (map wire_len fs)) gs"
  by (induction fs arbitrary: off) (simp_all add: add.assoc)

lemma split_frames_stream:
  "list_all frame_ok fs \<Longrightarrow> parse_frame crc t = None \<Longrightarrow> split_frames crc (stream crc fs @ t) = (fs, t)"
proof (induction fs)
  case Nil
  then show ?case by (simp add: split_frames.simps)
next
  case (Cons f fs)
  then have "parse_frame crc (wire crc f @ stream crc fs @ t) = Some f"
    by (simp add: parse_frame_wire)
  with Cons show ?case
    by (simp add: split_frames.simps [of crc "wire crc f @ stream crc fs @ t"] flip: length_wire [of crc f])
qed

lemma split_frames_sound:
  "split_frames crc bs = (fs, t) \<Longrightarrow>
   list_all frame_ok fs \<and> bs = stream crc fs @ t \<and> parse_frame crc t = None"
proof (induction crc bs arbitrary: fs rule: split_frames.induct)
  case (1 crc bs)
  show ?case
  proof (cases "parse_frame crc bs")
    case None
    with "1.prems" show ?thesis by (simp add: split_frames.simps [of crc bs])
  next
    case (Some f)
    with "1.prems" obtain gs where gs: "split_frames crc (drop (wire_len f) bs) = (gs, t)" "fs = f # gs"
      by (auto simp: split_frames.simps [of crc bs] split: prod.splits)
    from "1.IH" [OF Some gs(1)] parse_frame_Some [OF Some] gs(2) show ?thesis
      by auto
  qed
qed

text \<open>\<open>split_frames\<close> computes the unique longest sequence of valid frames.\<close>

lemma split_frames_iff:
  "split_frames crc bs = (fs, t) \<longleftrightarrow>
   list_all frame_ok fs \<and> bs = stream crc fs @ t \<and> parse_frame crc t = None"
  by (metis split_frames_sound split_frames_stream)

section \<open>The loop computes the reference\<close>

lemma scan_loop_frames:
  "list_all frame_ok fs \<Longrightarrow>
   scan_loop crc sid is_last (pre @ stream crc fs @ t) (length pre) out =
   scan_loop crc sid is_last (pre @ stream crc fs @ t) (length pre + length (stream crc fs))
     (fold push_record (place sid (length pre) fs) out)"
proof (induction fs arbitrary: pre out)
  case (Cons f fs)
  let ?buf = "pre @ stream crc (f # fs) @ t"
  have d: "decode_next crc (wire crc f @ stream crc fs @ t) 0 =
      Inr (DOk (fr_type f) (fr_txid f) (fr_key f) (fr_payload f) (wire_len f))"
    using Cons.prems decode_wire [of f crc "stream crc fs @ t"]
    by simp
  have "scan_loop crc sid is_last ?buf (length pre) out =
      scan_loop crc sid is_last ?buf (length pre + wire_len f) (push_record (located sid (length pre) f) out)"
    by (subst scan_loop.simps) (simp add: d located_def)
  also have "\<dots> = scan_loop crc sid is_last ?buf (length pre + length (stream crc (f # fs)))
      (fold push_record (place sid (length pre) (f # fs)) out)"
    using Cons.IH [of "pre @ wire crc f" "push_record (located sid (length pre) f) out"] Cons.prems
    by (simp add: length_wire add.assoc)
  finally show ?case .
qed simp

lemma scan_loop_tail:
  assumes "parse_frame crc t = None"
  shows "scan_loop crc sid is_last (pre @ t) (length pre) out =
         end_scan sid is_last (length (pre @ t)) (length pre) (tail_of crc t) out"
proof (cases "t = []")
  case True
  then show ?thesis by (simp add: scan_loop.simps end_scan_def tail_of_def)
next
  case False
  with assms show ?thesis
    by (subst scan_loop.simps)
      (auto simp: end_scan_def tail_of_def parse_frame_def split: sum.splits decode_outcome.splits)
qed

lemma scan_loop_eq: "scan_loop crc sid is_last buf 0 out = segment_spec crc sid is_last buf out"
proof -
  obtain fs t where s: "split_frames crc buf = (fs, t)" by force
  note split_frames_sound [OF s]
  then have buf: "buf = stream crc fs @ t" and fs: "list_all frame_ok fs" and t: "parse_frame crc t = None"
    by auto
  have "scan_loop crc sid is_last buf 0 out =
      scan_loop crc sid is_last buf (length (stream crc fs)) (fold push_record (place sid 0 fs) out)"
    using scan_loop_frames [OF fs, of crc sid is_last "[]" t out] buf by simp
  also have "\<dots> = end_scan sid is_last (length buf) (length (stream crc fs)) (tail_of crc t)
      (fold push_record (place sid 0 fs) out)"
    using scan_loop_tail [OF t, of sid is_last "stream crc fs"] buf by simp
  finally show ?thesis by (simp add: segment_spec_def s) (simp add: buf)
qed

section \<open>The scan state\<close>

lemma push_record_fields [simp]:
  "si_records (push_record r out) = si_records out @ [r]"
  "si_records_replayed (push_record r out) = si_records_replayed out + 1"
  "si_files_scanned (push_record r out) = si_files_scanned out"
  "si_tail_truncated (push_record r out) = si_tail_truncated out"
  "si_tail_bytes_discarded (push_record r out) = si_tail_bytes_discarded out"
  "si_logical_end (push_record r out) = si_logical_end out"
  "si_last_txid_seen (push_record r out) = max (si_last_txid_seen out) (rc_txid r)"
  by (simp_all add: push_record_def max_def order_le_less)

lemma fold_push_fields [simp]:
  "si_records (fold push_record rs out) = si_records out @ rs"
  "si_records_replayed (fold push_record rs out) = si_records_replayed out + length rs"
  "si_files_scanned (fold push_record rs out) = si_files_scanned out"
  "si_tail_truncated (fold push_record rs out) = si_tail_truncated out"
  "si_tail_bytes_discarded (fold push_record rs out) = si_tail_bytes_discarded out"
  "si_logical_end (fold push_record rs out) = si_logical_end out"
  "si_last_txid_seen (fold push_record rs out) = fold max (map rc_txid rs) (si_last_txid_seen out)"
  by (induction rs arbitrary: out) (simp_all add: max.commute)

lemma fold_max_ge_init: "(m::'a::linorder) \<le> fold max xs m"
proof (induction xs arbitrary: m)
  case (Cons y xs)
  have "m \<le> max y m" by simp
  also have "\<dots> \<le> fold max xs (max y m)" by (rule Cons.IH)
  finally show ?case by simp
qed simp

lemma fold_max_ge: "x \<in> set xs \<Longrightarrow> x \<le> fold max xs (m::'a::linorder)"
proof (induction xs arbitrary: m)
  case (Cons y xs)
  have "y \<le> fold max xs (max y m)"
    using fold_max_ge_init [of "max y m" xs] by simp
  with Cons show ?case by auto
qed simp

lemma fold_max_in: "fold max xs m \<in> insert (m::'a::linorder) (set xs)"
proof (induction xs arbitrary: m)
  case (Cons y xs)
  have "max y m = y \<or> max y m = m" by (auto simp: max_def)
  with Cons.IH [of "max y m"] show ?case by auto
qed simp

end
