(* ===== verification/Log_Image.thy ===== *)
theory Log_Image
  imports Scan
begin

text \<open>
  The logical content of a log directory: for each segment the frames at its
  front and the undecodable rest, and from them the records of the whole log.
  \<open>scan_all_iff\<close> says that \<open>scan_all\<close> of \<open>record_log.rs\<close> succeeds exactly on
  recoverable directories and then returns these records and their statistics.
\<close>

definition seg_bytes :: "dir \<Rightarrow> nat \<Rightarrow> bytes" where
  "seg_bytes d sid = (case seg_content d sid of Some bs \<Rightarrow> bs | None \<Rightarrow> [])"

definition seg_frames :: "(bytes \<Rightarrow> u32) \<Rightarrow> dir \<Rightarrow> nat \<Rightarrow> frame list" where
  "seg_frames crc d sid = fst (split_frames crc (seg_bytes d sid))"

definition seg_tail :: "(bytes \<Rightarrow> u32) \<Rightarrow> dir \<Rightarrow> nat \<Rightarrow> bytes" where
  "seg_tail crc d sid = snd (split_frames crc (seg_bytes d sid))"

definition seg_records :: "(bytes \<Rightarrow> u32) \<Rightarrow> dir \<Rightarrow> nat \<Rightarrow> log_record list" where
  "seg_records crc d sid = place sid 0 (seg_frames crc d sid)"

definition ids_records :: "(bytes \<Rightarrow> u32) \<Rightarrow> dir \<Rightarrow> nat list \<Rightarrow> log_record list" where
  "ids_records crc d ids = concat (map (seg_records crc d) ids)"

text \<open>All records of a directory, in log order.\<close>

definition log_records :: "(bytes \<Rightarrow> u32) \<Rightarrow> dir \<Rightarrow> log_record list" where
  "log_records crc d = ids_records crc d (seg_ids d)"

definition tolerated :: "tail \<Rightarrow> bool" where
  "tolerated t \<longleftrightarrow> (case t of BrokenTail _ \<Rightarrow> False | _ \<Rightarrow> True)"

text \<open>Sealed segments are whole, and the last one ends in a tolerated tail.\<close>

fun recoverable_ids :: "(bytes \<Rightarrow> u32) \<Rightarrow> dir \<Rightarrow> nat list \<Rightarrow> bool" where
  "recoverable_ids crc d [] = True"
| "recoverable_ids crc d (sid # rest) =
     (if rest = [] then tolerated (tail_of crc (seg_tail crc d sid))
      else seg_tail crc d sid = [] \<and> recoverable_ids crc d rest)"

definition recoverable :: "(bytes \<Rightarrow> u32) \<Rightarrow> dir \<Rightarrow> bool" where
  "recoverable crc d \<longleftrightarrow> recoverable_ids crc d (seg_ids d)"

definition scan_io :: "os_env \<Rightarrow> nat list \<Rightarrow> bool" where
  "scan_io env ids \<longleftrightarrow> (\<forall>sid\<in>set ids. works env (OpenRead sid) \<and> works env (ReadToEnd sid))"

lemma scan_io_simps [simp]:
  "scan_io env []" "scan_io all_works ids"
  "scan_io env (sid # ids) \<longleftrightarrow> works env (OpenRead sid) \<and> works env (ReadToEnd sid) \<and> scan_io env ids"
  by (auto simp: scan_io_def)

lemma ids_records_simps [simp]:
  "ids_records crc d [] = []"
  "ids_records crc d (sid # ids) = seg_records crc d sid @ ids_records crc d ids"
  "ids_records crc d (ids @ ids') = ids_records crc d ids @ ids_records crc d ids'"
  by (simp_all add: ids_records_def)

section \<open>Frames and rest of a segment\<close>

lemma seg_split:
  "seg_bytes d sid = stream crc (seg_frames crc d sid) @ seg_tail crc d sid"
  "list_all frame_ok (seg_frames crc d sid)" "parse_frame crc (seg_tail crc d sid) = None"
proof -
  have "split_frames crc (seg_bytes d sid) = (seg_frames crc d sid, seg_tail crc d sid)"
    by (simp add: seg_frames_def seg_tail_def)
  note S = split_frames_sound [OF this]
  show "seg_bytes d sid = stream crc (seg_frames crc d sid) @ seg_tail crc d sid" using S by blast
  show "list_all frame_ok (seg_frames crc d sid)" using S by blast
  show "parse_frame crc (seg_tail crc d sid) = None" using S by blast
qed

lemma seg_splitI:
  assumes "seg_content d sid = Some (stream crc fs @ t)" "list_all frame_ok fs" "parse_frame crc t = None"
  shows "seg_frames crc d sid = fs" "seg_tail crc d sid = t"
proof -
  have "split_frames crc (seg_bytes d sid) = (fs, t)"
    unfolding seg_bytes_def assms(1) option.case by (rule split_frames_stream [OF assms(2,3)])
  then show "seg_frames crc d sid = fs" "seg_tail crc d sid = t"
    by (simp_all add: seg_frames_def seg_tail_def)
qed

lemma parse_frame_Nil [simp]: "parse_frame crc [] = None"
  by (rule wf.parse_Nil)

lemma tail_of_CleanEnd: "parse_frame crc t = None \<Longrightarrow> tail_of crc t = CleanEnd \<longleftrightarrow> t = []"
  by (auto simp: tail_of_def parse_frame_def split: sum.splits decode_outcome.splits)

lemma tail_of_Nil [simp]: "tail_of crc [] = CleanEnd"
  by (simp add: tail_of_def)

lemma seg_frames_cong: "seg_content d' sid = seg_content d sid \<Longrightarrow> seg_frames crc d' sid = seg_frames crc d sid"
  by (simp add: seg_frames_def seg_bytes_def)

lemma seg_tail_cong: "seg_content d' sid = seg_content d sid \<Longrightarrow> seg_tail crc d' sid = seg_tail crc d sid"
  by (simp add: seg_tail_def seg_bytes_def)

lemma ids_records_cong:
  "(\<And>sid. sid \<in> set ids \<Longrightarrow> seg_content d' sid = seg_content d sid) \<Longrightarrow>
   ids_records crc d' ids = ids_records crc d ids"
  unfolding ids_records_def
  by (intro arg_cong [where f = concat] map_cong refl)
    (simp add: seg_records_def seg_frames_def seg_bytes_def)

section \<open>Scanning a directory\<close>

lemma scan_segment_eq:
  "scan_segment env crc d sid is_last out =
     (if seg_content d sid = None \<or> \<not> works env (OpenRead sid) then Inl (Io (OpenRead sid))
      else if \<not> works env (ReadToEnd sid) then Inl (Io (ReadToEnd sid))
      else end_scan sid is_last (length (seg_bytes d sid)) (length (stream crc (seg_frames crc d sid)))
             (tail_of crc (seg_tail crc d sid)) (fold push_record (seg_records crc d sid) out))"
proof (cases "seg_content d sid")
  case None
  then show ?thesis by (simp add: scan_segment_def seg_content_def)
next
  case (Some bs)
  obtain fs t where s: "split_frames crc bs = (fs, t)" by force
  then have "length bs - length t = length (stream crc fs)"
    using split_frames_sound [OF s] by simp
  with s Some show ?thesis
    by (simp add: scan_segment_def scan_loop_eq segment_spec_def seg_records_def seg_frames_def
        seg_tail_def seg_bytes_def seg_content_def)
qed

lemma end_scan_Inr:
  "end_scan sid is_last len off tail out = Inr out' \<longleftrightarrow>
     (tail = CleanEnd \<and> out' = out\<lparr>si_logical_end := Some (sid, off)\<rparr>)
   \<or> (is_last \<and> tail \<noteq> CleanEnd \<and> tolerated tail \<and> out' = stop_at_tail sid len off out)"
  by (cases tail) (auto simp: end_scan_def tolerated_def)

text \<open>The state a successful scan of \<open>ids\<close> leaves.\<close>

definition scan_result ::
  "(bytes \<Rightarrow> u32) \<Rightarrow> dir \<Rightarrow> nat list \<Rightarrow> scan_internal \<Rightarrow> scan_internal" where
  "scan_result crc d ids out =
     (if ids = [] then out else
      let rs = ids_records crc d ids; t = seg_tail crc d (last ids) in
      \<lparr>si_records = si_records out @ rs,
       si_records_replayed = si_records_replayed out + length rs,
       si_files_scanned = si_files_scanned out + length ids,
       si_last_txid_seen = fold max (map rc_txid rs) (si_last_txid_seen out),
       si_tail_truncated = si_tail_truncated out + (if t = [] then 0 else 1),
       si_tail_bytes_discarded = si_tail_bytes_discarded out + length t,
       si_logical_end = Some (last ids, length (stream crc (seg_frames crc d (last ids))))\<rparr>)"

lemma scan_last_segment:
  "scan_segment env crc d sid True out' = Inr out'' \<longleftrightarrow>
     seg_content d sid \<noteq> None \<and> works env (OpenRead sid) \<and> works env (ReadToEnd sid)
     \<and> tolerated (tail_of crc (seg_tail crc d sid))
     \<and> out'' = (let o1 = fold push_record (seg_records crc d sid) out' in
           o1\<lparr>si_tail_truncated := si_tail_truncated o1 + (if seg_tail crc d sid = [] then 0 else 1),
              si_tail_bytes_discarded := si_tail_bytes_discarded o1 + length (seg_tail crc d sid),
              si_logical_end := Some (sid, length (stream crc (seg_frames crc d sid)))\<rparr>)"
proof -
  have t: "tail_of crc (seg_tail crc d sid) = CleanEnd \<longleftrightarrow> seg_tail crc d sid = []"
    by (rule tail_of_CleanEnd) (rule seg_split)
  have l: "length (seg_bytes d sid) - length (stream crc (seg_frames crc d sid)) = length (seg_tail crc d sid)"
    using seg_split(1) [of d sid crc] by (metis add_diff_cancel_left' length_append)
  show ?thesis
    by (auto simp: scan_segment_eq end_scan_Inr t l stop_at_tail_def Let_def tolerated_def)
qed

lemma scan_sealed_segment:
  "scan_segment env crc d sid False out' = Inr out'' \<longleftrightarrow>
     seg_content d sid \<noteq> None \<and> works env (OpenRead sid) \<and> works env (ReadToEnd sid)
     \<and> seg_tail crc d sid = []
     \<and> out'' = (fold push_record (seg_records crc d sid) out')
           \<lparr>si_logical_end := Some (sid, length (stream crc (seg_frames crc d sid)))\<rparr>"
  using tail_of_CleanEnd [OF seg_split(3), of crc d sid]
  by (auto simp: scan_segment_eq end_scan_Inr)

lemma scan_ids_Cons:
  "scan_ids env crc d (sid # rest) out = Inr out' \<longleftrightarrow>
     (\<exists>o1. scan_segment env crc d sid (rest = [])
             (out\<lparr>si_files_scanned := si_files_scanned out + 1\<rparr>) = Inr o1
          \<and> scan_ids env crc d rest o1 = Inr out')"
  by (auto split: sum.splits)

lemma scan_ids_iff:
  "scan_ids env crc d ids out = Inr out' \<longleftrightarrow>
     recoverable_ids crc d ids \<and> (\<forall>sid\<in>set ids. seg_content d sid \<noteq> None) \<and> scan_io env ids
     \<and> out' = scan_result crc d ids out"
proof (induction ids arbitrary: out)
  case Nil
  then show ?case by (auto simp: scan_result_def)
next
  case (Cons sid rest)
  show ?case
  proof (cases "rest = []")
    case True
    then show ?thesis
      unfolding scan_ids_Cons by (auto simp: scan_last_segment scan_result_def Let_def)
  next
    case False
    then have r: "scan_result crc d rest ((fold push_record (seg_records crc d sid)
          (out\<lparr>si_files_scanned := si_files_scanned out + 1\<rparr>))\<lparr>si_logical_end := x\<rparr>)
        = scan_result crc d (sid # rest) out" for x
      by (simp add: scan_result_def Let_def)
    have f: "(rest = []) = False" using False by simp
    show ?thesis
      unfolding scan_ids_Cons f scan_sealed_segment Cons.IH
      using False r by auto
  qed
qed

lemma scan_all_iff:
  "scan_all env crc d ids = Inr out' \<longleftrightarrow>
     recoverable_ids crc d ids \<and> (\<forall>sid\<in>set ids. seg_content d sid \<noteq> None) \<and> scan_io env ids
     \<and> out' = scan_result crc d ids empty_scan"
  by (simp add: scan_all_def scan_ids_iff)

end
