(* ===== verification/Dir_Lock.thy ===== *)
theory Dir_Lock
  imports Segments
begin

text \<open>
  \<open>crates/datawal-core/src/lock.rs\<close>: the advisory lock on \<open>.lock\<close>.

  The lock itself is \<open>flock(2)\<close> through the third-party crate \<open>fs2\<close>: the
  parameter \<open>fl\<close>, acting on a kernel state of arbitrary type \<open>'k\<close>.  What the
  code relies on is the predicate \<open>flock_laws\<close>: the documented behaviour of a
  non-blocking exclusive lock held by an open file description, for a description that
  does not hold it yet: \<open>acquire\<close> always opens the lock file anew.  A \<open>DirLock\<close>
  is the file description number it holds.
\<close>

record 'k flock =
  fl_try_lock_exclusive :: "'k \<Rightarrow> nat \<Rightarrow> 'k option"
  fl_unlock :: "'k \<Rightarrow> nat \<Rightarrow> 'k"

definition flock_laws :: "'k flock \<Rightarrow> ('k \<Rightarrow> nat set) \<Rightarrow> bool" where
  "flock_laws fl holders \<longleftrightarrow>
     (\<forall>k fd. fl_try_lock_exclusive fl k fd = None \<longleftrightarrow> holders k \<noteq> {})
   \<and> (\<forall>k fd k'. fl_try_lock_exclusive fl k fd = Some k' \<longrightarrow> holders k' = insert fd (holders k))
   \<and> (\<forall>k fd. holders (fl_unlock fl k fd) = holders k - {fd})"

definition LOCK_FILENAME :: string where "LOCK_FILENAME = ''.lock''"

definition bytes_of_string :: "string \<Rightarrow> bytes" where
  "bytes_of_string s = map of_char s"

text \<open>\<open>DirLock::acquire\<close>; the pid line is a diagnostic whose failure is ignored.\<close>

definition dir_lock_acquire ::
  "'k flock \<Rightarrow> os_env \<Rightarrow> nat \<Rightarrow> nat \<Rightarrow> 'k \<Rightarrow> dir \<Rightarrow> (error + nat) \<times> 'k \<times> dir" where
  "dir_lock_acquire fl env pid fd k d =
     (if \<not> works env CreateDirAll then (Inl (Io CreateDirAll), k, d)
      else if \<not> works env OpenLockFile \<or> map_of d (Utf8 LOCK_FILENAME) = Some OtherNode
        then (Inl (Io OpenLockFile), k, d)
      else
        let d1 = (if file_content d LOCK_FILENAME = None then put_file d LOCK_FILENAME [] else d) in
        case fl_try_lock_exclusive fl k fd of
          None \<Rightarrow> (Inl AlreadyLocked, k, d1)
        | Some k' \<Rightarrow>
            (Inr fd, k',
             put_file d1 LOCK_FILENAME
               (if works env WritePid then bytes_of_string (dec_digits pid) @ [10] else pid_left env)))"

definition dir_lock_drop :: "'k flock \<Rightarrow> 'k \<Rightarrow> nat \<Rightarrow> 'k" where
  "dir_lock_drop fl k fd = fl_unlock fl k fd"

section \<open>Effect on the directory\<close>

lemma lock_name_not_segment [simp]: "segment_name sid \<noteq> LOCK_FILENAME" "LOCK_FILENAME \<noteq> segment_name sid"
proof -
  have "last (segment_name sid) = CHR ''l''"
    by (simp add: segment_name_def SEGMENT_EXT_def)
  moreover have "last LOCK_FILENAME = CHR ''k''"
    by (simp add: LOCK_FILENAME_def)
  ultimately show "segment_name sid \<noteq> LOCK_FILENAME" by auto
  then show "LOCK_FILENAME \<noteq> segment_name sid" by metis
qed

lemma acquire_dir_ok: "dir_lock_acquire fl env pid fd k d = (r, k', d') \<Longrightarrow> dir_ok d \<Longrightarrow> dir_ok d'"
  by (auto simp: dir_lock_acquire_def Let_def split: if_splits option.splits)

lemma acquire_content:
  "dir_lock_acquire fl env pid fd k d = (r, k', d') \<Longrightarrow> seg_content d' sid = seg_content d sid"
  by (auto simp: dir_lock_acquire_def Let_def seg_content_def split: if_splits option.splits)

lemma acquire_seg_ids:
  assumes "dir_lock_acquire fl env pid fd k d = (r, k', d')" "dir_ok d"
  shows "seg_ids d' = seg_ids d"
  using acquire_dir_ok [OF assms] assms(2)
  by (intro seg_ids_eqI) (auto simp: set_seg_ids acquire_content [OF assms(1)])

section \<open>One live lock at a time\<close>

text \<open>
  Any number of processes acquire and drop; \<open>live\<close> are the \<open>DirLock\<close>s that
  exist.  A crash of a process is a \<open>drop\<close>: the kernel closes its descriptors.
\<close>

inductive lock_step :: "'k flock \<Rightarrow> 'k \<times> nat set \<times> dir \<Rightarrow> 'k \<times> nat set \<times> dir \<Rightarrow> bool" for fl where
  acquired: "dir_lock_acquire fl env pid fd k d = (Inr h, k', d') \<Longrightarrow>
     lock_step fl (k, live, d) (k', insert h live, d')"
| refused: "dir_lock_acquire fl env pid fd k d = (Inl e, k', d') \<Longrightarrow>
     lock_step fl (k, live, d) (k', live, d')"
| dropped: "h \<in> live \<Longrightarrow> lock_step fl (k, live, d) (dir_lock_drop fl k h, live - {h}, d)"

inductive_cases lock_stepE: "lock_step fl s t"

inductive lock_reach :: "'k flock \<Rightarrow> 'k \<times> nat set \<times> dir \<Rightarrow> 'k \<times> nat set \<times> dir \<Rightarrow> bool" for fl s where
  lr_refl: "lock_reach fl s s"
| lr_step: "lock_reach fl s t \<Longrightarrow> lock_step fl t u \<Longrightarrow> lock_reach fl s u"

definition lock_inv :: "('k \<Rightarrow> nat set) \<Rightarrow> 'k \<times> nat set \<times> dir \<Rightarrow> bool" where
  "lock_inv holders s \<longleftrightarrow> (case s of (k, live, d) \<Rightarrow> holders k = live \<and> (\<forall>a\<in>live. \<forall>b\<in>live. a = b))"

lemma acquire_Inr:
  assumes "dir_lock_acquire fl env pid fd k d = (Inr h, k', d')"
  shows "h = fd \<and> fl_try_lock_exclusive fl k fd = Some k'"
  using assms by (auto simp: dir_lock_acquire_def Let_def split: if_splits option.splits)

lemma acquire_Inl: "dir_lock_acquire fl env pid fd k d = (Inl e, k', d') \<Longrightarrow> k' = k"
  by (auto simp: dir_lock_acquire_def Let_def split: if_splits option.splits)

lemma flock_try_Some:
  "flock_laws fl holders \<Longrightarrow> fl_try_lock_exclusive fl k fd = Some k' \<Longrightarrow> holders k = {} \<and> holders k' = {fd}"
proof -
  assume fl: "flock_laws fl holders" and t: "fl_try_lock_exclusive fl k fd = Some k'"
  have "holders k = {}" using fl t by (metis flock_laws_def option.distinct(1))
  moreover have "holders k' = insert fd (holders k)" using fl t by (simp add: flock_laws_def)
  ultimately show ?thesis by simp
qed

lemma lock_step_inv:
  assumes fl: "flock_laws fl holders" and step: "lock_step fl s t" and inv: "lock_inv holders s"
  shows "lock_inv holders t"
  using step
proof (cases rule: lock_step.cases)
  case (acquired env pid fd k d h k' d' live)
  with acquire_Inr [of fl env pid fd k d h k' d'] flock_try_Some [OF fl, of k fd k'] inv
  show ?thesis by (auto simp: lock_inv_def)
next
  case (refused env pid fd k d e k' d' live)
  with acquire_Inl [of fl env pid fd k d e k' d'] inv show ?thesis by (auto simp: lock_inv_def)
next
  case (dropped h live k d)
  with inv fl show ?thesis by (auto simp: lock_inv_def dir_lock_drop_def flock_laws_def)
qed

lemma lock_reach_inv:
  "lock_reach fl s t \<Longrightarrow> flock_laws fl holders \<Longrightarrow> lock_inv holders s \<Longrightarrow> lock_inv holders t"
  by (induction rule: lock_reach.induct) (auto intro: lock_step_inv)

end
