(* ===== verification/Record_Log.thy ===== *)
theory Record_Log
  imports Log_Image Dir_Lock
begin

text \<open>
  \<open>RecordLog\<close> of \<open>crates/datawal-core/src/record_log.rs\<close>: the single-writer
  handle on a log directory.  A handle is a record of the fields of the struct
  (the directory itself is passed as an argument, the lock is the descriptor
  number \<open>rl_lock\<close>, and the append-mode \<open>active_file\<close> is the file of
  \<open>rl_active_id\<close>); every operation returns the result, the new handle and the new
  directory.  Write failures are values of \<open>env\<close>: a failing \<open>write_all\<close> leaves
  the first \<open>written env\<close> bytes of the frame in the file.
\<close>

record record_log =
  rl_lock :: nat
  rl_active_id :: nat
  rl_active_size :: nat
  rl_next_txid :: u64
  rl_last_report :: "recovery_report option"
  rl_poisoned :: "string option"

section \<open>Opening\<close>

text \<open>Step 3 of \<open>open\<close>: create segment 1 in a directory without segments.\<close>

definition ensure_segment :: "os_env \<Rightarrow> dir \<Rightarrow> nat list \<Rightarrow> (error + nat list) \<times> dir" where
  "ensure_segment env d ids =
     (if ids \<noteq> [] then (Inr ids, d)
      else if \<not> works env (CreateFile 1) then (Inl (Io (CreateFile 1)), d)
      else case create_file d (segment_name 1) of
             None \<Rightarrow> (Inl (Io (CreateFile 1)), d)
           | Some d' \<Rightarrow>
               if \<not> works env FsyncDir then (Inl (Io FsyncDir), d') else (Inr (ids @ [1]), d'))"

text \<open>Steps 4 to 6: pick the active segment, scan, open it for append.\<close>

definition open_scanned ::
  "os_env \<Rightarrow> (bytes \<Rightarrow> u32) \<Rightarrow> nat \<Rightarrow> dir \<Rightarrow> nat list \<Rightarrow> error + record_log" where
  "open_scanned env crc lock d ids =
     (case active_segment_id env d of
        Inl e \<Rightarrow> Inl e
      | Inr None \<Rightarrow> Inl (Io ReadDir)   \<comment> \<open>the \<open>expect\<close>: unreachable, \<open>ensure_segment_ids\<close>\<close>
      | Inr (Some active_id) \<Rightarrow>
          (case scan_all env crc d ids of
             Inl e \<Rightarrow> Inl e
           | Inr report \<Rightarrow>
               let next_txid = (case checked_succ (si_last_txid_seen report) of Some t \<Rightarrow> t | None \<Rightarrow> 1);
                   active_size_logical =
                     (case last_segment_logical_size_for report active_id of Some n \<Rightarrow> n | None \<Rightarrow> 0)
               in case segment_size env d active_id of
                    Inl e \<Rightarrow> Inl e
                  | Inr _ \<Rightarrow>
                      if \<not> works env (OpenAppend active_id)
                         \<or> file_content d (segment_name active_id) = None
                      then Inl (Io (OpenAppend active_id))
                      else Inr \<lparr>rl_lock = lock, rl_active_id = active_id,
                             rl_active_size = active_size_logical, rl_next_txid = next_txid,
                             rl_last_report = Some (into_public report), rl_poisoned = None\<rparr>))"

text \<open>
  \<open>RecordLog::open\<close>.  \<open>dopt\<close> is \<open>None\<close> when the directory does not exist yet.
  An error after the lock was taken drops the \<open>DirLock\<close>.
\<close>

definition rl_open ::
  "'k flock \<Rightarrow> os_env \<Rightarrow> (bytes \<Rightarrow> u32) \<Rightarrow> nat \<Rightarrow> nat \<Rightarrow> 'k \<Rightarrow> dir option
   \<Rightarrow> (error + record_log) \<times> 'k \<times> dir option" where
  "rl_open fl env crc pid fd k dopt =
     (if \<not> works env CreateDirAll then (Inl (Io CreateDirAll), k, dopt)
      else
        let d0 = (case dopt of None \<Rightarrow> [] | Some d \<Rightarrow> d) in
        case dir_lock_acquire fl env pid fd k d0 of
          (Inl e, k1, d1) \<Rightarrow> (Inl e, k1, Some d1)
        | (Inr lock, k1, d1) \<Rightarrow>
            (case list_segment_ids env d1 of
               Inl e \<Rightarrow> (Inl e, dir_lock_drop fl k1 lock, Some d1)
             | Inr ids0 \<Rightarrow>
                 (case ensure_segment env d1 ids0 of
                    (Inl e, d2) \<Rightarrow> (Inl e, dir_lock_drop fl k1 lock, Some d2)
                  | (Inr ids, d2) \<Rightarrow>
                      (case open_scanned env crc lock d2 ids of
                         Inl e \<Rightarrow> (Inl e, dir_lock_drop fl k1 lock, Some d2)
                       | Inr log \<Rightarrow> (Inr log, k1, Some d2)))))"

text \<open>\<open>close\<close> consumes the handle; dropping it releases the lock.\<close>

definition rl_close :: "'k flock \<Rightarrow> 'k \<Rightarrow> record_log \<Rightarrow> (error + unit) \<times> 'k" where
  "rl_close fl k log = (Inr (), dir_lock_drop fl k (rl_lock log))"

section \<open>Inspection\<close>

definition rl_is_poisoned :: "record_log \<Rightarrow> bool" where
  "rl_is_poisoned log \<longleftrightarrow> rl_poisoned log \<noteq> None"

definition poison_error :: "string \<Rightarrow> error" where
  "poison_error reason = WriterPoisoned reason"

definition check_poisoned :: "record_log \<Rightarrow> error + unit" where
  "check_poisoned log =
     (case rl_poisoned log of Some reason \<Rightarrow> Inl (poison_error reason) | None \<Rightarrow> Inr ())"

definition rl_set_poisoned_for_test :: "string \<Rightarrow> record_log \<Rightarrow> record_log" where
  "rl_set_poisoned_for_test reason log = log\<lparr>rl_poisoned := Some reason\<rparr>"

text \<open>\<open>testing::poison_record_log_for_test\<close> of \<open>lib.rs\<close>.\<close>

definition poison_record_log_for_test :: "record_log \<Rightarrow> string \<Rightarrow> record_log" where
  "poison_record_log_for_test log reason = rl_set_poisoned_for_test reason log"

definition rl_active_segment :: "record_log \<Rightarrow> nat" where
  "rl_active_segment log = rl_active_id log"

definition rl_recovery_report :: "record_log \<Rightarrow> error + recovery_report" where
  "rl_recovery_report log =
     Inr (case rl_last_report log of Some r \<Rightarrow> r | None \<Rightarrow> default_report)"

section \<open>Appending\<close>

definition rl_append_record ::
  "os_env \<Rightarrow> (bytes \<Rightarrow> u32) \<Rightarrow> record_log \<Rightarrow> dir \<Rightarrow> record_type \<Rightarrow> bytes \<Rightarrow> bytes
   \<Rightarrow> (error + record_ref) \<times> record_log \<times> dir" where
  "rl_append_record env crc log d rt key payload =
     (case check_poisoned log of
        Inl e \<Rightarrow> (Inl e, log, d)
      | Inr _ \<Rightarrow>
      let txid = rl_next_txid log in
      (case encode_record crc rt txid key payload of
         Inl e \<Rightarrow> (Inl e, log, d)
       | Inr bs \<Rightarrow>
         let len = length bs mod 2 ^ 32;
             offset = rl_active_size log;
             name = segment_name (rl_active_id log) in
         if \<not> works env (WriteAll (rl_active_id log)) then
           (Inl (Io (WriteAll (rl_active_id log))),
            log\<lparr>rl_poisoned := Some ''append_record write_all failed''\<rparr>,
            append_file d name (take (written env) bs))
         else
           let d' = append_file d name bs in
           (case checked_add_u64 (rl_active_size log) len of
              None \<Rightarrow> (Inl ActiveSizeOverflow,
                       log\<lparr>rl_poisoned := Some ''active segment size overflow''\<rparr>, d')
            | Some v \<Rightarrow>
                let log1 = log\<lparr>rl_active_size := v\<rparr> in
                (case checked_succ txid of
                   None \<Rightarrow> (Inl (TxidOverflow txid), log1\<lparr>rl_poisoned := Some ''txid overflow''\<rparr>, d')
                 | Some t \<Rightarrow>
                     (Inr \<lparr>ref_segment = rl_active_id log1, ref_offset = offset, ref_len = len\<rparr>,
                      log1\<lparr>rl_next_txid := t\<rparr>, d')))))"

definition rl_append ::
  "os_env \<Rightarrow> (bytes \<Rightarrow> u32) \<Rightarrow> record_log \<Rightarrow> dir \<Rightarrow> bytes \<Rightarrow> (error + record_ref) \<times> record_log \<times> dir" where
  "rl_append env crc log d payload = rl_append_record env crc log d Raw [] payload"

section \<open>Scanning\<close>

definition rl_scan ::
  "os_env \<Rightarrow> (bytes \<Rightarrow> u32) \<Rightarrow> record_log \<Rightarrow> dir \<Rightarrow> (error + log_record list) \<times> record_log" where
  "rl_scan env crc log d =
     (case list_segment_ids env d of
        Inl e \<Rightarrow> (Inl e, log)
      | Inr ids \<Rightarrow>
          (case scan_all env crc d ids of
             Inl e \<Rightarrow> (Inl e, log)
           | Inr internal \<Rightarrow>
               (Inr (si_records internal),
                log\<lparr>rl_next_txid := (case checked_succ (si_last_txid_seen internal) of Some t \<Rightarrow> t | None \<Rightarrow> 1),
                    rl_last_report := Some (into_public internal)\<rparr>)))"

section \<open>Durability and rotation\<close>

definition rl_fsync :: "os_env \<Rightarrow> record_log \<Rightarrow> (error + unit) \<times> record_log" where
  "rl_fsync env log =
     (case check_poisoned log of
        Inl e \<Rightarrow> (Inl e, log)
      | Inr _ \<Rightarrow>
          if \<not> works env (SyncAll (rl_active_id log)) then
            (Inl (Io (SyncAll (rl_active_id log))), log\<lparr>rl_poisoned := Some ''fsync sync_all failed''\<rparr>)
          else if \<not> works env FsyncDir then
            (Inl (Io FsyncDir), log\<lparr>rl_poisoned := Some ''fsync fsync_dir failed''\<rparr>)
          else (Inr (), log))"

definition rl_rotate :: "os_env \<Rightarrow> record_log \<Rightarrow> dir \<Rightarrow> (error + unit) \<times> record_log \<times> dir" where
  "rl_rotate env log d =
     (case check_poisoned log of
        Inl e \<Rightarrow> (Inl e, log, d)
      | Inr _ \<Rightarrow>
      if \<not> works env (SyncAll (rl_active_id log)) then
        (Inl (Io (SyncAll (rl_active_id log))),
         log\<lparr>rl_poisoned := Some ''rotate sync_all on previous segment failed''\<rparr>, d)
      else case list_segment_ids env d of
        Inl e \<Rightarrow> (Inl e, log, d)
      | Inr ids \<Rightarrow>
      (case next_segment_id ids of
        Inl e \<Rightarrow> (Inl e, log, d)
      | Inr new_id \<Rightarrow>
        if new_id \<le> rl_active_id log then
          (Inl (RotateNonIncreasing (rl_active_id log) new_id),
           log\<lparr>rl_poisoned := Some ''rotate computed non-increasing segment id''\<rparr>, d)
        else
          (case (if works env (CreateFile new_id) then create_file d (segment_name new_id) else None) of
             None \<Rightarrow> (Inl (Io (CreateFile new_id)),
                      log\<lparr>rl_poisoned := Some ''rotate create new segment failed''\<rparr>, d)
           | Some d' \<Rightarrow>
               if \<not> works env FsyncDir then
                 (Inl (Io FsyncDir),
                  log\<lparr>rl_poisoned := Some ''rotate fsync_dir after segment create failed''\<rparr>, d')
               else if \<not> works env (OpenAppend new_id) then
                 (Inl (Io (OpenAppend new_id)),
                  log\<lparr>rl_poisoned := Some ''rotate open new active segment failed''\<rparr>, d')
               else (Inr (), log\<lparr>rl_active_id := new_id, rl_active_size := 0\<rparr>, d'))))"

end
