(* ===== verification/Record_Log_Correct.thy ===== *)
theory Record_Log_Correct
  imports Record_Log
begin

text \<open>
  Correctness of \<open>RecordLog\<close>.  The abstract state of a log is the list
  \<open>log_records crc d\<close>.  \<open>rl_inv\<close> relates a live handle to a directory whose
  segments end cleanly; each operation is described by what it does to the list
  of records, and preserves \<open>rl_inv\<close>.
\<close>

definition frame_of :: "log_record \<Rightarrow> frame" where
  "frame_of r = \<lparr>fr_type = rc_type r, fr_txid = rc_txid r, fr_key = rc_key r, fr_payload = rc_payload r\<rparr>"

definition ref_of_record :: "log_record \<Rightarrow> record_ref" where
  "ref_of_record r = \<lparr>ref_segment = rc_segment r, ref_offset = rc_offset r, ref_len = rc_len r\<rparr>"

text \<open>The bytes a reference points at.\<close>

definition bytes_at :: "dir \<Rightarrow> record_ref \<Rightarrow> bytes" where
  "bytes_at d r = slice (ref_offset r) (ref_offset r + ref_len r) (seg_bytes d (ref_segment r))"

definition rl_inv :: "(bytes \<Rightarrow> u32) \<Rightarrow> record_log \<Rightarrow> dir \<Rightarrow> bool" where
  "rl_inv crc log d \<longleftrightarrow>
     dir_ok d \<and> seg_ids d \<noteq> [] \<and> rl_active_id log = last (seg_ids d)
   \<and> (\<forall>sid\<in>set (seg_ids d). seg_tail crc d sid = [])
   \<and> rl_active_size log = length (seg_bytes d (rl_active_id log))
   \<and> (\<forall>r\<in>set (log_records crc d). rc_txid r < rl_next_txid log)
   \<and> rl_poisoned log = None"

section \<open>Records and the bytes they stand for\<close>

lemma frame_of_located [simp]: "frame_of (located sid off f) = f"
  by (simp add: frame_of_def located_def)

lemma set_place:
  "r \<in> set (place sid off fs) \<Longrightarrow> \<exists>gs f hs. fs = gs @ f # hs \<and> r = located sid (off + sum_list (map wire_len gs)) f"
proof (induction fs arbitrary: off)
  case (Cons f fs)
  show ?case
  proof (cases "r = located sid off f")
    case True
    then show ?thesis by (intro exI [of _ "[]"] exI [of _ f] exI [of _ fs]) simp
  next
    case False
    with Cons.prems have "r \<in> set (place sid (off + wire_len f) fs)" by simp
    from Cons.IH [OF this] obtain gs g hs where
      "fs = gs @ g # hs" "r = located sid (off + wire_len f + sum_list (map wire_len gs)) g" by blast
    then show ?thesis
      by (intro exI [of _ "f # gs"] exI [of _ g] exI [of _ hs]) (simp add: add.assoc)
  qed
qed simp

lemma seg_record_at:
  assumes "r \<in> set (seg_records crc d sid)"
  shows "rc_segment r = sid \<and> frame_ok (frame_of r) \<and> rc_len r = wire_len (frame_of r)
    \<and> bytes_at d (ref_of_record r) = wire crc (frame_of r)
    \<and> rc_offset r + rc_len r \<le> length (seg_bytes d sid)"
proof -
  from assms obtain gs f hs where fs: "seg_frames crc d sid = gs @ f # hs"
    and r: "r = located sid (sum_list (map wire_len gs)) f"
    by (auto simp: seg_records_def dest!: set_place)
  have b: "seg_bytes d sid = stream crc gs @ wire crc f @ stream crc hs @ seg_tail crc d sid"
    using seg_split(1) [of d sid crc] by (simp add: fs)
  have ok: "frame_ok f" using seg_split(2) [of crc d sid] by (simp add: fs)
  have f: "rc_segment r = sid" "rc_offset r = length (stream crc gs)" "rc_len r = wire_len f" "frame_of r = f"
    by (simp_all add: r length_stream) (simp_all add: located_def)
  have "bytes_at d (ref_of_record r) = wire crc f"
    by (simp add: bytes_at_def ref_of_record_def f b slice_def length_wire)
  then show ?thesis using f ok by (simp add: b length_wire)
qed

lemma log_record_at:
  assumes "r \<in> set (log_records crc d)"
  shows "rc_segment r \<in> set (seg_ids d) \<and> frame_ok (frame_of r) \<and> rc_len r = wire_len (frame_of r)
    \<and> bytes_at d (ref_of_record r) = wire crc (frame_of r)
    \<and> rc_offset r + rc_len r \<le> length (seg_bytes d (rc_segment r))"
proof -
  from assms obtain sid where "sid \<in> set (seg_ids d)" "r \<in> set (seg_records crc d sid)"
    by (auto simp: log_records_def ids_records_def)
  with seg_record_at [OF this(2)] show ?thesis by simp
qed

section \<open>Appending bytes to the active segment\<close>

lemma seg_content_seg_bytes: "seg_content d sid \<noteq> None \<Longrightarrow> seg_content d sid = Some (seg_bytes d sid)"
  by (auto simp: seg_bytes_def)

lemma seg_bytes_append:
  "seg_content d sid \<noteq> None \<Longrightarrow>
   seg_bytes (append_file d (segment_name sid) bs) i = seg_bytes d i @ (if i = sid then bs else [])"
  by (auto simp: seg_bytes_def seg_content_append)

lemma log_records_last:
  "seg_ids d \<noteq> [] \<Longrightarrow>
   log_records crc d = ids_records crc d (butlast (seg_ids d)) @ seg_records crc d (last (seg_ids d))"
  using ids_records_simps(3) [of crc d "butlast (seg_ids d)" "[last (seg_ids d)]"]
  by (simp add: log_records_def)

lemma last_not_in_butlast: "distinct xs \<Longrightarrow> xs \<noteq> [] \<Longrightarrow> last xs \<notin> set (butlast xs)"
  by (metis append_butlast_last_id distinct_append disjoint_insert(1) empty_set list.simps(15) inf_commute)

text \<open>
  Bytes \<open>stream crc gs @ t\<close> written at the end of a clean active segment: \<open>gs\<close> more
  records, and the rest \<open>t\<close> as the tail.
\<close>

lemma append_stream:
  assumes ok: "dir_ok d" and ne: "seg_ids d \<noteq> []" and tl: "seg_tail crc d (last (seg_ids d)) = []"
    and gs: "list_all frame_ok gs" and t: "parse_frame crc t = None"
  defines "a \<equiv> last (seg_ids d)"
  defines "d' \<equiv> append_file d (segment_name a) (stream crc gs @ t)"
  shows "seg_ids d' = seg_ids d" "dir_ok d'"
    "log_records crc d' = log_records crc d @ place a (length (seg_bytes d a)) gs"
    "seg_tail crc d' a = t" "\<And>i. i \<noteq> a \<Longrightarrow> seg_tail crc d' i = seg_tail crc d i"
    "seg_bytes d' a = seg_bytes d a @ stream crc gs @ t"
    "seg_frames crc d' a = seg_frames crc d a @ gs"
proof -
  have a: "a \<in> set (seg_ids d)" using ne by (simp add: a_def)
  then have c: "seg_content d a = Some (seg_bytes d a)"
    using ok by (intro seg_content_seg_bytes) (simp add: set_seg_ids)
  have b: "seg_bytes d a = stream crc (seg_frames crc d a)"
    using seg_split(1) [of d a crc] tl by (simp add: a_def)
  show ids: "seg_ids d' = seg_ids d" and "dir_ok d'"
    using ok by (simp_all add: d'_def)
  have c': "seg_content d' a = Some (stream crc (seg_frames crc d a @ gs) @ t)"
    using c b by (simp add: d'_def seg_content_append)
  have fr: "list_all frame_ok (seg_frames crc d a @ gs)"
    using seg_split(2) gs by simp
  show fs: "seg_frames crc d' a = seg_frames crc d a @ gs" "seg_tail crc d' a = t"
    using seg_splitI [OF c' fr t] by simp_all
  show "seg_bytes d' a = seg_bytes d a @ stream crc gs @ t"
    using c' b by (simp add: seg_bytes_def)
  have o: "i \<noteq> a \<Longrightarrow> seg_content d' i = seg_content d i" for i
    by (simp add: d'_def seg_content_append)
  then show "i \<noteq> a \<Longrightarrow> seg_tail crc d' i = seg_tail crc d i" for i
    by (rule seg_tail_cong)
  have "ids_records crc d' (butlast (seg_ids d)) = ids_records crc d (butlast (seg_ids d))"
    using last_not_in_butlast [OF seg_ids_distinct [OF ok] ne]
    by (intro ids_records_cong o) (auto simp: a_def)
  moreover have "seg_records crc d' a = seg_records crc d a @ place a (length (seg_bytes d a)) gs"
    by (simp add: seg_records_def fs place_append length_stream b)
  ultimately show "log_records crc d' = log_records crc d @ place a (length (seg_bytes d a)) gs"
    using ne by (simp add: log_records_last ids flip: a_def)
qed

section \<open>append_record\<close>

definition append_frame :: "record_log \<Rightarrow> record_type \<Rightarrow> bytes \<Rightarrow> bytes \<Rightarrow> frame" where
  "append_frame log rt key payload =
     \<lparr>fr_type = rt, fr_txid = rl_next_txid log, fr_key = key, fr_payload = payload\<rparr>"

lemma rl_invD:
  assumes "rl_inv crc log d"
  shows "dir_ok d" "seg_ids d \<noteq> []" "rl_active_id log = last (seg_ids d)"
    "\<And>sid. sid \<in> set (seg_ids d) \<Longrightarrow> seg_tail crc d sid = []"
    "rl_active_size log = length (seg_bytes d (rl_active_id log))"
    "\<And>r. r \<in> set (log_records crc d) \<Longrightarrow> rc_txid r < rl_next_txid log"
    "rl_poisoned log = None"
  using assms by (auto simp: rl_inv_def)

lemma append_record_ok:
  assumes inv: "rl_inv crc log d" and fok: "frame_ok (append_frame log rt key payload)"
    and io: "works env (WriteAll (rl_active_id log))"
    and sz: "rl_active_size log + wire_len (append_frame log rt key payload) < 2 ^ 64"
    and tx: "checked_succ (rl_next_txid log) = Some t"
  defines "f \<equiv> append_frame log rt key payload"
  defines "r \<equiv> located (rl_active_id log) (rl_active_size log) f"
  defines "d' \<equiv> append_file d (segment_name (rl_active_id log)) (wire crc f)"
  defines "log' \<equiv> log\<lparr>rl_active_size := rl_active_size log + wire_len f, rl_next_txid := t\<rparr>"
  shows "rl_append_record env crc log d rt key payload = (Inr (ref_of_record r), log', d')"
    "rl_inv crc log' d'" "log_records crc d' = log_records crc d @ [r]" "seg_ids d' = seg_ids d"
proof -
  note I = rl_invD [OF inv]
  have enc: "encode_record crc rt (rl_next_txid log) key payload = Inr (wire crc f)"
    using fok by (auto simp: encode_record_Inr f_def append_frame_def)
  show "rl_append_record env crc log d rt key payload = (Inr (ref_of_record r), log', d')"
    using io sz tx enc I(7) frame_ok_wire_len_u32 [OF fok]
    by (simp add: rl_append_record_def check_poisoned_def Let_def length_wire d'_def log'_def r_def
        ref_of_record_def located_def checked_add_u64_def f_def [symmetric])
  have S: "dir_ok d" "seg_ids d \<noteq> []" "seg_tail crc d (last (seg_ids d)) = []"
    using I(1,2,4) by simp_all
  note A = append_stream [OF S, of "[f]" "[]", simplified, OF fok [folded f_def], folded I(3), folded d'_def]
  show lr: "log_records crc d' = log_records crc d @ [r]" and ids: "seg_ids d' = seg_ids d"
    using A(1,3) by (simp_all add: r_def I(5))
  have txr: "rc_txid x < t" if "x \<in> set (log_records crc d')" for x
  proof -
    have "rc_txid x \<le> rl_next_txid log"
      using that I(6) by (auto simp: lr r_def located_def f_def append_frame_def intro: less_imp_le)
    with checked_succ_less [OF tx] show ?thesis by simp
  qed
  have tails: "sid \<in> set (seg_ids d) \<Longrightarrow> seg_tail crc d' sid = []" for sid
    using A(4,5) I(4) by (cases "sid = rl_active_id log") simp_all
  show "rl_inv crc log' d'"
    using A I txr tails ids by (simp add: rl_inv_def log'_def length_wire)
qed

section \<open>Recoverable directories\<close>

lemma recoverable_ids_iff:
  "recoverable_ids crc d ids \<longleftrightarrow>
     (\<forall>sid\<in>set (butlast ids). seg_tail crc d sid = [])
   \<and> (ids \<noteq> [] \<longrightarrow> tolerated (tail_of crc (seg_tail crc d (last ids))))"
  by (induction ids) auto

lemma tail_of_torn:
  "frame_ok f \<Longrightarrow> n < wire_len f \<Longrightarrow> tail_of crc (take n (wire crc' f)) = (if n = 0 then CleanEnd else ShortTail)"
  using decode_truncated [of f n crc crc'] by (auto simp: tail_of_def)

lemma tolerated_simps [simp]:
  "tolerated CleanEnd" "tolerated ShortTail" "tolerated BadCrcTail" "\<not> tolerated (BrokenTail e)"
  by (simp_all add: tolerated_def)

lemma parse_torn: "frame_ok f \<Longrightarrow> n < wire_len f \<Longrightarrow> parse_frame crc (take n (wire crc f)) = None"
  by (rule wf.parse_strict_prefix) (simp_all add: length_wire)

lemma rl_inv_recoverable: "rl_inv crc log d \<Longrightarrow> recoverable crc d"
  by (auto simp: recoverable_def recoverable_ids_iff dest: rl_invD(4) in_set_butlastD)
    (metis last_in_set rl_invD(2,4) tail_of_Nil tolerated_simps(1))

section \<open>Failed writes and poisoning\<close>

lemma append_record_write_failed:
  assumes inv: "rl_inv crc log d" and fok: "frame_ok (append_frame log rt key payload)"
    and io: "\<not> works env (WriteAll (rl_active_id log))"
    and n: "written env < wire_len (append_frame log rt key payload)"
  defines "f \<equiv> append_frame log rt key payload"
  defines "d' \<equiv> append_file d (segment_name (rl_active_id log)) (take (written env) (wire crc f))"
  shows "rl_append_record env crc log d rt key payload =
      (Inl (Io (WriteAll (rl_active_id log))),
       log\<lparr>rl_poisoned := Some ''append_record write_all failed''\<rparr>, d')"
    "log_records crc d' = log_records crc d" "seg_ids d' = seg_ids d" "dir_ok d'" "recoverable crc d'"
    "seg_tail crc d' (rl_active_id log) = take (written env) (wire crc f)"
proof -
  note I = rl_invD [OF inv]
  have enc: "encode_record crc rt (rl_next_txid log) key payload = Inr (wire crc f)"
    using fok by (auto simp: encode_record_Inr f_def append_frame_def)
  show "rl_append_record env crc log d rt key payload =
      (Inl (Io (WriteAll (rl_active_id log))),
       log\<lparr>rl_poisoned := Some ''append_record write_all failed''\<rparr>, d')"
    using io enc I(7) by (simp add: rl_append_record_def check_poisoned_def Let_def d'_def)
  have t: "parse_frame crc (take (written env) (wire crc f)) = None"
    using parse_torn fok n by (simp add: f_def)
  have S: "dir_ok d" "seg_ids d \<noteq> []" "seg_tail crc d (last (seg_ids d)) = []"
    using I(1,2,4) by simp_all
  note A = append_stream [OF S, of "[]", simplified, OF t, folded I(3), folded d'_def]
  show "log_records crc d' = log_records crc d" "seg_ids d' = seg_ids d" "dir_ok d'"
    "seg_tail crc d' (rl_active_id log) = take (written env) (wire crc f)"
    using A by simp_all
  have "\<forall>sid\<in>set (butlast (seg_ids d)). seg_tail crc d' sid = []"
    using A(5) I(4) last_not_in_butlast [OF seg_ids_distinct [OF I(1)] I(2)]
    by (metis I(3) in_set_butlastD)
  moreover have "tolerated (tail_of crc (seg_tail crc d' (rl_active_id log)))"
    using A(4) tail_of_torn [OF fok n] by (simp add: f_def)
  ultimately show "recoverable crc d'"
    using A(1) I(3) by (simp add: recoverable_def recoverable_ids_iff)
qed

text \<open>A poisoned handle refuses every mutating call and changes nothing.\<close>

lemma poisoned_refuses:
  assumes "rl_poisoned log = Some reason"
  shows "rl_append_record env crc log d rt key payload = (Inl (WriterPoisoned reason), log, d)"
    "rl_fsync env log = (Inl (WriterPoisoned reason), log)"
    "rl_rotate env log d = (Inl (WriterPoisoned reason), log, d)"
  using assms
  by (simp_all add: rl_append_record_def rl_fsync_def rl_rotate_def check_poisoned_def poison_error_def)

text \<open>Every failing append after encoding poisons; encoding errors do not.\<close>

lemma append_record_error_poisons:
  assumes "rl_append_record env crc log d rt key payload = (Inl e, log', d')"
  shows "rl_poisoned log' \<noteq> None \<or>
    (log' = log \<and> d' = d \<and> (e = KeyLenExceeds (length key) \<or> e = PayloadLenExceeds (length payload)))"
  using assms
  by (auto simp: rl_append_record_def check_poisoned_def Let_def encode_record_wire
      split: option.splits if_splits sum.splits)

section \<open>Opening\<close>

definition all_io :: "os_env \<Rightarrow> bool" where
  "all_io env \<longleftrightarrow> (\<forall>c. works env c)"

lemma all_io_works [simp]: "all_io env \<Longrightarrow> works env c"
  by (simp add: all_io_def)

lemma all_io_scan [simp]: "all_io env \<Longrightarrow> scan_io env ids"
  by (simp add: scan_io_def)

lemma last_seg_content: "dir_ok d \<Longrightarrow> seg_ids d \<noteq> [] \<Longrightarrow> seg_content d (last (seg_ids d)) \<noteq> None"
  using set_seg_ids [of d] last_in_set [of "seg_ids d"] by blast

text \<open>The handle that \<open>open\<close> builds from a directory with at least one segment.\<close>

definition opened_log :: "(bytes \<Rightarrow> u32) \<Rightarrow> nat \<Rightarrow> dir \<Rightarrow> record_log" where
  "opened_log crc lock d =
     (let si = scan_result crc d (seg_ids d) empty_scan in
      \<lparr>rl_lock = lock, rl_active_id = last (seg_ids d),
       rl_active_size = length (stream crc (seg_frames crc d (last (seg_ids d)))),
       rl_next_txid = (case checked_succ (si_last_txid_seen si) of Some t \<Rightarrow> t | None \<Rightarrow> 1),
       rl_last_report = Some (into_public si), rl_poisoned = None\<rparr>)"

lemma open_scanned_eq:
  assumes "all_io env" "dir_ok d" "seg_ids d \<noteq> []"
  shows "open_scanned env crc lock d (seg_ids d) = Inr log \<longleftrightarrow>
    recoverable crc d \<and> log = opened_log crc lock d"
proof -
  have act: "active_segment_id env d = Inr (Some (last (seg_ids d)))"
    using assms by (simp add: active_segment_id_def list_segment_ids_def seg_ids_def)
  have c: "\<forall>sid\<in>set (seg_ids d). seg_content d sid \<noteq> None"
    using assms(2) by (simp add: set_seg_ids)
  have fc: "file_content d (segment_name (last (seg_ids d))) \<noteq> None"
    using last_seg_content [OF assms(2,3)] by (simp add: seg_content_def)
  obtain n where n: "segment_size env d (last (seg_ids d)) = Inr n"
    using assms(1) fc by (auto simp: segment_size_def file_content_def split: option.splits node.splits)
  have le: "last_segment_logical_size_for (scan_result crc d (seg_ids d) empty_scan) (last (seg_ids d))
      = Some (length (stream crc (seg_frames crc d (last (seg_ids d)))))"
    using assms(3) by (simp add: scan_result_def last_segment_logical_size_for_def Let_def)
  show ?thesis
  proof (cases "scan_all env crc d (seg_ids d)")
    case (Inl e)
    then have "\<not> recoverable crc d"
      using scan_all_iff [of env crc d "seg_ids d"] c assms(1) by (auto simp: recoverable_def)
    with Inl act show ?thesis by (simp add: open_scanned_def)
  next
    case (Inr si)
    then have "recoverable crc d" "si = scan_result crc d (seg_ids d) empty_scan"
      by (simp_all add: scan_all_iff recoverable_def)
    with Inr act n le fc assms(1) show ?thesis
      by (auto simp: open_scanned_def opened_log_def Let_def)
  qed
qed

text \<open>A log depends on its directory through the contents of the segments only.\<close>

lemma same_segments:
  assumes "dir_ok d" "dir_ok d'" "\<And>sid. seg_content d' sid = seg_content d sid"
  shows "seg_ids d' = seg_ids d" "log_records crc d' = log_records crc d"
    "seg_tail crc d' sid = seg_tail crc d sid" "recoverable crc d' = recoverable crc d"
proof -
  show ids: "seg_ids d' = seg_ids d"
    using assms by (intro seg_ids_eqI) (simp_all add: set_seg_ids)
  show "log_records crc d' = log_records crc d"
    unfolding log_records_def ids by (rule ids_records_cong) (rule assms)
  have t: "seg_tail crc d' i = seg_tail crc d i" for i
    by (rule seg_tail_cong) (rule assms)
  show "seg_tail crc d' sid = seg_tail crc d sid" by (rule t)
  show "recoverable crc d' = recoverable crc d"
    by (simp add: recoverable_def recoverable_ids_iff ids t)
qed

text \<open>Nothing but a regular file sits at the lock's or the first segment's name.\<close>

definition openable :: "dir \<Rightarrow> bool" where
  "openable d \<longleftrightarrow> map_of d (Utf8 LOCK_FILENAME) \<noteq> Some OtherNode
     \<and> map_of d (Utf8 (segment_name 1)) \<noteq> Some OtherNode"

lemma openable_put [simp]: "openable d \<Longrightarrow> openable (put_file d name bs)"
  by (simp add: openable_def map_of_put)

lemma openable_append [simp]: "openable d \<Longrightarrow> openable (append_file d name bs)"
  by (simp add: append_file_def split: option.split)

lemma acquire_ok:
  assumes "all_io env" "openable d" "fl_try_lock_exclusive fl k fd = Some k'"
  obtains d' where "dir_lock_acquire fl env pid fd k d = (Inr fd, k', d')" "openable d'"
  using assms
  by (auto simp: dir_lock_acquire_def openable_def Let_def map_of_put split: if_splits)

lemma ensure_segment_Inr:
  assumes e: "ensure_segment env d (seg_ids d) = (Inr ids, d')" and ok: "dir_ok d"
  shows "ids = seg_ids d'" "dir_ok d'" "seg_ids d' = (if seg_ids d = [] then [1] else seg_ids d)"
    "log_records crc d' = log_records crc d" "recoverable crc d' = recoverable crc d"
    "sid \<in> set (seg_ids d) \<Longrightarrow> seg_content d' sid = seg_content d sid"
    "seg_ids d = [] \<Longrightarrow> seg_content d' 1 = Some []"
proof -
  have "ids = seg_ids d' \<and> dir_ok d' \<and> seg_ids d' = (if seg_ids d = [] then [1] else seg_ids d)
    \<and> log_records crc d' = log_records crc d \<and> recoverable crc d' = recoverable crc d
    \<and> (sid \<in> set (seg_ids d) \<longrightarrow> seg_content d' sid = seg_content d sid)
    \<and> (seg_ids d = [] \<longrightarrow> seg_content d' 1 = Some [])"
  proof (cases "seg_ids d = []")
    case False
    then show ?thesis using e ok by (auto simp: ensure_segment_def)
  next
    case True
    then have c: "create_file d (segment_name 1) = Some d'" and i: "ids = [1]"
      using e by (auto simp: ensure_segment_def split: if_splits option.splits)
    have ids: "seg_ids d' = [1]" using seg_ids_create [OF ok c] True by simp
    have c1: "seg_content d' 1 = Some []" using seg_content_create [OF c, of 1] by simp
    then have s: "seg_frames crc d' 1 = []" "seg_tail crc d' 1 = []"
      using seg_splitI [of d' 1 crc "[]" "[]"] by simp_all
    have "log_records crc d' = log_records crc d" "recoverable crc d' = recoverable crc d"
      by (simp_all add: log_records_def ids True seg_records_def s [unfolded One_nat_def] recoverable_def)
    with create_file_ok [OF c ok] ids i True c1 show ?thesis by simp
  qed
  then show "ids = seg_ids d'" "dir_ok d'" "seg_ids d' = (if seg_ids d = [] then [1] else seg_ids d)"
    "log_records crc d' = log_records crc d" "recoverable crc d' = recoverable crc d"
    "sid \<in> set (seg_ids d) \<Longrightarrow> seg_content d' sid = seg_content d sid"
    "seg_ids d = [] \<Longrightarrow> seg_content d' 1 = Some []" by blast+
qed

lemma ensure_segment_ids:
  assumes io: "all_io env" and ok: "dir_ok d" and op: "openable d"
  obtains d' where "ensure_segment env d (seg_ids d) = (Inr (seg_ids d'), d')" "dir_ok d'"
    "seg_ids d' = (if seg_ids d = [] then [1] else seg_ids d)"
    "log_records crc d' = log_records crc d" "recoverable crc d' = recoverable crc d"
    "\<And>sid. sid \<in> set (seg_ids d) \<Longrightarrow> seg_content d' sid = seg_content d sid"
    "seg_ids d = [] \<Longrightarrow> seg_content d' 1 = Some []"
proof -
  obtain d1 where "create_file d (segment_name 1) = Some d1"
    using op by (auto simp: openable_def create_file_Some)
  then have "\<exists>ids d'. ensure_segment env d (seg_ids d) = (Inr ids, d')"
    using io by (simp add: ensure_segment_def)
  then obtain ids d' where e: "ensure_segment env d (seg_ids d) = (Inr ids, d')" by blast
  note E = ensure_segment_Inr [OF e ok]
  show ?thesis by (rule that [OF e [unfolded E(1)] E(2-7)])
qed

lemma rl_open_eq:
  assumes io: "all_io env" and ok: "dir_ok d" and op: "openable d"
    and lk: "fl_try_lock_exclusive fl k fd = Some k'"
  obtains d' where "dir_ok d'" "seg_ids d' = (if seg_ids d = [] then [1] else seg_ids d)"
    "log_records crc d' = log_records crc d" "recoverable crc d' = recoverable crc d"
    "\<And>sid. sid \<in> set (seg_ids d) \<Longrightarrow> seg_content d' sid = seg_content d sid"
    "seg_ids d = [] \<Longrightarrow> seg_content d' 1 = Some []"
    "recoverable crc d \<Longrightarrow>
       rl_open fl env crc pid fd k (Some d) = (Inr (opened_log crc fd d'), k', Some d')"
    "\<not> recoverable crc d \<Longrightarrow>
       \<exists>e. rl_open fl env crc pid fd k (Some d) = (Inl e, dir_lock_drop fl k' fd, Some d')"
proof -
  obtain d1 where a: "dir_lock_acquire fl env pid fd k d = (Inr fd, k', d1)" and op1: "openable d1"
    using acquire_ok [OF io op lk] .
  note ok1 = acquire_dir_ok [OF a ok]
  note S = same_segments [OF ok ok1 acquire_content [OF a]]
  obtain d2 where e: "ensure_segment env d1 (seg_ids d1) = (Inr (seg_ids d2), d2)" "dir_ok d2"
    "seg_ids d2 = (if seg_ids d1 = [] then [1] else seg_ids d1)"
    "log_records crc d2 = log_records crc d1" "recoverable crc d2 = recoverable crc d1"
    "\<And>sid. sid \<in> set (seg_ids d1) \<Longrightarrow> seg_content d2 sid = seg_content d1 sid"
    "seg_ids d1 = [] \<Longrightarrow> seg_content d2 1 = Some []"
    using ensure_segment_ids [OF io ok1 op1, where crc = crc] by metis
  have ne: "seg_ids d2 \<noteq> []" using e(3) by simp
  have l: "list_segment_ids env d1 = Inr (seg_ids d1)"
    using io by (simp add: list_segment_ids_Inr)
  have o: "rl_open fl env crc pid fd k (Some d) =
      (case open_scanned env crc fd d2 (seg_ids d2) of
         Inl e \<Rightarrow> (Inl e, dir_lock_drop fl k' fd, Some d2) | Inr log \<Rightarrow> (Inr log, k', Some d2))"
    using io by (simp add: rl_open_def a l e(1))
  note O = open_scanned_eq [OF io e(2) ne, of crc fd]
  show ?thesis
  proof (rule that [OF e(2)])
    show "seg_ids d2 = (if seg_ids d = [] then [1] else seg_ids d)" using e(3) S(1) by simp
    show "log_records crc d2 = log_records crc d" using e(4) S(2) by simp
    show r: "recoverable crc d2 = recoverable crc d" using e(5) S(4) by simp
    show "sid \<in> set (seg_ids d) \<Longrightarrow> seg_content d2 sid = seg_content d sid" for sid
      using e(6) S(1) acquire_content [OF a] by simp
    show "seg_ids d = [] \<Longrightarrow> seg_content d2 1 = Some []" using e(7) S(1) by simp
    show "recoverable crc d \<Longrightarrow>
       rl_open fl env crc pid fd k (Some d) = (Inr (opened_log crc fd d2), k', Some d2)"
      using O [of "opened_log crc fd d2"] r by (simp add: o)
    show "\<exists>e. rl_open fl env crc pid fd k (Some d) = (Inl e, dir_lock_drop fl k' fd, Some d2)"
      if "\<not> recoverable crc d"
      using O that r by (cases "open_scanned env crc fd d2 (seg_ids d2)") (auto simp: o)
  qed
qed

lemma opened_log_fields:
  assumes "seg_ids d \<noteq> []"
  shows "rl_active_id (opened_log crc lock d) = last (seg_ids d)" "rl_poisoned (opened_log crc lock d) = None"
    "rl_active_size (opened_log crc lock d) = length (stream crc (seg_frames crc d (last (seg_ids d))))"
    "rl_last_report (opened_log crc lock d) = Some
       \<lparr>rr_files_scanned = length (seg_ids d), rr_records_replayed = length (log_records crc d),
        rr_tail_truncated = (if seg_tail crc d (last (seg_ids d)) = [] then 0 else 1),
        rr_tail_bytes_discarded = length (seg_tail crc d (last (seg_ids d))),
        rr_mid_stream_errors = 0, rr_unsupported_versions = 0,
        rr_last_txid_seen = fold max (map rc_txid (log_records crc d)) 0\<rparr>"
  using assms
  by (simp_all add: opened_log_def Let_def scan_result_def into_public_def empty_scan_def log_records_def)

lemma opened_next_txid_eq:
  "seg_ids d \<noteq> [] \<Longrightarrow> rl_next_txid (opened_log crc lock d) =
     (case checked_succ (fold max (map rc_txid (log_records crc d)) 0) of Some t \<Rightarrow> t | None \<Rightarrow> 1)"
  by (simp add: opened_log_def Let_def scan_result_def empty_scan_def log_records_def)

lemma opened_next_txid:
  assumes "fold max (map rc_txid (log_records crc d)) 0 \<noteq> - 1" "r \<in> set (log_records crc d)"
  shows "rc_txid r < rl_next_txid (opened_log crc lock d)"
proof -
  let ?m = "fold max (map rc_txid (log_records crc d)) 0"
  have ne: "seg_ids d \<noteq> []" using assms(2) by (auto simp: log_records_def)
  obtain t where t: "checked_succ ?m = Some t" using assms(1) by (simp add: checked_succ_def)
  then have "rl_next_txid (opened_log crc lock d) = t"
    using ne by (simp add: opened_log_def Let_def scan_result_def empty_scan_def flip: log_records_def)
  moreover have "rc_txid r \<le> ?m" using assms(2) by (intro fold_max_ge) simp
  ultimately show ?thesis using checked_succ_less [OF t] by simp
qed

lemma opened_inv:
  assumes "dir_ok d" "seg_ids d \<noteq> []" "\<forall>sid\<in>set (seg_ids d). seg_tail crc d sid = []"
    "fold max (map rc_txid (log_records crc d)) 0 \<noteq> - 1"
  shows "rl_inv crc (opened_log crc lock d) d"
  using assms opened_next_txid [OF assms(4)] seg_split(1) [of d "last (seg_ids d)" crc]
  by (simp add: rl_inv_def opened_log_fields)

section \<open>Scanning and rotating\<close>

lemma rl_scan_ok:
  assumes "all_io env" "dir_ok d" "recoverable crc d"
  shows "rl_scan env crc log d = (Inr (log_records crc d),
    log\<lparr>rl_next_txid := (case checked_succ (fold max (map rc_txid (log_records crc d)) 0) of
          Some t \<Rightarrow> t | None \<Rightarrow> 1),
       rl_last_report := Some (into_public (scan_result crc d (seg_ids d) empty_scan))\<rparr>)"
proof -
  have "scan_all env crc d (seg_ids d) = Inr (scan_result crc d (seg_ids d) empty_scan)"
    using assms by (auto simp: scan_all_iff recoverable_def set_seg_ids)
  moreover have "si_records (scan_result crc d (seg_ids d) empty_scan) = log_records crc d"
    "si_last_txid_seen (scan_result crc d (seg_ids d) empty_scan) = fold max (map rc_txid (log_records crc d)) 0"
    by (simp_all add: scan_result_def empty_scan_def log_records_def Let_def)
  ultimately show ?thesis
    using assms(1) by (simp add: rl_scan_def list_segment_ids_def flip: seg_ids_def)
qed

lemma rl_scan_hard_error:
  assumes "all_io env" "dir_ok d" "\<not> recoverable crc d"
  shows "\<exists>e. rl_scan env crc log d = (Inl e, log)"
proof (cases "scan_all env crc d (seg_ids d)")
  case (Inl e)
  then show ?thesis
    using assms(1) by (simp add: rl_scan_def list_segment_ids_def flip: seg_ids_def)
next
  case (Inr si)
  with assms(3) show ?thesis by (simp add: scan_all_iff recoverable_def)
qed

lemma seg_ids_less: "sid \<in> set (seg_ids d) \<Longrightarrow> sid < 10 ^ 8"
  by (auto simp: seg_ids_def set_collect_ids)

lemma sorted_le_last: "sorted xs \<Longrightarrow> x \<in> set xs \<Longrightarrow> x \<le> last xs"
  by (induction xs) auto

text \<open>A new, empty segment adds its id and no record.\<close>

lemma create_next_segment:
  assumes ok: "dir_ok d" and ne: "seg_ids d \<noteq> []" and c: "create_file d (segment_name n) = Some d'"
    and n: "last (seg_ids d) < n" "n < 10 ^ 8"
  shows "dir_ok d'" "seg_ids d' = seg_ids d @ [n]" "log_records crc d' = log_records crc d"
    "seg_tail crc d' n = []" "seg_bytes d' n = []"
    "\<And>i. i \<noteq> n \<Longrightarrow> seg_tail crc d' i = seg_tail crc d i"
proof -
  show "dir_ok d'" by (rule create_file_ok [OF c ok])
  have lt: "\<forall>i\<in>set (seg_ids d). i < n"
    using n(1) sorted_le_last [OF seg_ids_sorted, of _ d] by fastforce
  show ids: "seg_ids d' = seg_ids d @ [n]" by (rule seg_ids_create [OF ok c n(2) lt])
  have o: "i \<noteq> n \<Longrightarrow> seg_content d' i = seg_content d i" for i
    by (simp add: seg_content_create [OF c])
  then show "i \<noteq> n \<Longrightarrow> seg_tail crc d' i = seg_tail crc d i" for i
    by (rule seg_tail_cong)
  have "seg_content d' n = Some []" by (simp add: seg_content_create [OF c])
  then have s: "seg_frames crc d' n = []" "seg_tail crc d' n = []" "seg_bytes d' n = []"
    using seg_splitI [of d' n crc "[]" "[]"] by (simp_all add: seg_bytes_def)
  then show "seg_tail crc d' n = []" "seg_bytes d' n = []" by simp_all
  have "ids_records crc d' (seg_ids d) = ids_records crc d (seg_ids d)"
    using lt by (intro ids_records_cong o) auto
  then show "log_records crc d' = log_records crc d"
    by (simp add: log_records_def ids seg_records_def s)
qed

lemma rl_rotate_ok:
  assumes inv: "rl_inv crc log d" and io: "all_io env"
    and n: "rl_active_id log + 1 < 10 ^ 8"
    and free: "map_of d (Utf8 (segment_name (rl_active_id log + 1))) \<noteq> Some OtherNode"
  defines "d' \<equiv> put_file d (segment_name (rl_active_id log + 1)) []"
  defines "log' \<equiv> log\<lparr>rl_active_id := rl_active_id log + 1, rl_active_size := 0\<rparr>"
  shows "rl_rotate env log d = (Inr (), log', d')" "rl_inv crc log' d'"
    "log_records crc d' = log_records crc d" "seg_ids d' = seg_ids d @ [rl_active_id log + 1]"
proof -
  note I = rl_invD [OF inv]
  have c: "create_file d (segment_name (rl_active_id log + 1)) = Some d'"
    using free by (simp add: create_file_Some d'_def)
  have lt: "last (seg_ids d) < rl_active_id log + 1" by (simp add: I(3))
  note C = create_next_segment [OF I(1,2) c lt n]
  show "rl_rotate env log d = (Inr (), log', d')"
    using io I(2,3,7) n c
    by (simp add: rl_rotate_def check_poisoned_def list_segment_ids_def next_segment_id_def
        checked_add_u32_def log'_def flip: seg_ids_def)
  show "log_records crc d' = log_records crc d" "seg_ids d' = seg_ids d @ [rl_active_id log + 1]"
    by (rule C)+
  have "seg_tail crc d' sid = []" if "sid \<in> set (seg_ids d')" for sid
    using that C I(4) by (cases "sid = rl_active_id log + 1") simp_all
  then show "rl_inv crc log' d'"
    using C I by (simp add: rl_inv_def log'_def)
qed

text \<open>
  Eight digits.  From segment 99999999 the next id has nine digits, which
  \<open>parse_segment_filename\<close> does not accept: the rotation succeeds, but the new
  segment is invisible to every later listing of the directory.
\<close>

lemma rl_rotate_past_width:
  assumes inv: "rl_inv crc log d" and io: "all_io env" and n: "rl_active_id log = 99999999"
    and free: "map_of d (Utf8 (segment_name 100000000)) \<noteq> Some OtherNode"
  defines "d' \<equiv> put_file d (segment_name 100000000) []"
  shows "rl_rotate env log d = (Inr (), log\<lparr>rl_active_id := 100000000, rl_active_size := 0\<rparr>, d')"
    "seg_ids (append_file d' (segment_name 100000000) bs) = seg_ids d"
    "log_records crc (append_file d' (segment_name 100000000) bs) = log_records crc d"
proof -
  note I = rl_invD [OF inv]
  have l: "last (seg_ids d) = 99999999" using I(3) n by simp
  have c: "create_file d (segment_name 100000000) = Some d'"
    using free by (simp add: create_file_Some d'_def)
  show "rl_rotate env log d = (Inr (), log\<lparr>rl_active_id := 100000000, rl_active_size := 0\<rparr>, d')"
    using io I(2,7) n c l
    by (simp add: rl_rotate_def check_poisoned_def list_segment_ids_def next_segment_id_def
        checked_add_u32_def flip: seg_ids_def)
  let ?d = "append_file d' (segment_name 100000000) bs"
  have ok': "dir_ok ?d" using I(1) by (simp add: d'_def)
  have s: "i < 10 ^ 8 \<Longrightarrow> seg_content ?d i = seg_content d i" for i
    by (simp add: seg_content_append seg_content_create [OF c])
  show ids: "seg_ids ?d = seg_ids d"
    using I(1) ok' s by (intro seg_ids_eqI) (auto simp: set_seg_ids)
  show "log_records crc ?d = log_records crc d"
    unfolding log_records_def ids by (rule ids_records_cong) (rule s, rule seg_ids_less)
qed

text \<open>\<open>open\<close> on a directory that is new or empty of segments.\<close>

lemma rl_open_missing: "works env CreateDirAll \<Longrightarrow> rl_open fl env crc pid fd k None = rl_open fl env crc pid fd k (Some [])"
  by (simp add: rl_open_def)

lemma rl_open_fresh:
  assumes io: "all_io env" and ok: "dir_ok d" and op: "openable d"
    and lk: "fl_try_lock_exclusive fl k fd = Some k'" and e: "seg_ids d = []"
  obtains log d' where "rl_open fl env crc pid fd k (Some d) = (Inr log, k', Some d')"
    "rl_inv crc log d'" "log_records crc d' = []" "rl_active_size log = 0" "rl_next_txid log = 1"
    "rl_lock log = fd" "seg_ids d' = [1]"
proof -
  obtain d' where D: "dir_ok d'" "seg_ids d' = [1]" "log_records crc d' = log_records crc d"
    "recoverable crc d' = recoverable crc d" "seg_content d' 1 = Some []"
    and O: "recoverable crc d \<Longrightarrow>
       rl_open fl env crc pid fd k (Some d) = (Inr (opened_log crc fd d'), k', Some d')"
    using rl_open_eq [OF io ok op lk, where crc = crc and pid = pid] e by metis
  have r: "recoverable crc d" using e by (simp add: recoverable_def)
  have s: "seg_frames crc d' 1 = []" "seg_tail crc d' 1 = []"
    using seg_splitI [of d' 1 crc "[]" "[]"] D(5) by simp_all
  have lr: "log_records crc d' = []" using D(3) e by (simp add: log_records_def)
  have inv: "rl_inv crc (opened_log crc fd d') d'"
    using D s lr by (intro opened_inv) simp_all
  have "rl_next_txid (opened_log crc fd d') = 1"
    using lr D(2)
    by (simp add: opened_log_def Let_def scan_result_def empty_scan_def checked_succ_def log_records_def)
  moreover have "rl_active_size (opened_log crc fd d') = 0"
    using s D(2) by (simp add: opened_log_def Let_def)
  ultimately show ?thesis
    using that [OF O [OF r] inv lr] D(2) by (simp add: opened_log_def Let_def)
qed

section \<open>Failures of open\<close>

text \<open>An \<open>open\<close> that fails, at whatever step, holds no lock afterwards.\<close>

lemma rl_open_Inl_lock:
  assumes "flock_laws fl holders" and "rl_open fl env crc pid fd k dopt = (Inl e, k', d')"
  shows "holders k' = holders k"
proof -
  have rel: "holders (dir_lock_drop fl k1 h) = holders k"
    if "dir_lock_acquire fl env pid fd k d0 = (Inr h, k1, d1)" for h k1 d0 d1
    using acquire_Inr [OF that] flock_try_Some [OF assms(1), of k fd k1] assms(1)
    by (auto simp: dir_lock_drop_def flock_laws_def)
  have kept: "holders k1 = holders k"
    if "dir_lock_acquire fl env pid fd k d0 = (Inl e, k1, d1)" for e k1 d0 d1
    using acquire_Inl [OF that] by simp
  show ?thesis
    using assms(2) by (auto simp: rl_open_def Let_def split: if_splits prod.splits sum.splits dest: rel kept)
qed

lemma rl_open_Inr_lock:
  assumes "rl_open fl env crc pid fd k dopt = (Inr log, k', d')"
  shows "rl_lock log = fd \<and> fl_try_lock_exclusive fl k fd = Some k'"
  using assms
  by (auto simp: rl_open_def open_scanned_def Let_def split: if_splits prod.splits sum.splits option.splits
      dest: acquire_Inr)

section \<open>Failures of fsync and rotate\<close>

lemma fsync_error_poisons: "rl_fsync env log = (Inl e, log') \<Longrightarrow> rl_poisoned log' \<noteq> None"
  by (auto simp: rl_fsync_def check_poisoned_def split: if_splits option.splits)

lemma rotate_error_poisons:
  "rl_rotate env log d = (Inl e, log', d') \<Longrightarrow> rl_poisoned log' \<noteq> None \<or> (log' = log \<and> d' = d)"
  by (auto simp: rl_rotate_def Let_def split: if_splits option.splits sum.splits)

lemma scan_keeps_poison: "rl_scan env crc log d = (r, log') \<Longrightarrow> rl_poisoned log' = rl_poisoned log"
  by (auto simp: rl_scan_def split: sum.splits)

section \<open>Every successful open\<close>

text \<open>Whatever the operating system does: if \<open>open\<close> returns \<open>Ok\<close>, this is the handle.\<close>

lemma open_scanned_Inr:
  assumes o: "open_scanned env crc lock d (seg_ids d) = Inr log" and ok: "dir_ok d" and ne: "seg_ids d \<noteq> []"
  shows "recoverable crc d \<and> log = opened_log crc lock d"
proof -
  obtain si where s: "scan_all env crc d (seg_ids d) = Inr si"
    using o by (auto simp: open_scanned_def split: sum.splits option.splits)
  then have "recoverable crc d" "si = scan_result crc d (seg_ids d) empty_scan"
    by (simp_all add: scan_all_iff recoverable_def)
  moreover have "last_segment_logical_size_for (scan_result crc d (seg_ids d) empty_scan) (last (seg_ids d))
      = Some (length (stream crc (seg_frames crc d (last (seg_ids d)))))"
    using ne by (simp add: scan_result_def last_segment_logical_size_for_def Let_def)
  ultimately show ?thesis
    using o s ne
    by (auto simp: open_scanned_def opened_log_def active_segment_id_def list_segment_ids_Inr Let_def
        split: sum.splits option.splits if_splits)
qed

lemma rl_open_Inr:
  assumes o: "rl_open fl env crc pid fd k (Some d) = (Inr log, k', dopt)" and ok: "dir_ok d"
  obtains d' where "dopt = Some d'" "log = opened_log crc fd d'" "dir_ok d'" "recoverable crc d"
    "seg_ids d' = (if seg_ids d = [] then [1] else seg_ids d)"
    "log_records crc d' = log_records crc d" "recoverable crc d' = recoverable crc d"
    "\<And>sid. sid \<in> set (seg_ids d) \<Longrightarrow> seg_content d' sid = seg_content d sid"
    "seg_ids d = [] \<Longrightarrow> seg_content d' 1 = Some []"
proof -
  from o obtain k1 d1 where a: "dir_lock_acquire fl env pid fd k d = (Inr fd, k1, d1)"
    by (auto simp: rl_open_def split: if_splits prod.splits sum.splits dest: acquire_Inr)
  note ok1 = acquire_dir_ok [OF a ok]
  note S = same_segments [OF ok ok1 acquire_content [OF a]]
  from o obtain ids where l: "list_segment_ids env d1 = Inr ids"
    by (auto simp: rl_open_def a split: if_splits sum.splits)
  then have ids: "ids = seg_ids d1" by (simp add: list_segment_ids_Inr)
  from o obtain ids2 d2 where e: "ensure_segment env d1 (seg_ids d1) = (Inr ids2, d2)"
    by (auto simp: rl_open_def a l ids split: if_splits sum.splits prod.splits)
  note E = ensure_segment_Inr [OF e ok1]
  from o have os: "open_scanned env crc fd d2 (seg_ids d2) = Inr log" and d: "dopt = Some d2"
    by (auto simp: rl_open_def a l ids e E(1) split: if_splits sum.splits)
  note R = open_scanned_Inr [OF os E(2)]
  show ?thesis
    by (rule that [of d2]) (use E S R d acquire_content [OF a] in \<open>auto split: if_splits\<close>)
qed

end
