(* ===== verification/Record_Iter.thy ===== *)
theory Record_Iter
  imports Log_Image
begin

text \<open>
  \<open>RecordIter\<close> of \<open>crates/datawal-core/src/record_log.rs\<close> and the lock-free
  \<open>RecordLogReader\<close> of \<open>record_log_reader.rs\<close>.  The iterator keeps one segment in
  memory and decodes a frame per call of \<open>next\<close>; \<open>drain_scan_all\<close> says that
  consuming it yields exactly what the eager \<open>scan_all\<close> returns: the same
  records, the same report and the same error, after the records before it.
\<close>

record record_iter =
  it_ids :: "nat list"
  it_idx :: nat
  it_buf :: bytes
  it_offset :: nat
  it_id :: nat
  it_loaded :: bool
  it_report :: scan_internal
  it_done :: bool

definition iter_new :: "nat list \<Rightarrow> record_iter" where
  "iter_new ids = \<lparr>it_ids = ids, it_idx = 0, it_buf = [], it_offset = 0, it_id = 0,
     it_loaded = False, it_report = empty_scan, it_done = False\<rparr>"

definition iter_recovery_report :: "record_iter \<Rightarrow> recovery_report" where
  "iter_recovery_report it = into_public (it_report it)"

text \<open>
  \<open>ensure_loaded\<close>.  A failing \<open>read_to_end\<close> leaves the bytes it did read in the
  cleared buffer (here the first \<open>written env\<close> ones); the caller ends the iteration.
\<close>

definition ensure_loaded :: "os_env \<Rightarrow> dir \<Rightarrow> record_iter \<Rightarrow> (error + unit) \<times> record_iter" where
  "ensure_loaded env d it =
     (if it_loaded it then (Inr (), it)
      else let sid = it_ids it ! it_idx it in
        case file_content d (segment_name sid) of
          None \<Rightarrow> (Inl (Io (OpenRead sid)), it)
        | Some bs \<Rightarrow>
            if \<not> works env (OpenRead sid) then (Inl (Io (OpenRead sid)), it)
            else if \<not> works env (ReadToEnd sid)
              then (Inl (Io (ReadToEnd sid)), it\<lparr>it_buf := take (written env) bs\<rparr>)
            else (Inr (), it\<lparr>it_buf := bs, it_id := sid, it_offset := 0, it_loaded := True,
                    it_report := (it_report it)\<lparr>si_files_scanned := si_files_scanned (it_report it) + 1\<rparr>\<rparr>))"

definition try_next_in_segment ::
  "(bytes \<Rightarrow> u32) \<Rightarrow> record_iter \<Rightarrow> (error + log_record option) \<times> record_iter" where
  "try_next_in_segment crc it =
     (let sid = it_id it;
          is_last = (it_idx it + 1 = length (it_ids it));
          file_len = length (it_buf it);
          off = it_offset it;
          rep = it_report it
      in if off = file_len then (Inr None, it\<lparr>it_report := rep\<lparr>si_logical_end := Some (sid, off)\<rparr>\<rparr>)
      else case decode_next crc (it_buf it) off of
        Inr (DOk rt txid key payload n) \<Rightarrow>
          (Inr (Some \<lparr>rc_type = rt, rc_txid = txid, rc_key = key, rc_payload = payload,
                  rc_segment = sid, rc_offset = off, rc_len = n\<rparr>),
           it\<lparr>it_offset := off + n,
              it_report := rep\<lparr>si_last_txid_seen :=
                (if si_last_txid_seen rep < txid then txid else si_last_txid_seen rep)\<rparr>\<rparr>)
      | Inr (Truncated _ _) \<Rightarrow>
          if is_last then (Inr None, it\<lparr>it_report := stop_at_tail sid file_len off rep\<rparr>)
          else (Inl (TruncatedNonTail off sid), it)
      | Inr (CrcMismatch _) \<Rightarrow>
          if is_last then (Inr None, it\<lparr>it_report := stop_at_tail sid file_len off rep\<rparr>)
          else (Inl (CrcNonTail off sid), it)
      | Inl err \<Rightarrow> (Inl (StructuralDecode off sid err), it))"

text \<open>The segment is exhausted: on to the next one.\<close>

definition advance :: "record_iter \<Rightarrow> record_iter" where
  "advance it = it\<lparr>it_idx := it_idx it + 1, it_loaded := False, it_buf := []\<rparr>"

lemma ensure_loaded_ids:
  "ensure_loaded env d it = (r, it') \<Longrightarrow> it_ids it' = it_ids it"
  "ensure_loaded env d it = (r, it') \<Longrightarrow> it_idx it' = it_idx it"
  by (auto simp: ensure_loaded_def Let_def split: if_splits option.splits)

lemma try_next_ids:
  "try_next_in_segment crc it = (r, it') \<Longrightarrow> it_ids it' = it_ids it"
  "try_next_in_segment crc it = (r, it') \<Longrightarrow> it_idx it' = it_idx it"
  by (auto simp: try_next_in_segment_def Let_def split: if_splits sum.splits decode_outcome.splits)

lemma next_round_ids:
  assumes "(b, it1) = ensure_loaded env d it" "(z, it2) = try_next_in_segment crc it1"
  shows "it_ids it2 = it_ids it" "it_idx it2 = it_idx it"
  using assms ensure_loaded_ids [of env d it b it1] try_next_ids [of crc it1 z it2] by simp_all

lemma next_round_less:
  assumes "(b, it1) = ensure_loaded env d it" "(z, it2) = try_next_in_segment crc it1"
    "\<not> length (it_ids it) \<le> it_idx it"
  shows "length (it_ids (advance it2)) - it_idx (advance it2) < length (it_ids it) - it_idx it"
  using assms(3) next_round_ids [OF assms(1,2)] by (simp add: advance_def)

text \<open>\<open>Iterator::next\<close>: the loop moves on over exhausted segments.\<close>

function iter_next ::
  "os_env \<Rightarrow> (bytes \<Rightarrow> u32) \<Rightarrow> dir \<Rightarrow> record_iter \<Rightarrow> (error + log_record) option \<times> record_iter" where
  "iter_next env crc d it =
     (if it_done it then (None, it)
      else if length (it_ids it) \<le> it_idx it then (None, it\<lparr>it_done := True\<rparr>)
      else case ensure_loaded env d it of
        (Inl e, it1) \<Rightarrow> (Some (Inl e), it1\<lparr>it_done := True\<rparr>)
      | (Inr _, it1) \<Rightarrow>
          (case try_next_in_segment crc it1 of
             (Inr (Some r), it2) \<Rightarrow>
               (Some (Inr r), it2\<lparr>it_report := (it_report it2)
                  \<lparr>si_records_replayed := si_records_replayed (it_report it2) + 1\<rparr>\<rparr>)
           | (Inr None, it2) \<Rightarrow> iter_next env crc d (advance it2)
           | (Inl e, it2) \<Rightarrow> (Some (Inl e), it2\<lparr>it_done := True\<rparr>)))"
  by pat_completeness auto
termination
  by (relation "measure (\<lambda>(env, crc, d, it). length (it_ids it) - it_idx it)")
    (auto intro: next_round_less)

declare iter_next.simps [simp del]

text \<open>Progress: an item comes with a smaller iterator state.\<close>

definition iter_less :: "(record_iter \<times> record_iter) set" where
  "iter_less = measures [\<lambda>it. if it_done it then 0 else 1, \<lambda>it. length (it_ids it) - it_idx it,
     \<lambda>it. if it_loaded it then 0 else 1, \<lambda>it. length (it_buf it) - it_offset it]"

lemma iter_less_trans: "(a, b) \<in> iter_less \<Longrightarrow> (b, c) \<in> iter_less \<Longrightarrow> (a, c) \<in> iter_less"
  by (auto simp: iter_less_def)

lemma done_less: "\<not> it_done it \<Longrightarrow> (it'\<lparr>it_done := True\<rparr>, it) \<in> iter_less"
  by (simp add: iter_less_def)

lemma ensure_loaded_done: "ensure_loaded env d it = (r, it1) \<Longrightarrow> it_done it1 = it_done it"
  by (auto simp: ensure_loaded_def Let_def split: if_splits option.splits)

lemma try_next_done: "try_next_in_segment crc it = (r, it1) \<Longrightarrow> it_done it1 = it_done it"
  by (auto simp: try_next_in_segment_def Let_def split: if_splits sum.splits decode_outcome.splits)

lemma ensure_loaded_less:
  "ensure_loaded env d it = (Inr u, it1) \<Longrightarrow> it1 = it \<or> (it1, it) \<in> iter_less"
  by (auto simp: ensure_loaded_def iter_less_def Let_def split: if_splits option.splits)

lemma try_next_record_less:
  assumes "try_next_in_segment crc it = (Inr (Some r), it1)"
  shows "(it1\<lparr>it_report := rep\<rparr>, it) \<in> iter_less"
proof -
  from assms obtain rt tx k p n where
    dec: "decode_next crc (it_buf it) (it_offset it) = Inr (DOk rt tx k p n)"
    and it1: "it1\<lparr>it_report := rep\<rparr> = it\<lparr>it_offset := it_offset it + n, it_report := rep\<rparr>"
    by (auto simp: try_next_in_segment_def Let_def split: if_splits sum.splits decode_outcome.splits)
  from decode_next_progress [OF dec] show ?thesis
    unfolding it1 by (auto simp: iter_less_def)
qed

lemma advance_less:
  assumes "ensure_loaded env d it = (Inr u, it1)" "try_next_in_segment crc it1 = (Inr None, it2)"
    "\<not> length (it_ids it) \<le> it_idx it"
  shows "(advance it2, it) \<in> iter_less"
  using next_round_less [OF assms(1,2) [symmetric] assms(3)]
    ensure_loaded_done [OF assms(1)] try_next_done [OF assms(2)]
  by (simp add: iter_less_def advance_def)

lemma iter_next_less: "iter_next env crc d it = (Some x, it') \<Longrightarrow> (it', it) \<in> iter_less"
proof (induction env crc d it rule: iter_next.induct)
  case (1 env crc d it)
  from "1.prems" have nd: "\<not> it_done it" and lt: "\<not> length (it_ids it) \<le> it_idx it"
    by (auto simp: iter_next.simps [of env crc d it] split: if_splits)
  obtain r it1 where e: "ensure_loaded env d it = (r, it1)" by force
  show ?case
  proof (cases r)
    case (Inl err)
    with "1.prems" nd lt e show ?thesis
      by (auto simp: iter_next.simps [of env crc d it] intro: done_less)
  next
    case (Inr u)
    obtain q it2 where t: "try_next_in_segment crc it1 = (q, it2)" by force
    note e' = e [unfolded Inr]
    show ?thesis
    proof (cases q)
      case (Inl err)
      with "1.prems" nd lt e' t show ?thesis
        by (auto simp: iter_next.simps [of env crc d it] intro: done_less)
    next
      case (Inr o2)
      show ?thesis
      proof (cases o2)
        case None
        note t' = t [unfolded Inr None]
        have "iter_next env crc d (advance it2) = (Some x, it')"
          using "1.prems" nd lt e' t' by (simp add: iter_next.simps [of env crc d it])
        then have "(it', advance it2) \<in> iter_less"
          using "1.IH" [OF nd lt e' [symmetric] refl t' [symmetric] refl refl] by simp
        then show ?thesis using advance_less [OF e' t' lt] by (rule iter_less_trans)
      next
        case (Some rec)
        with Inr t have t': "try_next_in_segment crc it1 = (Inr (Some rec), it2)" by simp
        have "(it', it1) \<in> iter_less"
          using "1.prems" nd lt e' t' try_next_record_less [OF t']
          by (auto simp: iter_next.simps [of env crc d it])
        with ensure_loaded_less [OF e'] show ?thesis by (auto intro: iter_less_trans)
      qed
    qed
  qed
qed

text \<open>All items up to the first \<open>None\<close>, and the iterator then.\<close>

function drain ::
  "os_env \<Rightarrow> (bytes \<Rightarrow> u32) \<Rightarrow> dir \<Rightarrow> record_iter \<Rightarrow> (error + log_record) list \<times> record_iter" where
  "drain env crc d it =
     (case iter_next env crc d it of
        (None, it') \<Rightarrow> ([], it')
      | (Some x, it') \<Rightarrow> (let (xs, it'') = drain env crc d it' in (x # xs, it'')))"
  by pat_completeness auto
termination
  by (relation "inv_image iter_less (\<lambda>(env, crc, d, it). it)")
    (auto simp: iter_less_def [THEN arg_cong [where f = wf]] intro: iter_next_less [OF sym])

declare drain.simps [simp del]

section \<open>The iterator computes \<open>scan_all\<close>\<close>

text \<open>
  The iterator in the middle of segment \<open>sid\<close>, position \<open>i\<close> of \<open>ids\<close>.  Its report is
  that of the eager scan without the records, which the iterator hands out.
\<close>

definition strip :: "scan_internal \<Rightarrow> scan_internal" where
  "strip out = out\<lparr>si_records := []\<rparr>"

definition inside :: "nat list \<Rightarrow> nat \<Rightarrow> bytes \<Rightarrow> nat \<Rightarrow> nat \<Rightarrow> scan_internal \<Rightarrow> record_iter" where
  "inside ids i buf sid off out = \<lparr>it_ids = ids, it_idx = i, it_buf = buf, it_offset = off,
     it_id = sid, it_loaded = True, it_report = strip out, it_done = False\<rparr>"

definition between :: "nat list \<Rightarrow> nat \<Rightarrow> nat \<Rightarrow> nat \<Rightarrow> scan_internal \<Rightarrow> record_iter" where
  "between ids i sid off out = \<lparr>it_ids = ids, it_idx = i, it_buf = [], it_offset = off,
     it_id = sid, it_loaded = False, it_report = strip out, it_done = False\<rparr>"

lemma into_public_strip [simp]: "into_public (strip out) = into_public out"
  by (simp add: into_public_def strip_def)

lemma strip_fields:
  "(strip out)\<lparr>si_logical_end := e\<rparr> = strip (out\<lparr>si_logical_end := e\<rparr>)"
  "stop_at_tail sid n off (strip out) = strip (stop_at_tail sid n off out)"
  "(strip out)\<lparr>si_files_scanned := n\<rparr> = strip (out\<lparr>si_files_scanned := n\<rparr>)"
  "si_last_txid_seen (strip out) = si_last_txid_seen out"
  "si_records_replayed (strip out) = si_records_replayed out"
  "si_files_scanned (strip out) = si_files_scanned out"
  by (simp_all add: strip_def stop_at_tail_def)

lemma strip_push:
  "(strip out)\<lparr>si_last_txid_seen := (if si_last_txid_seen out < rc_txid r then rc_txid r
       else si_last_txid_seen out), si_records_replayed := Suc (si_records_replayed out)\<rparr>
   = strip (push_record r out)"
  by (simp add: strip_def push_record_def)

lemma iter_new_between: "iter_new ids = between ids 0 0 0 empty_scan"
  by (simp add: iter_new_def between_def strip_def empty_scan_def)

lemma drain_done: "it_done it \<Longrightarrow> drain env crc d it = ([], it)"
  by (simp add: drain.simps [of env crc d it] iter_next.simps [of env crc d it])

lemma drain_end:
  "\<not> it_done it \<Longrightarrow> length (it_ids it) \<le> it_idx it \<Longrightarrow> drain env crc d it = ([], it\<lparr>it_done := True\<rparr>)"
  by (simp add: drain.simps [of env crc d it] iter_next.simps [of env crc d it])

lemma inside_step:
  assumes "i < length ids"
  shows "iter_next env crc d (inside ids i buf sid off out) =
    (if off = length buf then
       iter_next env crc d (between ids (i + 1) sid off (out\<lparr>si_logical_end := Some (sid, off)\<rparr>))
     else case decode_next crc buf off of
       Inr (DOk rt txid key payload n) \<Rightarrow>
         (let r = \<lparr>rc_type = rt, rc_txid = txid, rc_key = key, rc_payload = payload,
                rc_segment = sid, rc_offset = off, rc_len = n\<rparr>
          in (Some (Inr r), inside ids i buf sid (off + n) (push_record r out)))
     | Inr (Truncated _ _) \<Rightarrow>
         if i + 1 = length ids then
           iter_next env crc d (between ids (i + 1) sid off (stop_at_tail sid (length buf) off out))
         else (Some (Inl (TruncatedNonTail off sid)), (inside ids i buf sid off out)\<lparr>it_done := True\<rparr>)
     | Inr (CrcMismatch _) \<Rightarrow>
         if i + 1 = length ids then
           iter_next env crc d (between ids (i + 1) sid off (stop_at_tail sid (length buf) off out))
         else (Some (Inl (CrcNonTail off sid)), (inside ids i buf sid off out)\<lparr>it_done := True\<rparr>)
     | Inl err \<Rightarrow> (Some (Inl (StructuralDecode off sid err)), (inside ids i buf sid off out)\<lparr>it_done := True\<rparr>))"
  using assms
  by (subst iter_next.simps)
    (simp add: inside_def between_def ensure_loaded_def try_next_in_segment_def advance_def
      strip_fields strip_push [symmetric] Let_def split: sum.split decode_outcome.split)

lemma drain_next_eq: "iter_next env crc d it = iter_next env crc d it' \<Longrightarrow> drain env crc d it = drain env crc d it'"
  by (simp add: drain.simps [of env crc d it] drain.simps [of env crc d it'])

lemma drain_error:
  "iter_next env crc d it = (Some (Inl e), it'\<lparr>it_done := True\<rparr>) \<Longrightarrow>
   drain env crc d it = ([Inl e], it'\<lparr>it_done := True\<rparr>)"
  by (simp add: drain.simps [of env crc d it] drain_done)

lemma drain_record:
  "iter_next env crc d it = (Some x, it') \<Longrightarrow>
   drain env crc d it = (x # fst (drain env crc d it'), snd (drain env crc d it'))"
  by (simp add: drain.simps [of env crc d it] split_beta)

text \<open>
  Draining the iterator agrees with a scan: it yields the records that the scan adds to
  \<open>recs\<close>, then what \<open>Q\<close> says of the items and the iterator that are left, or the error.
\<close>

definition agrees ::
  "os_env \<Rightarrow> (bytes \<Rightarrow> u32) \<Rightarrow> dir \<Rightarrow> (scan_internal \<Rightarrow> (error + log_record) list \<Rightarrow> record_iter \<Rightarrow> bool)
   \<Rightarrow> record_iter \<Rightarrow> log_record list \<Rightarrow> error + scan_internal \<Rightarrow> bool" where
  "agrees env crc d Q it recs scan \<longleftrightarrow> (case scan of
     Inr out \<Rightarrow> \<exists>rs xs it'. si_records out = recs @ rs \<and> drain env crc d it = (map Inr rs @ xs, it') \<and> Q out xs it'
   | Inl e \<Rightarrow> \<exists>rs. fst (drain env crc d it) = map Inr rs @ [Inl e])"

lemma agrees_drain:
  "drain env crc d it = drain env crc d it' \<Longrightarrow> agrees env crc d Q it recs scan = agrees env crc d Q it' recs scan"
  by (cases scan) (simp_all add: agrees_def)

lemma agrees_error: "drain env crc d it = ([Inl e], it') \<Longrightarrow> agrees env crc d Q it recs (Inl e)"
  by (auto simp: agrees_def intro!: exI [of _ "[]"])

lemma agrees_stop:
  "Q out (fst (drain env crc d it)) (snd (drain env crc d it)) \<Longrightarrow> agrees env crc d Q it (si_records out) (Inr out)"
  by (cases "drain env crc d it") (auto simp: agrees_def intro!: exI [of _ "[]"])

lemma agrees_record:
  assumes "iter_next env crc d it = (Some (Inr r), it')" "agrees env crc d Q it' (recs @ [r]) scan"
  shows "agrees env crc d Q it recs scan"
proof (cases scan)
  case (Inl e)
  with assms(2) obtain rs where "fst (drain env crc d it') = map Inr rs @ [Inl e]" by (auto simp: agrees_def)
  with drain_record [OF assms(1)] Inl show ?thesis by (auto simp: agrees_def intro!: exI [of _ "r # rs"])
next
  case (Inr out)
  with assms(2) obtain rs xs it2 where
    "si_records out = recs @ r # rs" "drain env crc d it' = (map Inr rs @ xs, it2)" "Q out xs it2"
    by (auto simp: agrees_def)
  with drain_record [OF assms(1)] Inr show ?thesis by (auto simp: agrees_def intro!: exI [of _ "r # rs"])
qed

lemma agrees_bind:
  assumes a: "agrees env crc d Q it recs scan"
    and f: "\<And>out xs it'. Q out xs it' \<Longrightarrow>
      \<exists>it2. drain env crc d it2 = (xs, it') \<and> agrees env crc d Q' it2 (si_records out) (f out)"
  shows "agrees env crc d Q' it recs (case scan of Inl e \<Rightarrow> Inl e | Inr out \<Rightarrow> f out)"
proof (cases scan)
  case (Inl e)
  with a show ?thesis by (simp add: agrees_def)
next
  case (Inr out)
  with a obtain rs xs it' where A: "si_records out = recs @ rs" "drain env crc d it = (map Inr rs @ xs, it')" "Q out xs it'"
    by (auto simp: agrees_def)
  with f obtain it2 where B: "drain env crc d it2 = (xs, it')" "agrees env crc d Q' it2 (si_records out) (f out)" by blast
  show ?thesis
  proof (cases "f out")
    case (Inl e)
    with B obtain rs' where "xs = map Inr rs' @ [Inl e]" by (auto simp: agrees_def)
    with A Inr Inl show ?thesis by (auto simp: agrees_def intro!: exI [of _ "rs @ rs'"])
  next
    case inr: (Inr out')
    with B obtain rs' ys where "si_records out' = si_records out @ rs'" "xs = map Inr rs' @ ys" "Q' out' ys it'"
      by (auto simp: agrees_def)
    with A Inr inr show ?thesis by (auto simp: agrees_def intro!: exI [of _ "rs @ rs'"])
  qed
qed

text \<open>Inside a segment: the rest of its bytes, then the segments behind it.\<close>

definition then_segments ::
  "os_env \<Rightarrow> (bytes \<Rightarrow> u32) \<Rightarrow> dir \<Rightarrow> nat list \<Rightarrow> nat \<Rightarrow> nat \<Rightarrow> scan_internal \<Rightarrow> (error + log_record) list \<Rightarrow> record_iter \<Rightarrow> bool" where
  "then_segments env crc d ids i sid out xs it \<longleftrightarrow> (\<exists>off. drain env crc d (between ids i sid off out) = (xs, it))"

lemma agrees_segments:
  assumes "iter_next env crc d it = iter_next env crc d (between ids i sid off out)" "si_records out = recs"
  shows "agrees env crc d (then_segments env crc d ids i sid) it recs (Inr out)"
  unfolding assms(2) [symmetric]
  by (rule agrees_stop) (auto simp: then_segments_def drain_next_eq [OF assms(1)] intro: exI [of _ off])

lemma drain_inside:
  assumes "i < length ids"
  shows "agrees env crc d (then_segments env crc d ids (i + 1) sid) (inside ids i buf sid off out)
    (si_records out) (scan_loop crc sid (i + 1 = length ids) buf off out)"
proof (induction crc sid "i + 1 = length ids" buf off out rule: scan_loop.induct)
  case (1 crc sid buf off out)
  note S = inside_step [OF assms, of env crc d buf sid off out]
  note L = scan_loop.simps [of crc sid "i + 1 = length ids" buf off out]
  show ?case
  proof (cases "off = length buf")
    case True
    with S show ?thesis unfolding L by (auto intro: agrees_segments)
  next
    case False
    note S = S [unfolded if_not_P [OF False]] and L = L [unfolded if_not_P [OF False]]
    show ?thesis
    proof (cases "decode_next crc buf off")
      case (Inl e)
      with S show ?thesis unfolding L by (auto intro: agrees_error dest: drain_error)
    next
      case (Inr o2)
      show ?thesis
      proof (cases o2)
        case (DOk rt tx k p n)
        with S L Inr "1.hyps" [OF False Inr DOk] show ?thesis
          by (auto simp: Let_def push_record_def intro: agrees_record)
      next
        case (Truncated a b)
        with S Inr show ?thesis unfolding L
          by (cases "i + 1 = length ids")
            (auto simp: stop_at_tail_def intro: agrees_error agrees_segments dest: drain_error)
      next
        case (CrcMismatch a)
        with S Inr show ?thesis unfolding L
          by (cases "i + 1 = length ids")
            (auto simp: stop_at_tail_def intro: agrees_error agrees_segments dest: drain_error)
      qed
    qed
  qed
qed

text \<open>Between two segments: the next one is loaded, or the iteration ends.\<close>

lemma drain_load_error:
  "\<not> it_done it \<Longrightarrow> it_idx it < length (it_ids it) \<Longrightarrow> ensure_loaded env d it = (Inl e, it1) \<Longrightarrow>
   drain env crc d it = ([Inl e], it1\<lparr>it_done := True\<rparr>)"
  by (rule drain_error) (simp add: iter_next.simps [of env crc d it])

lemma iter_load_ok:
  assumes nd: "\<not> it_done it" and lt: "it_idx it < length (it_ids it)"
    and e: "ensure_loaded env d it = (Inr u, it1)"
  shows "iter_next env crc d it = iter_next env crc d it1"
proof -
  have l: "ensure_loaded env d it1 = (Inr u, it1)"
    using e by (auto simp: ensure_loaded_def Let_def split: if_splits option.splits)
  show ?thesis
    using nd lt e l ensure_loaded_ids [OF e] ensure_loaded_done [OF e]
    by (simp add: iter_next.simps [of env crc d it] iter_next.simps [of env crc d it1])
qed

lemmas drain_load_ok = drain_next_eq [OF iter_load_ok]

lemma between_load:
  "ensure_loaded env d (between ids i sid off out) =
    (case file_content d (segment_name (ids ! i)) of
       None \<Rightarrow> (Inl (Io (OpenRead (ids ! i))), between ids i sid off out)
     | Some bs \<Rightarrow>
         if \<not> works env (OpenRead (ids ! i)) then (Inl (Io (OpenRead (ids ! i))), between ids i sid off out)
         else if \<not> works env (ReadToEnd (ids ! i)) then
           (Inl (Io (ReadToEnd (ids ! i))), (between ids i sid off out)\<lparr>it_buf := take (written env) bs\<rparr>)
         else (Inr (), inside ids i bs (ids ! i) 0 (out\<lparr>si_files_scanned := si_files_scanned out + 1\<rparr>)))"
  by (simp add: ensure_loaded_def between_def inside_def strip_fields Let_def split: option.split)

lemma between_fields [simp]:
  "\<not> it_done (between ids i sid off out)" "it_ids (between ids i sid off out) = ids"
  "it_idx (between ids i sid off out) = i" "it_report (between ids i sid off out) = strip out"
  by (simp_all add: between_def)

lemma drain_between:
  fixes out :: scan_internal
  assumes "i < length ids"
  defines "out1 \<equiv> out\<lparr>si_files_scanned := si_files_scanned out + 1\<rparr>"
  shows "agrees env crc d (then_segments env crc d ids (i + 1) (ids ! i)) (between ids i sid off out)
    (si_records out) (scan_segment env crc d (ids ! i) (i + 1 = length ids) out1)"
proof (cases "fst (ensure_loaded env d (between ids i sid off out))")
  case (Inl e)
  then obtain it1 where l: "ensure_loaded env d (between ids i sid off out) = (Inl e, it1)"
    by (metis prod.collapse)
  then have "scan_segment env crc d (ids ! i) (i + 1 = length ids) out1 = Inl e"
    by (auto simp: between_load scan_segment_def split: if_splits option.splits)
  with drain_load_error [OF _ _ l, of crc] assms show ?thesis by (auto intro: agrees_error)
next
  case (Inr u)
  then obtain bs where bs: "file_content d (segment_name (ids ! i)) = Some bs"
    "works env (OpenRead (ids ! i))" "works env (ReadToEnd (ids ! i))"
    by (auto simp: between_load split: if_splits option.splits)
  then have l: "ensure_loaded env d (between ids i sid off out) = (Inr (), inside ids i bs (ids ! i) 0 out1)"
    by (simp add: between_load out1_def)
  have s: "scan_segment env crc d (ids ! i) (i + 1 = length ids) out1 =
      scan_loop crc (ids ! i) (i + 1 = length ids) bs 0 out1"
    using bs by (simp add: scan_segment_def)
  have r: "si_records out1 = si_records out" by (simp add: out1_def)
  have dr: "drain env crc d (between ids i sid off out) = drain env crc d (inside ids i bs (ids ! i) 0 out1)"
    using drain_load_ok [OF _ _ l, of crc] assms(1) by simp
  show ?thesis
    unfolding s agrees_drain [OF dr] r [symmetric] by (rule drain_inside [OF assms(1)])
qed

text \<open>
  Draining the iterator over the ids from position \<open>i\<close> on is \<open>scan_ids\<close> over them.
\<close>

lemma drain_scan_ids:
  "i \<le> length ids \<Longrightarrow>
   agrees env crc d (\<lambda>out xs it. xs = [] \<and> it_report it = strip out \<and> it_done it) (between ids i sid off out)
     (si_records out) (scan_ids env crc d (drop i ids) out)"
proof (induction "length ids - i" arbitrary: i sid off out)
  case 0
  then have "i = length ids" by simp
  then show ?case
    using drain_end [of "between ids i sid off out" env crc d] by (auto intro: agrees_stop)
next
  case (Suc n)
  then have i: "i < length ids" by simp
  then have dr: "drop i ids = ids ! i # drop (i + 1) ids" by (simp add: Cons_nth_drop_Suc)
  have l: "(drop (i + 1) ids = []) = (i + 1 = length ids)" using i by auto
  show ?case
    unfolding dr scan_ids.simps l
  proof (rule agrees_bind [OF drain_between [OF i]])
    fix out' xs it' assume "then_segments env crc d ids (i + 1) (ids ! i) out' xs it'"
    then obtain off' where "drain env crc d (between ids (i + 1) (ids ! i) off' out') = (xs, it')"
      by (auto simp: then_segments_def)
    with Suc.hyps(1) [of "i + 1"] Suc.hyps(2) i show "\<exists>it2. drain env crc d it2 = (xs, it')
      \<and> agrees env crc d (\<lambda>out xs it. xs = [] \<and> it_report it = strip out \<and> it_done it) it2
          (si_records out') (scan_ids env crc d (drop (i + 1) ids) out')"
      by (intro exI [of _ "between ids (i + 1) (ids ! i) off' out'"]) simp
  qed
qed

text \<open>The two scanning paths of the crate agree, errors included.\<close>

lemma drain_scan_all:
  "case scan_all env crc d ids of
     Inr si \<Rightarrow> \<exists>it. drain env crc d (iter_new ids) = (map Inr (si_records si), it)
       \<and> iter_recovery_report it = into_public si \<and> it_done it
   | Inl e \<Rightarrow> \<exists>rs. fst (drain env crc d (iter_new ids)) = map Inr rs @ [Inl e]"
  using drain_scan_ids [where i = 0 and ids = ids and env = env and crc = crc and d = d and out = empty_scan and sid = 0 and off = 0]
  by (auto simp: agrees_def scan_all_def iter_new_between iter_recovery_report_def empty_scan_def split: sum.splits)

section \<open>Loops over the iterator, and its two sources\<close>

text \<open>\<open>for rec in iter { let rec = rec?; acc = f(acc, rec); }\<close>\<close>

fun for_items :: "('a \<Rightarrow> log_record \<Rightarrow> 'a) \<Rightarrow> 'a \<Rightarrow> (error + log_record) list \<Rightarrow> error + 'a" where
  "for_items f acc [] = Inr acc"
| "for_items f acc (Inl e # xs) = Inl e"
| "for_items f acc (Inr r # xs) = for_items f (f acc r) xs"

lemma for_items_records [simp]:
  "for_items f acc (map Inr rs) = Inr (foldl f acc rs)"
  "for_items f acc (map Inr rs @ Inl e # xs) = Inl e"
  by (induction rs arbitrary: acc) simp_all

lemma for_items_scan:
  "for_items f acc (fst (drain env crc d (iter_new ids))) =
     (case scan_all env crc d ids of Inl e \<Rightarrow> Inl e | Inr si \<Rightarrow> Inr (foldl f acc (si_records si)))"
  using drain_scan_all [of env crc d ids] by (auto split: sum.splits)

text \<open>\<open>RecordLog::scan_iter\<close>: the ids are listed when the iterator is made.\<close>

definition rl_scan_iter :: "os_env \<Rightarrow> dir \<Rightarrow> error + record_iter" where
  "rl_scan_iter env d = (case list_segment_ids env d of Inl e \<Rightarrow> Inl e | Inr ids \<Rightarrow> Inr (iter_new ids))"

text \<open>
  \<open>RecordLogReader\<close>: a snapshot of the segment ids, no lock.  The path may name
  nothing, a directory, or something else.
\<close>

datatype path_state = Missing | NotDir | IsDir dir

definition reader_open :: "os_env \<Rightarrow> path_state \<Rightarrow> error + nat list" where
  "reader_open env p =
     (if \<not> works env StatDir then Inl (Io StatDir)
      else case p of
        Missing \<Rightarrow> Inl (Io StatDir)
      | NotDir \<Rightarrow> Inl NotADirectory
      | IsDir d \<Rightarrow> list_segment_ids env d)"

definition reader_segments :: "nat list \<Rightarrow> nat list" where
  "reader_segments snapshot = snapshot"

definition reader_scan_iter :: "nat list \<Rightarrow> error + record_iter" where
  "reader_scan_iter snapshot = Inr (iter_new snapshot)"

section \<open>The iterator is fused\<close>

lemma iter_next_fused:
  "iter_next env crc d it = (x, it') \<Longrightarrow> (x = None \<or> (\<exists>e. x = Some (Inl e))) \<Longrightarrow> it_done it'"
proof (induction env crc d it rule: iter_next.induct)
  case (1 env crc d it)
  show ?case
  proof (cases "it_done it \<or> length (it_ids it) \<le> it_idx it")
    case True
    then show ?thesis using "1.prems" by (auto simp: iter_next.simps [of env crc d it] split: if_splits)
  next
    case False
    obtain r it1 where e: "ensure_loaded env d it = (r, it1)" by force
    obtain q it2 where t: "try_next_in_segment crc it1 = (q, it2)" by force
    have "iter_next env crc d (advance it2) = (x, it') \<Longrightarrow> it_done it'" if "r = Inr u" "q = Inr None" for u
      using "1.IH" [OF _ _ e [unfolded that(1), symmetric] refl t [unfolded that(2), symmetric] refl refl]
        False "1.prems"(2) by simp
    then show ?thesis
      using "1.prems" False e t
      by (auto simp: iter_next.simps [of env crc d it] split: sum.splits option.splits)
  qed
qed

lemma iter_next_done: "it_done it \<Longrightarrow> iter_next env crc d it = (None, it)"
  by (simp add: iter_next.simps)

lemma iter_less_wf: "wf iter_less"
  by (simp add: iter_less_def)

end
