(* ===== verification/Keydir.thy ===== *)
theory Keydir
  imports Record_Log_Correct Record_Iter "HOL-Library.AList"
begin

text \<open>
  The key/value reading of a log: \<open>live\<close> maps a key to its last \<open>Put\<close> record,
  unless a \<open>Delete\<close> follows it, and \<open>view\<close> to the value.  The in-memory keydir of
  \<open>crates/datawal-core/src/datawal.rs\<close> (a \<open>HashMap\<close>, here an association list with
  distinct keys) holds the references of the live records.  The locale \<open>append_log\<close>
  is what the key/value layer relies on in the record log.
\<close>

type_synonym keydir = "(bytes \<times> record_ref) list"

definition replay_step :: "keydir \<Rightarrow> log_record \<Rightarrow> keydir" where
  "replay_step m rec =
     (case rc_type rec of
        Put \<Rightarrow> AList.update (rc_key rec) (ref_of_record rec) m
      | Delete \<Rightarrow> AList.delete (rc_key rec) m
      | Raw \<Rightarrow> m)"

definition rebuild_keydir_lazy :: "os_env \<Rightarrow> (bytes \<Rightarrow> u32) \<Rightarrow> dir \<Rightarrow> error + keydir" where
  "rebuild_keydir_lazy env crc d =
     (case rl_scan_iter env d of
        Inl e \<Rightarrow> Inl e
      | Inr it \<Rightarrow> for_items replay_step [] (fst (drain env crc d it)))"

section \<open>The abstract map\<close>

definition live_step :: "(bytes \<rightharpoonup> log_record) \<Rightarrow> log_record \<Rightarrow> (bytes \<rightharpoonup> log_record)" where
  "live_step m r = (case rc_type r of
      Put \<Rightarrow> m(rc_key r \<mapsto> r) | Delete \<Rightarrow> m(rc_key r := None) | Raw \<Rightarrow> m)"

definition live :: "log_record list \<Rightarrow> (bytes \<rightharpoonup> log_record)" where
  "live rs = foldl live_step Map.empty rs"

definition view :: "log_record list \<Rightarrow> (bytes \<rightharpoonup> bytes)" where
  "view rs k = map_option rc_payload (live rs k)"

text \<open>What an operation does to the abstract map.\<close>

definition kv_step :: "(bytes \<rightharpoonup> bytes) \<Rightarrow> record_type \<Rightarrow> bytes \<Rightarrow> bytes \<Rightarrow> (bytes \<rightharpoonup> bytes)" where
  "kv_step m rt k v = (case rt of Put \<Rightarrow> m(k \<mapsto> v) | Delete \<Rightarrow> m(k := None) | Raw \<Rightarrow> m)"

definition keydir_ok :: "keydir \<Rightarrow> log_record list \<Rightarrow> bool" where
  "keydir_ok m rs \<longleftrightarrow> distinct (map fst m) \<and> (\<forall>k. map_of m k = map_option ref_of_record (live rs k))"

lemma live_simps [simp]: "live [] = Map.empty" "live (rs @ [r]) = live_step (live rs) r"
  by (simp_all add: live_def)

lemma live_append: "live (rs @ rs') = foldl live_step (live rs) rs'"
  by (simp add: live_def)

lemma live_record: "live rs k = Some r \<Longrightarrow> r \<in> set rs \<and> rc_type r = Put \<and> rc_key r = k"
proof (induction rs rule: rev_induct)
  case (snoc x rs)
  then show ?case by (auto simp: live_step_def split: record_type.splits if_splits)
qed simp

lemma view_snoc: "view (rs @ [r]) = kv_step (view rs) (rc_type r) (rc_key r) (rc_payload r)"
  by (rule ext) (simp add: view_def live_step_def kv_step_def split: record_type.split)

lemma view_Nil [simp]: "view [] = Map.empty"
  by (rule ext) (simp add: view_def)

lemma keydir_Nil [simp]: "keydir_ok [] []"
  by (simp add: keydir_ok_def)

lemma keydir_step: "keydir_ok m rs \<Longrightarrow> keydir_ok (replay_step m r) (rs @ [r])"
  by (auto simp: keydir_ok_def replay_step_def live_step_def update_conv delete_conv distinct_update
      distinct_delete split: record_type.split)

lemma keydir_replay: "keydir_ok m rs \<Longrightarrow> keydir_ok (foldl replay_step m rs') (rs @ rs')"
proof (induction rs' arbitrary: m rs)
  case (Cons r rs')
  from Cons.IH [OF keydir_step [OF Cons.prems, of r]] show ?case by simp
qed simp

lemma keydir_dom: "keydir_ok m rs \<Longrightarrow> set (map fst m) = dom (view rs)"
  by (auto simp: keydir_ok_def view_def dom_def)
    (metis (no_types) domI domIff dom_map_of_conv_image_fst fst_conv image_eqI map_option_eq_Some option.exhaust)+

text \<open>Opening a log rebuilds the keydir of its records.\<close>

lemma rebuild_keydir_Inr:
  assumes "rebuild_keydir_lazy env crc d = Inr m"
  shows "keydir_ok m (log_records crc d)"
proof -
  obtain si where si: "list_segment_ids env d = Inr (seg_ids d)" "scan_all env crc d (seg_ids d) = Inr si"
    "m = foldl replay_step [] (si_records si)"
    using assms
    by (auto simp: rebuild_keydir_lazy_def rl_scan_iter_def for_items_scan list_segment_ids_Inr split: sum.splits)
  have "si_records (scan_result crc d (seg_ids d) empty_scan) = log_records crc d"
    by (simp add: scan_result_def empty_scan_def log_records_def Let_def)
  with si(2,3) keydir_replay [OF keydir_Nil, of "log_records crc d"] show ?thesis
    by (simp add: scan_all_iff)
qed

lemma rebuild_keydir_ok:
  assumes "all_io env" "dir_ok d" "recoverable crc d"
  shows "\<exists>m. rebuild_keydir_lazy env crc d = Inr m \<and> keydir_ok m (log_records crc d)"
proof -
  have "scan_all env crc d (seg_ids d) = Inr (scan_result crc d (seg_ids d) empty_scan)"
    using assms by (auto simp: scan_all_iff recoverable_def set_seg_ids)
  moreover have "si_records (scan_result crc d (seg_ids d) empty_scan) = log_records crc d"
    by (simp add: scan_result_def empty_scan_def log_records_def Let_def)
  moreover have "list_segment_ids env d = Inr (seg_ids d)"
    using assms(1) by (simp add: list_segment_ids_Inr)
  ultimately have "rebuild_keydir_lazy env crc d = Inr (foldl replay_step [] (log_records crc d))"
    by (simp add: rebuild_keydir_lazy_def rl_scan_iter_def for_items_scan)
  with keydir_replay [OF keydir_Nil, of "log_records crc d"] show ?thesis by simp
qed

section \<open>What the key/value layer relies on\<close>

text \<open>
  An append-only log in states \<open>'s\<close>: a successful append adds one record, the one
  asked for, at the reference returned.
\<close>

locale append_log =
  fixes append :: "'s \<Rightarrow> record_type \<Rightarrow> bytes \<Rightarrow> bytes \<Rightarrow> (error + record_ref) \<times> 's"
    and records :: "'s \<Rightarrow> log_record list"
    and good :: "'s \<Rightarrow> bool"
  assumes append_good: "good s \<Longrightarrow> append s rt k v = (Inr ref, s') \<Longrightarrow> good s'"
    and append_records: "good s \<Longrightarrow> append s rt k v = (Inr ref, s') \<Longrightarrow>
      \<exists>r. records s' = records s @ [r] \<and> rc_type r = rt \<and> rc_key r = k \<and> rc_payload r = v
        \<and> ref_of_record r = ref"
begin

lemma append_view:
  "good s \<Longrightarrow> append s rt k v = (Inr ref, s') \<Longrightarrow> view (records s') = kv_step (view (records s)) rt k v"
  using append_records by (fastforce simp: view_snoc)

lemma append_put_keydir:
  assumes "good s" "append s Put k v = (Inr ref, s')" "keydir_ok m (records s)"
  shows "keydir_ok (AList.update k ref m) (records s')"
proof -
  from append_records [OF assms(1,2)] obtain r where
    r: "records s' = records s @ [r]" "rc_type r = Put" "rc_key r = k" "ref_of_record r = ref" by blast
  with keydir_step [OF assms(3), of r] show ?thesis by (simp add: replay_step_def)
qed

lemma append_delete_keydir:
  assumes "good s" "append s Delete k v = (Inr ref, s')" "keydir_ok m (records s)"
  shows "keydir_ok (AList.delete k m) (records s')"
proof -
  from append_records [OF assms(1,2)] obtain r where
    r: "records s' = records s @ [r]" "rc_type r = Delete" "rc_key r = k" by blast
  with keydir_step [OF assms(3), of r] show ?thesis by (simp add: replay_step_def)
qed

end

text \<open>The record log provides it.\<close>

definition log_append ::
  "os_env \<Rightarrow> (bytes \<Rightarrow> u32) \<Rightarrow> record_log \<times> dir \<Rightarrow> record_type \<Rightarrow> bytes \<Rightarrow> bytes
   \<Rightarrow> (error + record_ref) \<times> (record_log \<times> dir)" where
  "log_append env crc s rt k v =
     (case rl_append_record env crc (fst s) (snd s) rt k v of (r, log, d) \<Rightarrow> (r, (log, d)))"

lemma append_record_InrD:
  assumes "rl_inv crc log d" "rl_append_record env crc log d rt key payload = (Inr ref, log', d')"
  shows "frame_ok (append_frame log rt key payload)" "works env (WriteAll (rl_active_id log))"
    "rl_active_size log + wire_len (append_frame log rt key payload) < 2 ^ 64"
    "\<exists>t. checked_succ (rl_next_txid log) = Some t"
proof -
  note A = assms(2) [unfolded rl_append_record_def check_poisoned_def rl_invD(7) [OF assms(1)], simplified]
  show fok: "frame_ok (append_frame log rt key payload)"
    using A by (auto simp: encode_record_wire append_frame_def frame_ok_def Let_def split: if_splits)
  have enc: "encode_record crc rt (rl_next_txid log) key payload = Inr (wire crc (append_frame log rt key payload))"
    using fok by (auto simp: encode_record_Inr append_frame_def)
  show w: "works env (WriteAll (rl_active_id log))"
    using A by (auto simp: enc Let_def split: if_splits)
  then show "rl_active_size log + wire_len (append_frame log rt key payload) < 2 ^ 64"
    using A frame_ok_wire_len_u32 [OF fok]
    by (auto simp: enc Let_def length_wire checked_add_u64_def split: if_splits)
  show "\<exists>t. checked_succ (rl_next_txid log) = Some t"
    using A w by (auto simp: enc Let_def split: option.splits)
qed

interpretation rlog: append_log "log_append env crc" "\<lambda>s. log_records crc (snd s)"
  "\<lambda>s. rl_inv crc (fst s) (snd s)" for env crc
proof unfold_locales
  fix s rt k v ref s'
  assume inv: "rl_inv crc (fst s) (snd s)" and a: "log_append env crc s rt k v = (Inr ref, s')"
  obtain log' d' where s': "s' = (log', d')" by force
  with a have a': "rl_append_record env crc (fst s) (snd s) rt k v = (Inr ref, log', d')"
    by (auto simp: log_append_def split: prod.splits)
  note D = append_record_InrD [OF inv a']
  from D(4) obtain t where t: "checked_succ (rl_next_txid (fst s)) = Some t" by blast
  note A = append_record_ok [OF inv D(1,2,3) t]
  show "rl_inv crc (fst s') (snd s')" using a' A(1,2) by (simp add: s')
  let ?r = "located (rl_active_id (fst s)) (rl_active_size (fst s)) (append_frame (fst s) rt k v)"
  show "\<exists>r. log_records crc (snd s') = log_records crc (snd s) @ [r] \<and> rc_type r = rt \<and> rc_key r = k
      \<and> rc_payload r = v \<and> ref_of_record r = ref"
    using a' A(1,3) by (intro exI [of _ ?r]) (simp add: s' located_def append_frame_def)
qed

end
