(* ===== verification/Fd_Pool.thy ===== *)
theory Fd_Pool
  imports Record_Log_Correct
begin

text \<open>
  \<open>crates/datawal-core/src/fd_pool.rs\<close>: the bounded LRU cache of read-only segment
  descriptors.  A descriptor is the name of the file it was opened on (nothing in
  the crate renames or unlinks a segment), the \<open>VecDeque\<close> is a list whose last
  element is the most recently used.  \<open>touch_recent\<close> says that the queue is the LRU
  one, and the locale \<open>segment_reader\<close> is what a client of the pool may rely on.
\<close>

definition DEFAULT_CAPACITY :: nat where "DEFAULT_CAPACITY = 16"

record fd_pool =
  fp_capacity :: nat
  fp_entries :: "(nat \<times> string) list"

definition with_capacity :: "nat \<Rightarrow> fd_pool" where
  "with_capacity c = \<lparr>fp_capacity = c, fp_entries = []\<rparr>"

text \<open>\<open>entries.iter().position(..)\<close>.\<close>

fun position :: "nat \<Rightarrow> (nat \<times> string) list \<Rightarrow> nat option" where
  "position sid [] = None"
| "position sid (e # es) = (if fst e = sid then Some 0 else map_option Suc (position sid es))"

definition touch_or_open ::
  "os_env \<Rightarrow> dir \<Rightarrow> fd_pool \<Rightarrow> nat \<Rightarrow> (error + string) \<times> fd_pool" where
  "touch_or_open env d pool sid =
     (let es = fp_entries pool in
      case position sid es of
        Some pos \<Rightarrow>
          let entry = es ! pos
          in (Inr (snd entry), pool\<lparr>fp_entries := (take pos es @ drop (pos + 1) es) @ [entry]\<rparr>)
      | None \<Rightarrow>
          if \<not> works env (OpenRead sid) \<or> file_content d (segment_name sid) = None
          then (Inl (Io (OpenRead sid)), pool)
          else
            let fh = segment_name sid in
            if fp_capacity pool = 0 then (Inr fh, pool\<lparr>fp_entries := [(sid, fh)]\<rparr>)
            else
              let es' = (if fp_capacity pool \<le> length es then drop 1 es else es)
              in (Inr fh, pool\<lparr>fp_entries := es' @ [(sid, fh)]\<rparr>))"

text \<open>\<open>read_exact_at\<close> fails past the end of the file, unless nothing is asked for.\<close>

definition read_at ::
  "os_env \<Rightarrow> dir \<Rightarrow> fd_pool \<Rightarrow> nat \<Rightarrow> nat \<Rightarrow> nat \<Rightarrow> (error + bytes) \<times> fd_pool" where
  "read_at env d pool sid offset len =
     (case touch_or_open env d pool sid of
        (Inl e, pool') \<Rightarrow> (Inl e, pool')
      | (Inr fh, pool') \<Rightarrow>
          (case file_content d fh of
             None \<Rightarrow> (Inl (Io (Pread sid offset len)), pool')
           | Some bs \<Rightarrow>
               if works env (Pread sid offset len) \<and> (len = 0 \<or> offset + len \<le> length bs)
               then (Inr (slice offset (offset + len) bs), pool')
               else (Inl (Io (Pread sid offset len)), pool')))"

section \<open>Invariant\<close>

definition pool_inv :: "fd_pool \<Rightarrow> bool" where
  "pool_inv pool \<longleftrightarrow> distinct (map fst (fp_entries pool))
     \<and> length (fp_entries pool) \<le> max 1 (fp_capacity pool)
     \<and> (\<forall>(sid, fh)\<in>set (fp_entries pool). fh = segment_name sid)"

lemma position_None: "position sid es = None \<longleftrightarrow> sid \<notin> fst ` set es"
  by (induction es) auto

lemma position_Some:
  assumes "position sid es = Some pos"
  shows "pos < length es" "fst (es ! pos) = sid" "es = take pos es @ es ! pos # drop (pos + 1) es"
proof -
  have "pos < length es \<and> fst (es ! pos) = sid"
    using assms by (induction es arbitrary: pos) (auto split: if_splits)
  then show "pos < length es" "fst (es ! pos) = sid" "es = take pos es @ es ! pos # drop (pos + 1) es"
    by (simp_all add: id_take_nth_drop)
qed

lemma with_capacity_inv [simp]: "pool_inv (with_capacity c)"
  by (simp add: pool_inv_def with_capacity_def)

lemma pool_inv_names: "pool_inv pool \<Longrightarrow> \<forall>e\<in>set (fp_entries pool). case e of (sid, fh) \<Rightarrow> fh = segment_name sid"
  by (simp add: pool_inv_def)

lemma touch_hit:
  assumes "pool_inv pool" "sid \<in> fst ` set (fp_entries pool)"
  obtains xs ys where "fp_entries pool = xs @ (sid, segment_name sid) # ys"
    "touch_or_open env d pool sid =
       (Inr (segment_name sid), pool\<lparr>fp_entries := xs @ ys @ [(sid, segment_name sid)]\<rparr>)"
proof -
  obtain pos where p: "position sid (fp_entries pool) = Some pos"
    using assms(2) position_None by blast
  let ?e = "fp_entries pool ! pos"
  note P = position_Some [OF p]
  have "case ?e of (i, fh) \<Rightarrow> fh = segment_name i"
    using bspec [OF pool_inv_names [OF assms(1)] nth_mem [OF P(1)]] .
  moreover obtain i fh where ie: "?e = (i, fh)" by force
  ultimately have e: "?e = (sid, segment_name sid)" using P(2) unfolding ie by simp
  show ?thesis
  proof (rule that)
    show "fp_entries pool = take pos (fp_entries pool) @ (sid, segment_name sid) # drop (pos + 1) (fp_entries pool)"
      using P(3) unfolding e .
    show "touch_or_open env d pool sid = (Inr (segment_name sid),
        pool\<lparr>fp_entries := take pos (fp_entries pool) @ drop (pos + 1) (fp_entries pool) @ [(sid, segment_name sid)]\<rparr>)"
      using p e by (simp add: touch_or_open_def Let_def)
  qed
qed

lemma touch_or_open_inv:
  assumes inv: "pool_inv pool" and t: "touch_or_open env d pool sid = (r, pool')"
  shows "pool_inv pool' \<and> fp_capacity pool' = fp_capacity pool \<and> (\<forall>fh. r = Inr fh \<longrightarrow> fh = segment_name sid)"
proof (cases "sid \<in> fst ` set (fp_entries pool)")
  case True
  from touch_hit [OF inv True, of env d] obtain xs ys where
    "fp_entries pool = xs @ (sid, segment_name sid) # ys"
    "touch_or_open env d pool sid = (Inr (segment_name sid), pool\<lparr>fp_entries := xs @ ys @ [(sid, segment_name sid)]\<rparr>)"
    by blast
  with inv t show ?thesis by (auto simp: pool_inv_def)
next
  case False
  then have p: "position sid (fp_entries pool) = None" by (simp add: position_None)
  let ?es = "if fp_capacity pool \<le> length (fp_entries pool) then drop 1 (fp_entries pool) else fp_entries pool"
  have d: "distinct (map fst ?es)" "set ?es \<subseteq> set (fp_entries pool)" "fp_capacity pool \<noteq> 0 \<Longrightarrow> length ?es < fp_capacity pool"
    using inv by (auto simp: pool_inv_def distinct_drop simp flip: drop_map dest: in_set_dropD)
  then have "sid \<notin> fst ` set ?es" using False by auto
  with d inv t p show ?thesis
    unfolding touch_or_open_def Let_def p option.case
    by (auto simp: pool_inv_def simp del: drop_Suc split: if_splits dest: in_set_dropD)
qed

text \<open>A read returns the bytes of the file, whatever the pool holds.\<close>

lemma read_at_ok:
  assumes inv: "pool_inv pool" and c: "seg_content d sid = Some bs" and n: "offset + len \<le> length bs"
    and io: "works env (OpenRead sid)" "works env (Pread sid offset len)"
  shows "fst (read_at env d pool sid offset len) = Inr (slice offset (offset + len) bs)"
proof -
  obtain r pool' where t: "touch_or_open env d pool sid = (r, pool')" by force
  have "r \<noteq> Inl e" for e
    using t io(1) c by (auto simp: touch_or_open_def seg_content_def Let_def split: option.splits if_splits)
  then obtain fh where r: "r = Inr fh" by (cases r) auto
  then have "fh = segment_name sid"
    using touch_or_open_inv [OF inv t] by simp
  then show ?thesis using t r io(2) c n by (simp add: read_at_def seg_content_def)
qed

lemma read_at_inv: "pool_inv pool \<Longrightarrow> pool_inv (snd (read_at env d pool sid offset len))"
proof -
  assume inv: "pool_inv pool"
  obtain r pool' where t: "touch_or_open env d pool sid = (r, pool')" by force
  then have "snd (read_at env d pool sid offset len) = pool'"
    by (simp add: read_at_def split: sum.split option.split)
  with touch_or_open_inv [OF inv t] show ?thesis by simp
qed

text \<open>Conversely, whatever fails: bytes that are returned are those of the file.\<close>

lemma read_at_Inr:
  assumes inv: "pool_inv pool" and r: "read_at env d pool sid off len = (Inr bs, pool')"
  shows "\<exists>c. seg_content d sid = Some c \<and> bs = slice off (off + len) c"
proof -
  obtain q p1 where t: "touch_or_open env d pool sid = (q, p1)" by force
  from r t obtain fh where q: "q = Inr fh" by (auto simp: read_at_def split: sum.splits)
  then have "fh = segment_name sid" using touch_or_open_inv [OF inv t] by simp
  with r t q show ?thesis
    by (auto simp: read_at_def seg_content_def split: option.splits if_splits)
qed

section \<open>The queue is the LRU one\<close>

text \<open>Ids by the time of their last use, the latest first.\<close>

definition recency :: "nat list \<Rightarrow> nat list" where
  "recency ids = foldl (\<lambda>r x. x # removeAll x r) [] ids"

definition touch_all :: "os_env \<Rightarrow> dir \<Rightarrow> fd_pool \<Rightarrow> nat list \<Rightarrow> fd_pool" where
  "touch_all env d pool ids = foldl (\<lambda>p x. snd (touch_or_open env d p x)) pool ids"

lemma recency_snoc [simp]: "recency [] = []" "recency (ids @ [x]) = x # removeAll x (recency ids)"
  by (simp_all add: recency_def)

lemma recency_distinct: "distinct (recency ids) \<and> set (recency ids) = set ids"
  by (induction ids rule: rev_induct) (auto simp: distinct_removeAll)

lemma touch_all_snoc [simp]:
  "touch_all env d pool [] = pool"
  "touch_all env d pool (ids @ [x]) = snd (touch_or_open env d (touch_all env d pool ids) x)"
  by (simp_all add: touch_all_def)

lemma take_move_front:
  assumes "distinct r" "0 < c"
  shows "take c (x # removeAll x r) =
    x # (if x \<in> set (take c r) then removeAll x (take c r) else take (c - 1) r)"
proof (cases "x \<in> set r")
  case False
  then have "x \<notin> set (take c r)" by (auto dest: in_set_takeD)
  with False assms(2) show ?thesis by (cases c) simp_all
next
  case True
  then obtain a b where r: "r = a @ x # b" by (auto simp: in_set_conv_decomp)
  with assms(1) have ab: "x \<notin> set a" "x \<notin> set b" by auto
  then have rm: "removeAll x r = a @ b" by (simp add: r)
  show ?thesis
  proof (cases "length a < c")
    case True
    then obtain n where c: "c = length a + Suc n" by (metis less_iff_Suc_add add_Suc_right)
    have "x \<notin> set (take n b)" using ab by (auto dest: in_set_takeD)
    with ab c show ?thesis by (simp add: rm r)
  next
    case False
    then have "x \<notin> set (take c r)" using ab by (auto simp: r dest: in_set_takeD)
    with False assms(2) ab show ?thesis by (cases c) (auto simp: rm r)
  qed
qed

lemma touch_ids:
  assumes inv: "pool_inv pool" and io: "works env (OpenRead sid)" "seg_content d sid \<noteq> None"
  defines "ids \<equiv> map fst (fp_entries pool)"
  shows "map fst (fp_entries (snd (touch_or_open env d pool sid))) =
    (if sid \<in> set ids then removeAll sid ids
     else if max 1 (fp_capacity pool) \<le> length ids then drop 1 ids else ids) @ [sid]"
proof (cases "sid \<in> set ids")
  case True
  then have "sid \<in> fst ` set (fp_entries pool)" by (simp add: ids_def)
  from touch_hit [OF inv this, of env d] obtain xs ys where
    es: "fp_entries pool = xs @ (sid, segment_name sid) # ys"
    and t: "touch_or_open env d pool sid =
       (Inr (segment_name sid), pool\<lparr>fp_entries := xs @ ys @ [(sid, segment_name sid)]\<rparr>)"
    by blast
  have "distinct (map fst (fp_entries pool))" using inv by (simp add: pool_inv_def)
  then have "sid \<notin> set (map fst xs)" "sid \<notin> set (map fst ys)" by (auto simp: es)
  with True t show ?thesis by (simp add: ids_def es)
next
  case False
  then have "position sid (fp_entries pool) = None" by (simp add: position_None ids_def)
  moreover obtain bs where "file_content d (segment_name sid) = Some bs"
    using io(2) by (auto simp: seg_content_def)
  moreover have "length (fp_entries pool) \<le> 1" if "fp_capacity pool = 0"
    using inv that by (simp add: pool_inv_def)
  ultimately show ?thesis
    using False io(1)
    by (auto simp: touch_or_open_def Let_def seg_content_def ids_def drop_map Suc_le_eq)
qed

lemma touch_all_inv: "pool_inv pool \<Longrightarrow>
  pool_inv (touch_all env d pool ids) \<and> fp_capacity (touch_all env d pool ids) = fp_capacity pool"
proof (induction ids rule: rev_induct)
  case (snoc x ids)
  then show ?case
    using touch_or_open_inv [of "touch_all env d pool ids" env d x]
    by (metis prod.collapse touch_all_snoc(2))
qed simp

text \<open>The pool holds the \<open>capacity\<close> most recently used segments, in order of use.\<close>

lemma touch_recent:
  fixes cap :: nat
  assumes io: "all_io env" "\<forall>sid\<in>set ids. seg_content d sid \<noteq> None"
  defines "c \<equiv> max 1 cap"
  shows "map fst (fp_entries (touch_all env d (with_capacity cap) ids)) = rev (take c (recency ids))"
  using io(2)
proof (induction ids rule: rev_induct)
  case Nil
  then show ?case by (simp add: with_capacity_def)
next
  case (snoc x ids)
  let ?p = "touch_all env d (with_capacity cap) ids"
  have pos: "0 < c" by (simp add: c_def)
  have P: "pool_inv ?p" "max 1 (fp_capacity ?p) = c"
    using touch_all_inv [OF with_capacity_inv [of cap], of env d ids] by (auto simp: with_capacity_def c_def)
  have IH: "map fst (fp_entries ?p) = rev (take c (recency ids))" using snoc by simp
  have "map fst (fp_entries (touch_all env d (with_capacity cap) (ids @ [x]))) =
      (if x \<in> set (take c (recency ids)) then removeAll x (rev (take c (recency ids)))
       else if c \<le> length (take c (recency ids)) then drop 1 (rev (take c (recency ids)))
       else rev (take c (recency ids))) @ [x]"
    using touch_ids [OF P(1), of env x d] P(2) io(1) snoc.prems IH by simp
  also have "\<dots> = rev (take c (recency (ids @ [x])))"
  proof -
    have tm: "take c (recency (ids @ [x])) = x # (if x \<in> set (take c (recency ids))
        then removeAll x (take c (recency ids)) else take (c - 1) (recency ids))"
      using recency_distinct [of ids] pos by (simp only: recency_snoc take_move_front)
    show ?thesis
      unfolding tm using pos
      by (auto simp: removeAll_filter_not_eq rev_filter drop_rev butlast_take min_def)
  qed
  finally show ?case .
qed

section \<open>What a reader of segments promises\<close>

text \<open>
  The interface \<open>DataWal\<close> uses: positional reads through some cache state \<open>'p\<close>.
\<close>

locale segment_reader =
  fixes read :: "os_env \<Rightarrow> dir \<Rightarrow> 'p \<Rightarrow> nat \<Rightarrow> nat \<Rightarrow> nat \<Rightarrow> (error + bytes) \<times> 'p"
    and cache_ok :: "'p \<Rightarrow> bool"
  assumes read_ok: "all_io env \<Longrightarrow> cache_ok p \<Longrightarrow> seg_content d sid = Some bs \<Longrightarrow> off + len \<le> length bs \<Longrightarrow>
      fst (read env d p sid off len) = Inr (slice off (off + len) bs)"
    and read_sound: "cache_ok p \<Longrightarrow> read env d p sid off len = (Inr bs, p') \<Longrightarrow>
      \<exists>c. seg_content d sid = Some c \<and> bs = slice off (off + len) c"
    and read_keeps: "cache_ok p \<Longrightarrow> cache_ok (snd (read env d p sid off len))"
begin

text \<open>A record of the log is read back as its frame.\<close>

lemma read_record:
  assumes "cache_ok p" "dir_ok d" "r \<in> set (log_records crc d)" and io: "all_io env"
  shows "\<exists>p'. read env d p (rc_segment r) (rc_offset r) (rc_len r) = (Inr (wire crc (frame_of r)), p')
    \<and> cache_ok p'"
proof -
  note R = log_record_at [OF assms(3)]
  then have c: "seg_content d (rc_segment r) = Some (seg_bytes d (rc_segment r))"
    using assms(2) by (intro seg_content_seg_bytes) (simp add: set_seg_ids)
  have "fst (read env d p (rc_segment r) (rc_offset r) (rc_len r)) = Inr (wire crc (frame_of r))"
    using read_ok [OF io assms(1) c, of "rc_offset r" "rc_len r"] R
    by (metis bytes_at_def ref_of_record_def record_ref.select_convs(1,2,3))
  with read_keeps [OF assms(1)] show ?thesis by (metis prod.collapse)
qed

lemma read_record_sound:
  assumes "cache_ok p" "r \<in> set (log_records crc d)"
    "read env d p (rc_segment r) (rc_offset r) (rc_len r) = (Inr bs, p')"
  shows "bs = wire crc (frame_of r) \<and> cache_ok p'"
proof -
  from read_sound [OF assms(1,3)] obtain c where
    c: "seg_content d (rc_segment r) = Some c" "bs = slice (rc_offset r) (rc_offset r + rc_len r) c" by blast
  have "bytes_at d (ref_of_record r) = wire crc (frame_of r)" using log_record_at [OF assms(2)] by blast
  with c have "bs = wire crc (frame_of r)"
    by (simp add: bytes_at_def ref_of_record_def seg_bytes_def)
  with read_keeps [OF assms(1)] assms(3) show ?thesis by (metis snd_conv)
qed

end

interpretation pool: segment_reader read_at pool_inv
  by unfold_locales (simp_all add: read_at_ok read_at_Inr read_at_inv)

end
