(* ===== verification/Data_Wal.thy ===== *)
theory Data_Wal
  imports Keydir Fd_Pool "HOL-Library.List_Lexorder"
begin

text \<open>
  \<open>DataWal\<close> of \<open>crates/datawal-core/src/datawal.rs\<close>: the key/value store over the
  record log.  A handle holds the log handle, the keydir and the descriptor pool;
  the directory is an argument.  The iteration order of a \<open>HashMap\<close> is
  unspecified; the association list has one, and no theorem depends on it.

  The crates base64 and serde_json are the parameters \<open>b64\<close> and \<open>json_row\<close>, and
  \<open>safeatomic_rs::write_atomic\<close> is the all-or-nothing replacement of a file.
\<close>

record data_wal =
  dw_log :: record_log
  dw_map :: keydir
  dw_pool :: fd_pool

section \<open>Opening and the lookups that do not read\<close>

definition dw_open ::
  "'k flock \<Rightarrow> os_env \<Rightarrow> (bytes \<Rightarrow> u32) \<Rightarrow> nat \<Rightarrow> nat \<Rightarrow> 'k \<Rightarrow> dir option
   \<Rightarrow> (error + data_wal) \<times> 'k \<times> dir option" where
  "dw_open fl env crc pid fd k dopt =
     (case rl_open fl env crc pid fd k dopt of
        (Inl e, k1, d1) \<Rightarrow> (Inl e, k1, d1)
      | (Inr log, k1, d1) \<Rightarrow>
          (case rebuild_keydir_lazy env crc (case d1 of None \<Rightarrow> [] | Some d \<Rightarrow> d) of
             Inl e \<Rightarrow> (Inl e, dir_lock_drop fl k1 (rl_lock log), d1)
           | Inr m \<Rightarrow>
               (Inr \<lparr>dw_log = log, dw_map = m, dw_pool = with_capacity DEFAULT_CAPACITY\<rparr>, k1, d1)))"

definition dw_len :: "data_wal \<Rightarrow> nat" where
  "dw_len w = length (dw_map w)"

definition dw_is_empty :: "data_wal \<Rightarrow> bool" where
  "dw_is_empty w \<longleftrightarrow> dw_map w = []"

definition dw_contains_key :: "data_wal \<Rightarrow> bytes \<Rightarrow> bool" where
  "dw_contains_key w key \<longleftrightarrow> map_of (dw_map w) key \<noteq> None"

definition dw_ref_of :: "data_wal \<Rightarrow> bytes \<Rightarrow> record_ref option" where
  "dw_ref_of w key = map_of (dw_map w) key"

definition dw_keys :: "data_wal \<Rightarrow> bytes list" where
  "dw_keys w = map fst (dw_map w)"

section \<open>Reading a value\<close>

definition decode_payload_for_get :: "(bytes \<Rightarrow> u32) \<Rightarrow> bytes \<Rightarrow> record_ref \<Rightarrow> error + bytes" where
  "decode_payload_for_get crc bs rref =
     (if length bs < HEADER_LEN
      then Inl (ShortRead (ref_segment rref) (ref_offset rref) (length bs) HEADER_LEN)
      else case decode_next crc bs 0 of
        Inr (DOk rt _ _ payload consumed) \<Rightarrow>
          if consumed \<noteq> ref_len rref
          then Inl (FrameLengthMismatch (ref_segment rref) (ref_offset rref) consumed (ref_len rref))
          else if rt \<noteq> Put then Inl (NotAPut (ref_segment rref) (ref_offset rref) rt)
          else Inr payload
      | Inr (Truncated available needed) \<Rightarrow>
          Inl (TruncatedFrame (ref_segment rref) (ref_offset rref) available needed)
      | Inr (CrcMismatch consumed) \<Rightarrow> Inl (CrcFrame (ref_segment rref) (ref_offset rref) consumed)
      | Inl e \<Rightarrow> Inl (StructuralFrame (ref_segment rref) (ref_offset rref) e))"

definition dw_get ::
  "os_env \<Rightarrow> (bytes \<Rightarrow> u32) \<Rightarrow> data_wal \<Rightarrow> dir \<Rightarrow> bytes \<Rightarrow> (error + bytes option) \<times> data_wal" where
  "dw_get env crc w d key =
     (case map_of (dw_map w) key of
        None \<Rightarrow> (Inr None, w)
      | Some rref \<Rightarrow>
          (case read_at env d (dw_pool w) (ref_segment rref) (ref_offset rref) (ref_len rref) of
             (Inl e, pool') \<Rightarrow> (Inl e, w\<lparr>dw_pool := pool'\<rparr>)
           | (Inr bs, pool') \<Rightarrow>
               (case decode_payload_for_get crc bs rref of
                  Inl e \<Rightarrow> (Inl e, w\<lparr>dw_pool := pool'\<rparr>)
                | Inr v \<Rightarrow> (Inr (Some v), w\<lparr>dw_pool := pool'\<rparr>))))"

text \<open>\<open>get\<close> followed by \<open>ok_or_else(keydir desync)\<close>, as the loops over keys use it.\<close>

definition get_live ::
  "os_env \<Rightarrow> (bytes \<Rightarrow> u32) \<Rightarrow> data_wal \<Rightarrow> dir \<Rightarrow> bytes \<Rightarrow> (error + bytes) \<times> data_wal" where
  "get_live env crc w d key =
     (case dw_get env crc w d key of
        (Inl e, w') \<Rightarrow> (Inl e, w')
      | (Inr None, w') \<Rightarrow> (Inl KeydirDesync, w')
      | (Inr (Some v), w') \<Rightarrow> (Inr v, w'))"

fun items_loop ::
  "os_env \<Rightarrow> (bytes \<Rightarrow> u32) \<Rightarrow> dir \<Rightarrow> bytes list \<Rightarrow> (bytes \<times> bytes) list \<Rightarrow> data_wal
   \<Rightarrow> (error + (bytes \<times> bytes) list) \<times> data_wal" where
  "items_loop env crc d [] out w = (Inr out, w)"
| "items_loop env crc d (k # ks) out w =
     (case get_live env crc w d k of
        (Inl e, w') \<Rightarrow> (Inl e, w')
      | (Inr v, w') \<Rightarrow> items_loop env crc d ks (out @ [(k, v)]) w')"

definition dw_items ::
  "os_env \<Rightarrow> (bytes \<Rightarrow> u32) \<Rightarrow> data_wal \<Rightarrow> dir \<Rightarrow> (error + (bytes \<times> bytes) list) \<times> data_wal" where
  "dw_items env crc w d = items_loop env crc d (dw_keys w) [] w"

section \<open>Writing\<close>

definition dw_put ::
  "os_env \<Rightarrow> (bytes \<Rightarrow> u32) \<Rightarrow> data_wal \<Rightarrow> dir \<Rightarrow> bytes \<Rightarrow> bytes \<Rightarrow> (error + unit) \<times> data_wal \<times> dir" where
  "dw_put env crc w d key value =
     (case rl_append_record env crc (dw_log w) d Put key value of
        (Inl e, log', d') \<Rightarrow> (Inl e, w\<lparr>dw_log := log'\<rparr>, d')
      | (Inr rref, log', d') \<Rightarrow>
          (Inr (), w\<lparr>dw_log := log', dw_map := AList.update key rref (dw_map w)\<rparr>, d'))"

definition dw_delete ::
  "os_env \<Rightarrow> (bytes \<Rightarrow> u32) \<Rightarrow> data_wal \<Rightarrow> dir \<Rightarrow> bytes \<Rightarrow> (error + unit) \<times> data_wal \<times> dir" where
  "dw_delete env crc w d key =
     (case rl_append_record env crc (dw_log w) d Delete key [] of
        (Inl e, log', d') \<Rightarrow> (Inl e, w\<lparr>dw_log := log'\<rparr>, d')
      | (Inr rref, log', d') \<Rightarrow>
          (Inr (), w\<lparr>dw_log := log', dw_map := AList.delete key (dw_map w)\<rparr>, d'))"

definition dw_fsync :: "os_env \<Rightarrow> data_wal \<Rightarrow> (error + unit) \<times> data_wal" where
  "dw_fsync env w = (case rl_fsync env (dw_log w) of (r, log') \<Rightarrow> (r, w\<lparr>dw_log := log'\<rparr>))"

section \<open>Compaction\<close>

record compaction_stats =
  cs_live_keys :: nat
  cs_records_written :: nat
  cs_bytes_written :: nat

fun copy_keys ::
  "os_env \<Rightarrow> os_env \<Rightarrow> (bytes \<Rightarrow> u32) \<Rightarrow> dir \<Rightarrow> bytes list \<Rightarrow> compaction_stats \<Rightarrow> data_wal
   \<Rightarrow> record_log \<Rightarrow> dir \<Rightarrow> (error + compaction_stats) \<times> data_wal \<times> record_log \<times> dir" where
  "copy_keys env env' crc d [] stats w out_log d' = (Inr stats, w, out_log, d')"
| "copy_keys env env' crc d (k # ks) stats w out_log d' =
     (case get_live env crc w d k of
        (Inl e, w1) \<Rightarrow> (Inl e, w1, out_log, d')
      | (Inr v, w1) \<Rightarrow>
          (case rl_append_record env' crc out_log d' Put k v of
             (Inl e, log1, d1) \<Rightarrow> (Inl e, w1, log1, d1)
           | (Inr r, log1, d1) \<Rightarrow>
               copy_keys env env' crc d ks
                 (stats\<lparr>cs_records_written := cs_records_written stats + 1,
                        cs_bytes_written := cs_bytes_written stats + ref_len r\<rparr>) w1 log1 d1))"

text \<open>
  \<open>compact_to\<close> into the directory \<open>out\<close> (\<open>None\<close>: it does not exist), whose lock file
  is in kernel state \<open>k\<close>; \<open>env\<close> are the calls on the source, \<open>env'\<close> those on the target.
  An error drops the target's handle and its lock.
\<close>

definition dw_compact_to ::
  "'k flock \<Rightarrow> os_env \<Rightarrow> os_env \<Rightarrow> (bytes \<Rightarrow> u32) \<Rightarrow> nat \<Rightarrow> nat \<Rightarrow> 'k \<Rightarrow> data_wal \<Rightarrow> dir \<Rightarrow> dir option
   \<Rightarrow> (error + compaction_stats) \<times> data_wal \<times> 'k \<times> dir option" where
  "dw_compact_to fl env env' crc pid fd k w d out =
     (if out \<noteq> None \<and> \<not> works env' ReadTargetDir then (Inl (Io ReadTargetDir), w, k, out)
      else if out \<noteq> None \<and> out \<noteq> Some [] then (Inl TargetNotEmpty, w, k, out)
      else
        let sorted_keys = sort (dw_keys w) in
        case rl_open fl env' crc pid fd k out of
          (Inl e, k1, o1) \<Rightarrow> (Inl e, w, k1, o1)
        | (Inr out_log, k1, o1) \<Rightarrow>
            (case copy_keys env env' crc d sorted_keys
                    \<lparr>cs_live_keys = 0, cs_records_written = 0, cs_bytes_written = 0\<rparr> w out_log
                    (case o1 of None \<Rightarrow> [] | Some d1 \<Rightarrow> d1) of
               (Inl e, w1, log1, d1) \<Rightarrow> (Inl e, w1, dir_lock_drop fl k1 (rl_lock log1), Some d1)
             | (Inr stats, w1, log1, d1) \<Rightarrow>
                 let stats' = stats\<lparr>cs_live_keys := cs_records_written stats\<rparr> in
                 (case rl_fsync env' log1 of
                    (Inl e, log2) \<Rightarrow> (Inl e, w1, dir_lock_drop fl k1 (rl_lock log2), Some d1)
                  | (Inr _, log2) \<Rightarrow>
                      (case rl_close fl k1 log2 of
                         (Inl e, k2) \<Rightarrow> (Inl e, w1, k2, Some d1)
                       | (Inr _, k2) \<Rightarrow> (Inr stats', w1, k2, Some d1)))))"

section \<open>Export\<close>

fun export_loop ::
  "os_env \<Rightarrow> (bytes \<Rightarrow> u32) \<Rightarrow> (bytes \<Rightarrow> string) \<Rightarrow> (string \<Rightarrow> string \<Rightarrow> string) \<Rightarrow> dir \<Rightarrow> bytes list
   \<Rightarrow> string \<Rightarrow> data_wal \<Rightarrow> (error + string) \<times> data_wal" where
  "export_loop env crc b64 json_row d [] buf w = (Inr buf, w)"
| "export_loop env crc b64 json_row d (k # ks) buf w =
     (case get_live env crc w d k of
        (Inl e, w') \<Rightarrow> (Inl e, w')
      | (Inr v, w') \<Rightarrow>
          export_loop env crc b64 json_row d ks (buf @ json_row (b64 k) (b64 v) @ ''\<newline>'') w')"

text \<open>The file \<open>target\<close> before and after; \<open>has_parent\<close>: the path has a non-empty parent.\<close>

definition dw_export_jsonl ::
  "os_env \<Rightarrow> (bytes \<Rightarrow> u32) \<Rightarrow> (bytes \<Rightarrow> string) \<Rightarrow> (string \<Rightarrow> string \<Rightarrow> string) \<Rightarrow> bool \<Rightarrow> data_wal \<Rightarrow> dir
   \<Rightarrow> string option \<Rightarrow> (error + unit) \<times> data_wal \<times> string option" where
  "dw_export_jsonl env crc b64 json_row has_parent w d target =
     (case export_loop env crc b64 json_row d (sort (dw_keys w)) [] w of
        (Inl e, w') \<Rightarrow> (Inl e, w', target)
      | (Inr buf, w') \<Rightarrow>
          if has_parent \<and> \<not> works env CreateParent then (Inl (Io CreateParent), w', target)
          else if \<not> works env WriteAtomic then (Inl (Io WriteAtomic), w', target)
          else (Inr (), w', Some buf))"

end
