(* ===== verification/Data_Wal_Correct.thy ===== *)
theory Data_Wal_Correct
  imports Data_Wal "HOL-Library.Multiset"
begin

text \<open>
  Correctness of \<open>DataWal\<close>: the store refines the partial map
  \<open>view (log_records crc d)\<close> from keys to values.  \<open>kd_inv\<close> is what reads need,
  \<open>dw_inv\<close> adds the invariant of the log handle, which writes need and keep.
\<close>

definition kd_inv :: "(bytes \<Rightarrow> u32) \<Rightarrow> data_wal \<Rightarrow> dir \<Rightarrow> bool" where
  "kd_inv crc w d \<longleftrightarrow> dir_ok d \<and> keydir_ok (dw_map w) (log_records crc d) \<and> pool_inv (dw_pool w)"

definition dw_inv :: "(bytes \<Rightarrow> u32) \<Rightarrow> data_wal \<Rightarrow> dir \<Rightarrow> bool" where
  "dw_inv crc w d \<longleftrightarrow> kd_inv crc w d \<and> rl_inv crc (dw_log w) d"

text \<open>The abstract map of a directory.\<close>

definition contents :: "(bytes \<Rightarrow> u32) \<Rightarrow> dir \<Rightarrow> bytes \<rightharpoonup> bytes" where
  "contents crc d = view (log_records crc d)"

section \<open>Reading\<close>

lemma decode_payload_ok:
  assumes "frame_ok f" "fr_type f = Put" "ref_len rref = wire_len f"
  shows "decode_payload_for_get crc (wire crc f) rref = Inr (fr_payload f)"
  using assms decode_wire [of f crc "[]"] wire_len_ge [of f]
  by (simp add: decode_payload_for_get_def length_wire HEADER_LEN_def)

lemma kd_inv_pool: "kd_inv crc w d \<Longrightarrow> pool_inv p \<Longrightarrow> kd_inv crc (w\<lparr>dw_pool := p\<rparr>) d"
  by (simp add: kd_inv_def)

text \<open>
  A keydir that describes some records of the log is enough to read: files only grow, so
  its references stay valid.
\<close>

definition reads_inv :: "(bytes \<Rightarrow> u32) \<Rightarrow> data_wal \<Rightarrow> dir \<Rightarrow> log_record list \<Rightarrow> bool" where
  "reads_inv crc w d rs \<longleftrightarrow> dir_ok d \<and> keydir_ok (dw_map w) rs \<and> set rs \<subseteq> set (log_records crc d)
     \<and> pool_inv (dw_pool w)"

lemma kd_inv_reads: "kd_inv crc w d \<longleftrightarrow> reads_inv crc w d (log_records crc d)"
  by (auto simp: kd_inv_def reads_inv_def)

lemma get_view:
  assumes inv: "reads_inv crc w d rs" and io: "all_io env"
  shows "\<exists>p. dw_get env crc w d k = (Inr (view rs k), w\<lparr>dw_pool := p\<rparr>) \<and> pool_inv p"
proof (cases "live rs k")
  case None
  then have "map_of (dw_map w) k = None" using inv by (simp add: reads_inv_def keydir_ok_def)
  with None inv show ?thesis
    by (intro exI [of _ "dw_pool w"]) (simp add: dw_get_def view_def reads_inv_def)
next
  case (Some r)
  have L: "r \<in> set (log_records crc d)" "rc_type r = Put"
    using live_record [OF Some] inv by (auto simp: reads_inv_def)
  from Some inv have m: "map_of (dw_map w) k = Some (ref_of_record r)"
    by (simp add: reads_inv_def keydir_ok_def)
  from inv have P: "pool_inv (dw_pool w)" "dir_ok d" by (simp_all add: reads_inv_def)
  obtain p where p: "read_at env d (dw_pool w) (rc_segment r) (rc_offset r) (rc_len r)
      = (Inr (wire crc (frame_of r)), p)" "pool_inv p"
    using pool.read_record [OF P L(1) io] by blast
  have F: "frame_ok (frame_of r)" "rc_len r = wire_len (frame_of r)"
    using log_record_at [OF L(1)] by blast+
  have "decode_payload_for_get crc (wire crc (frame_of r)) (ref_of_record r) = Inr (rc_payload r)"
    using decode_payload_ok [OF F(1), of "ref_of_record r" crc] F(2) L(2)
    by (simp add: frame_of_def ref_of_record_def)
  with m p Some show ?thesis
    by (intro exI [of _ p]) (simp add: dw_get_def view_def ref_of_record_def)
qed

text \<open>A value that \<open>get\<close> returns is the right one, whatever else fails.\<close>

lemma get_any:
  assumes inv: "reads_inv crc w d rs" and g: "dw_get env crc w d k = (res, w')"
  shows "(\<forall>r. res = Inr r \<longrightarrow> r = view rs k) \<and> reads_inv crc w' d rs \<and> dw_log w' = dw_log w \<and> dw_map w' = dw_map w"
proof (cases "live rs k")
  case None
  then have "map_of (dw_map w) k = None" using inv by (simp add: reads_inv_def keydir_ok_def)
  with None inv g show ?thesis by (auto simp: dw_get_def view_def)
next
  case (Some x)
  have L: "x \<in> set (log_records crc d)" "rc_type x = Put"
    using live_record [OF Some] inv by (auto simp: reads_inv_def)
  from Some inv have m: "map_of (dw_map w) k = Some (ref_of_record x)"
    by (simp add: reads_inv_def keydir_ok_def)
  from inv have P: "pool_inv (dw_pool w)" by (simp add: reads_inv_def)
  obtain rr p where b: "read_at env d (dw_pool w) (rc_segment x) (rc_offset x) (rc_len x) = (rr, p)" by force
  have p: "pool_inv p" using pool.read_keeps [OF P, of env d "rc_segment x" "rc_offset x" "rc_len x"] b by simp
  from g m b have w': "w' = w\<lparr>dw_pool := p\<rparr>"
    by (auto simp: dw_get_def ref_of_record_def split: sum.splits)
  have "r = view rs k" if "res = Inr r" for r
  proof -
    from g m b that obtain bs v where rd: "rr = Inr bs" "decode_payload_for_get crc bs (ref_of_record x) = Inr v" "r = Some v"
      by (auto simp: dw_get_def ref_of_record_def split: sum.splits)
    have B: "bs = wire crc (frame_of x)" using pool.read_record_sound [OF P L(1)] b rd(1) by blast
    have F: "frame_ok (frame_of x)" "rc_len x = wire_len (frame_of x)"
      using log_record_at [OF L(1)] by blast+
    have "decode_payload_for_get crc bs (ref_of_record x) = Inr (rc_payload x)"
      using decode_payload_ok [OF F(1), of "ref_of_record x" crc] F(2) L(2) B
      by (simp add: frame_of_def ref_of_record_def)
    with rd Some show ?thesis by (simp add: view_def)
  qed
  with w' p inv show ?thesis by (simp add: reads_inv_def)
qed

lemma get_contents:
  assumes "kd_inv crc w d" and "all_io env"
  shows "\<exists>p. dw_get env crc w d k = (Inr (contents crc d k), w\<lparr>dw_pool := p\<rparr>) \<and> pool_inv p"
  using get_view assms unfolding kd_inv_reads contents_def by blast

lemma get_Inr:
  assumes "kd_inv crc w d" and "dw_get env crc w d k = (Inr r, w')"
  shows "r = contents crc d k \<and> kd_inv crc w' d \<and> dw_log w' = dw_log w"
  using get_any assms unfolding kd_inv_reads contents_def by blast

lemma get_live_contents:
  assumes inv: "kd_inv crc w d" and io: "all_io env" and k: "contents crc d k = Some v"
  shows "\<exists>p. get_live env crc w d k = (Inr v, w\<lparr>dw_pool := p\<rparr>) \<and> pool_inv p"
  using get_contents [OF inv io, of k] k by (auto simp: get_live_def)

lemma keys_contents: "kd_inv crc w d \<Longrightarrow> set (dw_keys w) = dom (contents crc d) \<and> distinct (dw_keys w)"
  using keydir_dom by (auto simp: kd_inv_def dw_keys_def contents_def keydir_ok_def)

lemma lookups_contents:
  assumes "kd_inv crc w d"
  shows "dw_contains_key w k \<longleftrightarrow> contents crc d k \<noteq> None" "dw_len w = card (dom (contents crc d))"
    "dw_is_empty w \<longleftrightarrow> contents crc d = Map.empty"
proof -
  have K: "set (dw_keys w) = dom (contents crc d)" "distinct (dw_keys w)"
    using keys_contents [OF assms] by simp_all
  show "dw_contains_key w k \<longleftrightarrow> contents crc d k \<noteq> None"
    using assms by (simp add: dw_contains_key_def kd_inv_def keydir_ok_def contents_def view_def)
  show "dw_len w = card (dom (contents crc d))"
    unfolding K(1) [symmetric] distinct_card [OF K(2)] by (simp add: dw_len_def dw_keys_def)
  show "dw_is_empty w \<longleftrightarrow> contents crc d = Map.empty"
    using dom_eq_empty_conv [of "contents crc d"] unfolding K(1) [symmetric]
    by (simp add: dw_is_empty_def dw_keys_def)
qed

lemma items_loop_contents:
  assumes "kd_inv crc w d" "all_io env" "set ks \<subseteq> dom (contents crc d)"
  shows "\<exists>p. items_loop env crc d ks out w =
      (Inr (out @ map (\<lambda>k. (k, the (contents crc d k))) ks), w\<lparr>dw_pool := p\<rparr>) \<and> pool_inv p"
  using assms
proof (induction ks arbitrary: out w)
  case Nil
  then show ?case by (intro exI [of _ "dw_pool w"]) (simp add: kd_inv_def)
next
  case (Cons k ks)
  from Cons.prems obtain v where v: "contents crc d k = Some v" by auto
  from get_live_contents [OF Cons.prems(1,2) v] obtain p where
    p: "get_live env crc w d k = (Inr v, w\<lparr>dw_pool := p\<rparr>)" "pool_inv p" by blast
  from Cons.IH [OF kd_inv_pool [OF Cons.prems(1) p(2)] Cons.prems(2), of "out @ [(k, v)]"] Cons.prems(3)
  obtain p' where "items_loop env crc d ks (out @ [(k, v)]) (w\<lparr>dw_pool := p\<rparr>) =
      (Inr ((out @ [(k, v)]) @ map (\<lambda>k. (k, the (contents crc d k))) ks), w\<lparr>dw_pool := p'\<rparr>)" "pool_inv p'"
    by auto
  with p v show ?case by (intro exI [of _ p']) simp
qed

section \<open>Writing\<close>

lemma put_Inr:
  assumes inv: "dw_inv crc w d" and p: "dw_put env crc w d k v = (Inr (), w', d')"
  shows "dw_inv crc w' d' \<and> contents crc d' = (contents crc d)(k \<mapsto> v)"
proof -
  from p obtain rref log' where a: "rl_append_record env crc (dw_log w) d Put k v = (Inr rref, log', d')"
    and w': "w' = w\<lparr>dw_log := log', dw_map := AList.update k rref (dw_map w)\<rparr>"
    by (auto simp: dw_put_def split: prod.splits sum.splits)
  then have l: "log_append env crc (dw_log w, d) Put k v = (Inr rref, (log', d'))"
    by (simp add: log_append_def)
  from inv have I: "rl_inv crc (dw_log w) d" "keydir_ok (dw_map w) (log_records crc d)" "pool_inv (dw_pool w)"
    by (simp_all add: dw_inv_def kd_inv_def)
  have g: "rl_inv crc log' d'" using rlog.append_good [OF _ l] I(1) by simp
  moreover have "keydir_ok (dw_map w') (log_records crc d')"
    using rlog.append_put_keydir [OF _ l] I by (simp add: w')
  moreover have "contents crc d' = (contents crc d)(k \<mapsto> v)"
    using rlog.append_view [OF _ l] I(1) by (simp add: contents_def kv_step_def)
  ultimately show ?thesis using I(3) rl_invD(1) [OF g] by (simp add: dw_inv_def kd_inv_def w')
qed

lemma delete_Inr:
  assumes inv: "dw_inv crc w d" and p: "dw_delete env crc w d k = (Inr (), w', d')"
  shows "dw_inv crc w' d' \<and> contents crc d' = (contents crc d)(k := None)"
proof -
  from p obtain rref log' where a: "rl_append_record env crc (dw_log w) d Delete k [] = (Inr rref, log', d')"
    and w': "w' = w\<lparr>dw_log := log', dw_map := AList.delete k (dw_map w)\<rparr>"
    by (auto simp: dw_delete_def split: prod.splits sum.splits)
  then have l: "log_append env crc (dw_log w, d) Delete k [] = (Inr rref, (log', d'))"
    by (simp add: log_append_def)
  from inv have I: "rl_inv crc (dw_log w) d" "keydir_ok (dw_map w) (log_records crc d)" "pool_inv (dw_pool w)"
    by (simp_all add: dw_inv_def kd_inv_def)
  have g: "rl_inv crc log' d'" using rlog.append_good [OF _ l] I(1) by simp
  moreover have "keydir_ok (dw_map w') (log_records crc d')"
    using rlog.append_delete_keydir [OF _ l] I by (simp add: w')
  moreover have "contents crc d' = (contents crc d)(k := None)"
    using rlog.append_view [OF _ l] I(1) by (simp add: contents_def kv_step_def)
  ultimately show ?thesis using I(3) rl_invD(1) [OF g] by (simp add: dw_inv_def kd_inv_def w')
qed

text \<open>When nothing fails and no counter is exhausted, a write succeeds.\<close>

definition room :: "record_log \<Rightarrow> nat \<Rightarrow> nat \<Rightarrow> bool" where
  "room log bytes_more records_more \<longleftrightarrow>
     rl_active_size log + bytes_more < 2 ^ 64 \<and> unat (rl_next_txid log) + records_more < 2 ^ 64"

lemma room_succ:
  assumes "room log n (Suc m)"
  obtains t where "checked_succ (rl_next_txid log) = Some t" "unat t = Suc (unat (rl_next_txid log))"
proof -
  have "rl_next_txid log \<noteq> - 1"
  proof
    assume "rl_next_txid log = - 1"
    then have "unat (rl_next_txid log) = 2 ^ 64 - 1" by (simp add: unsigned_minus_1_eq_mask mask_eq_exp_minus_1)
    with assms show False by (simp add: room_def)
  qed
  then obtain t where "checked_succ (rl_next_txid log) = Some t" by (simp add: checked_succ_def)
  with that checked_succ_Some show ?thesis by blast
qed

lemma append_room:
  assumes inv: "rl_inv crc log d" and io: "all_io env"
    and ok: "length k \<le> MAX_KEY_LEN" "length v \<le> MAX_PAYLOAD_LEN"
    and rm: "room log (record_wire_size (length k) (length v) + n) (Suc m)"
  obtains r log' d' where "rl_append_record env crc log d rt k v = (Inr (ref_of_record r), log', d')"
    "rl_inv crc log' d'" "log_records crc d' = log_records crc d @ [r]" "room log' n m"
    "rc_type r = rt" "rc_key r = k" "rc_payload r = v" "rc_len r = record_wire_size (length k) (length v)"
    "rl_lock log' = rl_lock log"
proof -
  let ?f = "append_frame log rt k v"
  have f: "frame_ok ?f" "wire_len ?f = record_wire_size (length k) (length v)"
    using ok by (simp_all add: frame_ok_def append_frame_def wire_len_def)
  obtain t where t: "checked_succ (rl_next_txid log) = Some t" "unat t = Suc (unat (rl_next_txid log))"
    using room_succ [OF rm] .
  have sz: "rl_active_size log + wire_len ?f < 2 ^ 64" using rm f(2) by (simp add: room_def)
  note A = append_record_ok [OF inv f(1) all_io_works [OF io] sz t(1)]
  show ?thesis
  proof (rule that [OF A(1,2,3)])
    show "room (log\<lparr>rl_active_size := rl_active_size log + wire_len ?f, rl_next_txid := t\<rparr>) n m"
      using rm t(2) f(2) by (simp add: room_def)
  qed (simp_all add: located_def append_frame_def wire_len_def)
qed

lemma put_room:
  assumes inv: "dw_inv crc w d" and io: "all_io env"
    and ok: "length k \<le> MAX_KEY_LEN" "length v \<le> MAX_PAYLOAD_LEN"
    and rm: "room (dw_log w) (record_wire_size (length k) (length v)) 1"
  shows "\<exists>w' d'. dw_put env crc w d k v = (Inr (), w', d')"
proof -
  have "rl_inv crc (dw_log w) d" using inv by (simp add: dw_inv_def)
  from append_room [OF this io ok, of 0 0] rm obtain r log' d' where
    "rl_append_record env crc (dw_log w) d Put k v = (Inr (ref_of_record r), log', d')"
    by (metis One_nat_def add.right_neutral)
  then show ?thesis by (simp add: dw_put_def)
qed

section \<open>Opening\<close>

lemma dw_open_contents:
  assumes io: "all_io env" and ok: "dir_ok d" and op: "openable d"
    and lk: "fl_try_lock_exclusive fl k fd = Some k'" and rec: "recoverable crc d"
  obtains w d' where "dw_open fl env crc pid fd k (Some d) = (Inr w, k', Some d')"
    "kd_inv crc w d'" "contents crc d' = contents crc d" "dw_log w = opened_log crc fd d'"
    "seg_ids d' = (if seg_ids d = [] then [1] else seg_ids d)" "recoverable crc d'"
    "log_records crc d' = log_records crc d"
    "\<And>sid. sid \<in> set (seg_ids d) \<Longrightarrow> seg_content d' sid = seg_content d sid"
proof -
  obtain d' where D: "dir_ok d'" "seg_ids d' = (if seg_ids d = [] then [1] else seg_ids d)"
    "log_records crc d' = log_records crc d" "recoverable crc d' = recoverable crc d"
    "\<And>sid. sid \<in> set (seg_ids d) \<Longrightarrow> seg_content d' sid = seg_content d sid"
    and O: "recoverable crc d \<Longrightarrow>
       rl_open fl env crc pid fd k (Some d) = (Inr (opened_log crc fd d'), k', Some d')"
    using rl_open_eq [OF io ok op lk, where crc = crc and pid = pid] by metis
  obtain m where m: "rebuild_keydir_lazy env crc d' = Inr m" "keydir_ok m (log_records crc d')"
    using rebuild_keydir_ok [OF io D(1), of crc] D(4) rec by blast
  let ?w = "\<lparr>dw_log = opened_log crc fd d', dw_map = m, dw_pool = with_capacity DEFAULT_CAPACITY\<rparr>"
  have "dw_open fl env crc pid fd k (Some d) = (Inr ?w, k', Some d')"
    using O [OF rec] m(1) by (simp add: dw_open_def)
  then show ?thesis
    using that [of ?w d'] D m(2) rec by (simp add: kd_inv_def contents_def)
qed

section \<open>Compaction\<close>

text \<open>Every successful \<open>open\<close>, whatever the operating system does.\<close>

lemma dw_open_Inr:
  assumes o: "dw_open fl env crc pid fd k (Some d) = (Inr w, k', dopt)" and ok: "dir_ok d"
  obtains d' where "dopt = Some d'" "kd_inv crc w d'" "dw_log w = opened_log crc fd d'" "recoverable crc d"
    "contents crc d' = contents crc d" "log_records crc d' = log_records crc d"
    "seg_ids d' = (if seg_ids d = [] then [1] else seg_ids d)"
    "\<And>sid. sid \<in> set (seg_ids d) \<Longrightarrow> seg_content d' sid = seg_content d sid"
    "seg_ids d = [] \<Longrightarrow> seg_content d' 1 = Some []"
proof -
  obtain log k1 d1 where r: "rl_open fl env crc pid fd k (Some d) = (Inr log, k1, d1)"
    using o by (auto simp: dw_open_def split: prod.splits sum.splits)
  obtain d' where D: "d1 = Some d'" "log = opened_log crc fd d'" "dir_ok d'" "recoverable crc d"
    "seg_ids d' = (if seg_ids d = [] then [1] else seg_ids d)" "log_records crc d' = log_records crc d"
    "\<And>sid. sid \<in> set (seg_ids d) \<Longrightarrow> seg_content d' sid = seg_content d sid"
    "seg_ids d = [] \<Longrightarrow> seg_content d' 1 = Some []"
    by (rule rl_open_Inr [OF r ok], rule that)
  obtain m where m: "rebuild_keydir_lazy env crc d' = Inr m"
    "w = \<lparr>dw_log = log, dw_map = m, dw_pool = with_capacity DEFAULT_CAPACITY\<rparr>" "dopt = Some d'"
    using o by (auto simp: dw_open_def r D(1) split: sum.splits)
  with rebuild_keydir_Inr [OF m(1)] D(2-8) show ?thesis
    by (intro that [of d']) (simp_all add: kd_inv_def contents_def)
qed

lemma dw_open_fresh:
  assumes o: "dw_open fl env crc pid fd k (Some d) = (Inr w, k', dopt)" and ok: "dir_ok d" and e: "seg_ids d = []"
  obtains d' where "dopt = Some d'" "dw_inv crc w d'" "contents crc d' = Map.empty" "rl_active_size (dw_log w) = 0"
    "rl_next_txid (dw_log w) = 1" "dw_log w = opened_log crc fd d'"
proof -
  obtain d' where O: "dopt = Some d'" "kd_inv crc w d'" "dw_log w = opened_log crc fd d'"
    "log_records crc d' = log_records crc d" "seg_ids d' = (if seg_ids d = [] then [1] else seg_ids d)"
    "seg_ids d = [] \<Longrightarrow> seg_content d' 1 = Some []"
    by (rule dw_open_Inr [OF o ok], rule that)
  note D = O(1-4) O(5,6) [simplified e, simplified]
  have s: "seg_frames crc d' 1 = []" "seg_tail crc d' 1 = []"
    using seg_splitI [of d' 1 crc "[]" "[]"] D(6) by simp_all
  have l: "log_records crc d' = []" using D(4) e by (simp add: log_records_def)
  have "rl_inv crc (opened_log crc fd d') d'"
    using D(2,5) s l by (intro opened_inv) (simp_all add: kd_inv_def)
  then show ?thesis
    using D s l by (intro that [of d'])
      (simp_all add: dw_inv_def contents_def opened_log_fields opened_next_txid_eq checked_succ_def)
qed

definition entry_size :: "(bytes \<rightharpoonup> bytes) \<Rightarrow> bytes \<Rightarrow> nat" where
  "entry_size m k = record_wire_size (length k) (length (the (m k)))"

lemma contents_frame_ok:
  assumes "contents crc d k = Some v"
  shows "length k \<le> MAX_KEY_LEN \<and> length v \<le> MAX_PAYLOAD_LEN"
proof -
  from assms obtain r where r: "live (log_records crc d) k = Some r" "v = rc_payload r"
    by (auto simp: contents_def view_def)
  from live_record [OF r(1)] log_record_at [of r crc d] r(2) show ?thesis
    by (auto simp: frame_ok_def frame_of_def)
qed

lemma copy_keys_contents:
  assumes "kd_inv crc w d" "all_io env" "all_io env'" "set ks \<subseteq> dom (contents crc d)"
    "rl_inv crc log0 d0" "room log0 (sum_list (map (entry_size (contents crc d)) ks)) (length ks)"
  shows "\<exists>p log1 d1 rs. copy_keys env env' crc d ks stats w log0 d0 =
      (Inr (stats\<lparr>cs_records_written := cs_records_written stats + length ks,
              cs_bytes_written := cs_bytes_written stats + sum_list (map rc_len rs)\<rparr>),
       w\<lparr>dw_pool := p\<rparr>, log1, d1)
    \<and> pool_inv p \<and> rl_inv crc log1 d1 \<and> rl_lock log1 = rl_lock log0
    \<and> log_records crc d1 = log_records crc d0 @ rs \<and> map rc_type rs = replicate (length ks) Put
    \<and> map rc_key rs = ks \<and> map (\<lambda>r. Some (rc_payload r)) rs = map (contents crc d) ks"
  using assms
proof (induction ks arbitrary: stats w log0 d0)
  case Nil
  then show ?case
    by (intro exI [of _ "dw_pool w"] exI [of _ log0] exI [of _ d0] exI [of _ "[]"]) (simp add: kd_inv_def)
next
  case (Cons k ks)
  from Cons.prems obtain v where v: "contents crc d k = Some v" by auto
  from get_live_contents [OF Cons.prems(1,2) v] obtain p where
    p: "get_live env crc w d k = (Inr v, w\<lparr>dw_pool := p\<rparr>)" "pool_inv p" by blast
  have rm: "room log0 (record_wire_size (length k) (length v)
      + sum_list (map (entry_size (contents crc d)) ks)) (Suc (length ks))"
  proof -
    have "entry_size (contents crc d) k = record_wire_size (length k) (length v)"
      using v by (simp add: entry_size_def)
    with Cons.prems(6) show ?thesis by simp
  qed
  obtain r log1 d1 where r: "rl_append_record env' crc log0 d0 Put k v = (Inr (ref_of_record r), log1, d1)"
    "rl_inv crc log1 d1" "log_records crc d1 = log_records crc d0 @ [r]"
    "room log1 (sum_list (map (entry_size (contents crc d)) ks)) (length ks)"
    "rc_type r = Put" "rc_key r = k" "rc_payload r = v" "rl_lock log1 = rl_lock log0"
    using append_room [OF Cons.prems(5,3) _ _ rm, of Put thesis] contents_frame_ok [OF v] by blast
  let ?stats = "stats\<lparr>cs_records_written := cs_records_written stats + 1,
      cs_bytes_written := cs_bytes_written stats + rc_len r\<rparr>"
  have C: "copy_keys env env' crc d (k # ks) stats w log0 d0 =
      copy_keys env env' crc d ks ?stats (w\<lparr>dw_pool := p\<rparr>) log1 d1"
    using p(1) r(1) by (simp add: ref_of_record_def)
  from Cons.IH [OF kd_inv_pool [OF Cons.prems(1) p(2)] Cons.prems(2,3) _ r(2,4), of ?stats] Cons.prems(4)
  obtain p' log2 d2 rs where I: "copy_keys env env' crc d ks ?stats (w\<lparr>dw_pool := p\<rparr>) log1 d1 =
      (Inr (?stats\<lparr>cs_records_written := cs_records_written ?stats + length ks,
              cs_bytes_written := cs_bytes_written ?stats + sum_list (map rc_len rs)\<rparr>),
       w\<lparr>dw_pool := p'\<rparr>, log2, d2)"
    "pool_inv p'" "rl_inv crc log2 d2" "rl_lock log2 = rl_lock log1"
    "log_records crc d2 = log_records crc d1 @ rs" "map rc_type rs = replicate (length ks) Put"
    "map rc_key rs = ks" "map (\<lambda>r. Some (rc_payload r)) rs = map (contents crc d) ks"
    by auto
  show ?case
    unfolding C using I r v
    by (intro exI [of _ p'] exI [of _ log2] exI [of _ d2] exI [of _ "r # rs"]) simp
qed

lemma room_fresh:
  assumes "rl_active_size log = 0" "rl_next_txid log = 1" "sum_list (map (entry_size m) ks) < 2 ^ 64"
  shows "room log (sum_list (map (entry_size m) ks)) (length ks)"
proof -
  have "28 * length ks \<le> sum_list (map (entry_size m) ks)"
    by (induction ks) (simp_all add: entry_size_def record_wire_size_def wire_consts)
  with assms show ?thesis by (simp add: room_def)
qed

lemma openable_Nil [simp]: "openable []"
  by (simp add: openable_def)

lemma seg_ids_Nil [simp]: "seg_ids [] = []"
  by (simp add: seg_ids_def)

lemma all_Put: "map rc_type rs = replicate n Put \<Longrightarrow> x \<in> set rs \<Longrightarrow> rc_type x = Put"
  by (metis image_eqI in_set_replicate list.set_map)

text \<open>The view of a log that holds one \<open>Put\<close> per key.\<close>

lemma view_puts:
  assumes "distinct (map rc_key rs)" "\<forall>r\<in>set rs. rc_type r = Put"
  shows "view rs = map_of (map (\<lambda>r. (rc_key r, rc_payload r)) rs)"
  using assms
proof (induction rs rule: rev_induct)
  case (snoc r rs)
  then have "view (rs @ [r]) = (map_of (map (\<lambda>r. (rc_key r, rc_payload r)) rs))(rc_key r \<mapsto> rc_payload r)"
    by (simp add: view_snoc kv_step_def)
  moreover have "map_of (map (\<lambda>r. (rc_key r, rc_payload r)) rs) (rc_key r) = None"
    using snoc.prems(1) by (auto simp: map_of_eq_None_iff)
  ultimately show ?case
    by (auto simp: fun_eq_iff map_add_def split: option.splits)
qed simp

lemma map_of_keys:
  assumes "map rc_key rs = ks" "map (\<lambda>r. Some (rc_payload r)) rs = map m ks" "set ks = dom m"
  shows "map_of (map (\<lambda>r. (rc_key r, rc_payload r)) rs) = m"
proof
  fix k
  have p: "m (rc_key r) = Some (rc_payload r)" if "r \<in> set rs" for r
    using that assms(1,2) by (metis (no_types, lifting) comp_apply list.map_comp map_eq_conv)
  show "map_of (map (\<lambda>r. (rc_key r, rc_payload r)) rs) k = m k"
  proof (cases "k \<in> dom m")
    case False
    then have "k \<notin> set (map rc_key rs)" using assms(1,3) by simp
    then have "map_of (map (\<lambda>r. (rc_key r, rc_payload r)) rs) k = None"
      by (auto simp: map_of_eq_None_iff)
    with False show ?thesis by (auto simp: domIff)
  next
    case True
    then have "k \<in> fst ` set (map (\<lambda>r. (rc_key r, rc_payload r)) rs)"
      using assms(1,3) by (auto simp: image_image)
    then obtain v where v: "map_of (map (\<lambda>r. (rc_key r, rc_payload r)) rs) k = Some v"
      by (metis domD dom_map_of_conv_image_fst)
    with p show ?thesis by (auto dest!: map_of_SomeD)
  qed
qed

lemma compact_to_contents:
  assumes inv: "kd_inv crc w d" and io: "all_io env" "all_io env'"
    and lk: "fl_try_lock_exclusive fl k fd = Some k'" and out: "out = None \<or> out = Some []"
    and sz: "sum_list (map (entry_size (contents crc d)) (dw_keys w)) < 2 ^ 64"
  obtains p stats out' rs where
    "dw_compact_to fl env env' crc pid fd k w d out =
       (Inr stats, w\<lparr>dw_pool := p\<rparr>, dir_lock_drop fl k' fd, Some out')" "pool_inv p"
    "contents crc out' = contents crc d" "log_records crc out' = rs"
    "map rc_key rs = sort (dw_keys w)" "\<forall>r\<in>set rs. rc_type r = Put"
    "stats = \<lparr>cs_live_keys = length rs, cs_records_written = length rs,
       cs_bytes_written = sum_list (map rc_len rs)\<rparr>"
    "dir_ok out'" "recoverable crc out'"
proof -
  let ?ks = "sort (dw_keys w)"
  obtain log0 d0 where O: "rl_open fl env' crc pid fd k (Some []) = (Inr log0, k', Some d0)"
    "rl_inv crc log0 d0" "log_records crc d0 = []" "rl_active_size log0 = 0" "rl_next_txid log0 = 1"
    "rl_lock log0 = fd"
    using rl_open_fresh [OF io(2) dir_ok_Nil openable_Nil lk seg_ids_Nil, of crc pid] by metis
  have Oo: "rl_open fl env' crc pid fd k out = (Inr log0, k', Some d0)"
    using out O(1) rl_open_missing [of env' fl crc pid fd k] io(2) by auto
  have K: "set ?ks = dom (contents crc d)" "distinct ?ks" using keys_contents [OF inv] by simp_all
  have "sum_list (map (entry_size (contents crc d)) ?ks) = sum_list (map (entry_size (contents crc d)) (dw_keys w))"
    unfolding sum_mset_sum_list [symmetric] mset_map by simp
  with sz have "sum_list (map (entry_size (contents crc d)) ?ks) < 2 ^ 64" by simp
  then have rm: "room log0 (sum_list (map (entry_size (contents crc d)) ?ks)) (length ?ks)"
    using O(4,5) by (intro room_fresh)
  let ?st = "\<lparr>cs_live_keys = 0, cs_records_written = 0, cs_bytes_written = 0\<rparr>"
  obtain p log1 d1 rs where C: "copy_keys env env' crc d ?ks ?st w log0 d0 =
      (Inr (?st\<lparr>cs_records_written := length ?ks, cs_bytes_written := sum_list (map rc_len rs)\<rparr>),
       w\<lparr>dw_pool := p\<rparr>, log1, d1)"
    "pool_inv p" "rl_inv crc log1 d1" "rl_lock log1 = fd" "log_records crc d1 = rs"
    "map rc_type rs = replicate (length ?ks) Put" "map rc_key rs = ?ks"
    "map (\<lambda>r. Some (rc_payload r)) rs = map (contents crc d) ?ks"
    using copy_keys_contents [OF inv io equalityD1 [OF K(1)] O(2) rm, of ?st] O(3,6) by auto
  have n: "length rs = length ?ks" using C(7) by (metis length_map)
  have put: "\<forall>r\<in>set rs. rc_type r = Put" using all_Put [OF C(6)] by blast
  have fs: "rl_fsync env' log1 = (Inr (), log1)"
    using io(2) rl_invD(7) [OF C(3)] by (simp add: rl_fsync_def check_poisoned_def)
  have cont: "contents crc d1 = contents crc d"
    using view_puts [of rs] C(5,7) put K(2) map_of_keys [OF C(7,8) K(1)] by (simp add: contents_def)
  have "dw_compact_to fl env env' crc pid fd k w d out =
      (Inr \<lparr>cs_live_keys = length rs, cs_records_written = length rs,
         cs_bytes_written = sum_list (map rc_len rs)\<rparr>, w\<lparr>dw_pool := p\<rparr>, dir_lock_drop fl k' fd, Some d1)"
    using out io C(1,4) Oo fs n by (auto simp: dw_compact_to_def rl_close_def Let_def)
  then show ?thesis
    using that [OF _ C(2) cont C(5,7) put refl rl_invD(1) [OF C(3)] rl_inv_recoverable [OF C(3)]] by simp
qed

section \<open>Writes that fail\<close>

text \<open>Whatever fails during an append, the log on disk is the old one or the new one.\<close>

lemma append_record_atomic:
  assumes inv: "rl_inv crc log d" and a: "rl_append_record env crc log d rt k v = (res, log', d')"
  shows "dir_ok d' \<and> recoverable crc d' \<and> (log_records crc d' = log_records crc d \<or>
    (\<exists>r. log_records crc d' = log_records crc d @ [r] \<and> rc_type r = rt \<and> rc_key r = k \<and> rc_payload r = v))"
proof (cases "frame_ok (append_frame log rt k v)")
  case False
  then have "d' = d" using a rl_invD(7) [OF inv]
    by (auto simp: rl_append_record_def check_poisoned_def encode_record_wire frame_ok_def append_frame_def
        Let_def split: if_splits)
  then show ?thesis using rl_invD(1) [OF inv] rl_inv_recoverable [OF inv] by simp
next
  case fok: True
  note I = rl_invD [OF inv]
  let ?f = "append_frame log rt k v"
  have enc: "encode_record crc rt (rl_next_txid log) k v = Inr (wire crc ?f)"
    using fok by (auto simp: encode_record_Inr append_frame_def)
  show ?thesis
  proof (cases "\<not> works env (WriteAll (rl_active_id log)) \<and> written env < wire_len ?f")
    case True
    with append_record_write_failed [OF inv fok] a show ?thesis by auto
  next
    case False
    then have "d' = append_file d (segment_name (last (seg_ids d))) (wire crc ?f)"
      using a enc I(3,7)
      by (auto simp: rl_append_record_def check_poisoned_def Let_def length_wire not_less
          split: if_splits option.splits)
    moreover have S: "dir_ok d" "seg_ids d \<noteq> []" "seg_tail crc d (last (seg_ids d)) = []"
      using I by simp_all
    moreover note A = append_stream [OF S, of "[?f]" "[]", simplified, OF fok]
    ultimately have D: "dir_ok d'" "seg_ids d' = seg_ids d"
      "log_records crc d' = log_records crc d @ [located (last (seg_ids d)) (length (seg_bytes d (last (seg_ids d)))) ?f]"
      "\<And>i. i \<in> set (seg_ids d) \<Longrightarrow> seg_tail crc d' i = []"
      using I(4) by (simp_all, metis)
    have "recoverable crc d'"
      using D(2,4) I(2) by (auto simp: recoverable_def recoverable_ids_iff dest: in_set_butlastD)
    with D(1,3) show ?thesis by (auto simp: located_def append_frame_def)
  qed
qed

lemma put_atomic:
  assumes inv: "dw_inv crc w d" and p: "dw_put env crc w d k v = (res, w', d')"
  shows "dir_ok d' \<and> recoverable crc d' \<and>
    (contents crc d' = contents crc d \<or> contents crc d' = (contents crc d)(k \<mapsto> v))"
proof -
  from p obtain r log' where a: "rl_append_record env crc (dw_log w) d Put k v = (r, log', d')"
    by (auto simp: dw_put_def split: prod.splits sum.splits)
  have "rl_inv crc (dw_log w) d" using inv by (simp add: dw_inv_def)
  from append_record_atomic [OF this a] show ?thesis
    by (auto simp: contents_def view_snoc kv_step_def)
qed

section \<open>Export\<close>

lemma export_loop_contents:
  assumes "kd_inv crc w d" "all_io env" "set ks \<subseteq> dom (contents crc d)"
  shows "\<exists>p. export_loop env crc b64 json_row d ks buf w =
      (Inr (buf @ concat (map (\<lambda>k. json_row (b64 k) (b64 (the (contents crc d k))) @ ''\<newline>'') ks)), w\<lparr>dw_pool := p\<rparr>)"
  using assms
proof (induction ks arbitrary: buf w)
  case Nil
  then show ?case by (intro exI [of _ "dw_pool w"]) simp
next
  case (Cons k ks)
  from Cons.prems obtain v where v: "contents crc d k = Some v" by auto
  from get_live_contents [OF Cons.prems(1,2) v] obtain p where
    p: "get_live env crc w d k = (Inr v, w\<lparr>dw_pool := p\<rparr>)" "pool_inv p" by blast
  from Cons.IH [OF kd_inv_pool [OF Cons.prems(1) p(2)] Cons.prems(2), of "buf @ json_row (b64 k) (b64 v) @ ''\<newline>''"]
    Cons.prems(3) p v show ?case by auto
qed

text \<open>A consumer of the file: its lines, and the entry a line stands for.\<close>

fun split_lines :: "string \<Rightarrow> string \<Rightarrow> string list" where
  "split_lines acc [] = (if acc = [] then [] else [acc])"
| "split_lines acc (c # cs) =
     (if c = CHR 0x0A then acc # split_lines [] cs else split_lines (acc @ [c]) cs)"

definition jsonl_entry ::
  "(string \<Rightarrow> bytes option) \<Rightarrow> (string \<Rightarrow> (string \<times> string) option) \<Rightarrow> string \<Rightarrow> (bytes \<times> bytes) option" where
  "jsonl_entry b64_dec parse_row line =
     (case parse_row line of None \<Rightarrow> None
      | Some (a, b) \<Rightarrow>
          (case (b64_dec a, b64_dec b) of (Some k, Some v) \<Rightarrow> Some (k, v) | _ \<Rightarrow> None))"

lemma split_lines_row:
  "CHR 0x0A \<notin> set row \<Longrightarrow> split_lines acc (row @ CHR 0x0A # rest) = (acc @ row) # split_lines [] rest"
  by (induction row arbitrary: acc) auto

lemma split_lines_concat:
  "\<forall>r\<in>set rows. CHR 0x0A \<notin> set r \<Longrightarrow> split_lines [] (concat (map (\<lambda>r. r @ ''\<newline>'') rows)) = rows"
  by (induction rows) (simp_all add: split_lines_row)

lemma export_entries:
  assumes inv: "kd_inv crc w d" and io: "all_io env"
    and b64: "\<And>bs. b64_dec (b64 bs) = Some bs"
    and row: "\<And>a b. parse_row (json_row (b64 a) (b64 b)) = Some (b64 a, b64 b)"
    and nl: "\<And>a b. CHR 0x0A \<notin> set (json_row (b64 a) (b64 b))"
  shows "\<exists>p text. dw_export_jsonl env crc b64 json_row has_parent w d target =
      (Inr (), w\<lparr>dw_pool := p\<rparr>, Some text)
    \<and> map (jsonl_entry b64_dec parse_row) (split_lines [] text) =
      map (\<lambda>k. Some (k, the (contents crc d k))) (sort (dw_keys w))"
proof -
  let ?ks = "sort (dw_keys w)" and ?row = "\<lambda>k. json_row (b64 k) (b64 (the (contents crc d k)))"
  have "set ?ks \<subseteq> dom (contents crc d)" using keys_contents [OF inv] by simp
  from export_loop_contents [OF inv io this, of b64 json_row "[]"] obtain p where
    p: "export_loop env crc b64 json_row d ?ks [] w =
      (Inr (concat (map (\<lambda>r. r @ ''\<newline>'') (map ?row ?ks))), w\<lparr>dw_pool := p\<rparr>)"
    by (auto simp: comp_def)
  have "split_lines [] (concat (map (\<lambda>r. r @ ''\<newline>'') (map ?row ?ks))) = map ?row ?ks"
    using nl by (intro split_lines_concat) auto
  with p io show ?thesis
    by (intro exI [of _ p] exI [of _ "concat (map (\<lambda>r. r @ ''\<newline>'') (map ?row ?ks))"])
      (simp add: dw_export_jsonl_def jsonl_entry_def row b64 comp_def)
qed

end
