(* ===== verification/Crash_Image.thy ===== *)
theory Crash_Image
  imports Data_Wal_Correct
begin

text \<open>
  What a crash leaves of a writer's directory (canon 9a).  \<open>append\<close> hands bytes to the page
  cache, \<open>fsync\<close> and \<open>rotate\<close> force the active segment.  A crash may cut the last
  segment anywhere behind its forced part, and may lose the directory entry of a last
  segment that is still empty; sealed segments were forced when they were sealed.  The
  ghost \<open>wl_synced\<close> counts the bytes of the last segment known to be on stable storage.
\<close>

record wal =
  wl_log :: record_log
  wl_dir :: dir
  wl_synced :: nat

text \<open>The last segment cut to \<open>m\<close> bytes, or lost; the records that are certainly durable.\<close>

definition cut_active :: "dir \<Rightarrow> nat \<Rightarrow> dir" where
  "cut_active d m = put_file d (segment_name (last (seg_ids d))) (take m (seg_bytes d (last (seg_ids d))))"

definition lose_active :: "dir \<Rightarrow> dir" where
  "lose_active d = AList.delete (Utf8 (segment_name (last (seg_ids d)))) d"

definition durable_records :: "(bytes \<Rightarrow> u32) \<Rightarrow> wal \<Rightarrow> log_record list" where
  "durable_records crc s = log_records crc (cut_active (wl_dir s) (wl_synced s))"

definition crash :: "wal \<Rightarrow> dir \<Rightarrow> bool" where
  "crash s d' \<longleftrightarrow> (\<exists>m. wl_synced s \<le> m \<and> d' = cut_active (wl_dir s) m)
     \<or> (seg_bytes (wl_dir s) (last (seg_ids (wl_dir s))) = [] \<and> d' = lose_active (wl_dir s))"

section \<open>Cutting the active segment\<close>

lemma cut_seg_content:
  assumes "dir_ok d" "seg_ids d \<noteq> []"
  shows "seg_content (cut_active d m) i =
    (if i = last (seg_ids d) then Some (take m (seg_bytes d i)) else seg_content d i)"
  by (auto simp: cut_active_def seg_content_def file_content_put)

lemma cut_seg_ids:
  assumes "dir_ok d" "seg_ids d \<noteq> []"
  shows "dir_ok (cut_active d m)" "seg_ids (cut_active d m) = seg_ids d"
proof -
  show ok: "dir_ok (cut_active d m)" using assms(1) by (simp add: cut_active_def)
  show "seg_ids (cut_active d m) = seg_ids d"
    using assms ok last_seg_content [OF assms]
    by (intro seg_ids_eqI) (auto simp: set_seg_ids cut_seg_content)
qed

lemma stream_concat: "stream crc fs = concat (map (wire crc) fs)"
  by (simp add: stream_def)

text \<open>
  What a writer leaves in a directory at any moment: sealed segments end with a frame,
  and the last one ends with a frame or inside one.
\<close>

definition writer_image :: "(bytes \<Rightarrow> u32) \<Rightarrow> dir \<Rightarrow> bool" where
  "writer_image crc d \<longleftrightarrow> dir_ok d \<and> seg_ids d \<noteq> []
     \<and> (\<forall>sid\<in>set (butlast (seg_ids d)). seg_tail crc d sid = [])
     \<and> (\<exists>f n. frame_ok f \<and> n < wire_len f \<and> seg_tail crc d (last (seg_ids d)) = take n (wire crc f))"

lemma writer_imageD:
  assumes "writer_image crc d"
  shows "dir_ok d" "seg_ids d \<noteq> []" "\<And>sid. sid \<in> set (butlast (seg_ids d)) \<Longrightarrow> seg_tail crc d sid = []"
    "\<exists>f n. frame_ok f \<and> n < wire_len f \<and> seg_tail crc d (last (seg_ids d)) = take n (wire crc f)"
  using assms by (simp_all add: writer_image_def)

lemma writer_image_recoverable: "writer_image crc d \<Longrightarrow> recoverable crc d"
  using tail_of_torn by (fastforce simp: writer_image_def recoverable_def recoverable_ids_iff)

lemma rl_inv_image:
  assumes "rl_inv crc log d"
  shows "writer_image crc d"
proof -
  let ?f = "\<lparr>fr_type = Raw, fr_txid = 0, fr_key = [], fr_payload = []\<rparr>"
  have "frame_ok ?f" by (simp add: frame_ok_def)
  moreover have "0 < wire_len ?f" using wire_len_ge [of ?f] by simp
  moreover have "seg_tail crc d (last (seg_ids d)) = take 0 (wire crc ?f)"
    using rl_invD(2,4) [OF assms] by simp
  ultimately show ?thesis
    using rl_invD(1,2,4) [OF assms] unfolding writer_image_def by (blast dest: in_set_butlastD)
qed

lemma stream_take_mono: "i \<le> j \<Longrightarrow> length (stream crc (take i fs)) \<le> length (stream crc (take j fs))"
proof -
  assume "i \<le> j"
  then have "take j fs = take i fs @ take (j - i) (drop i fs)" by (metis le_add_diff_inverse take_add)
  then show ?thesis by simp
qed

lemma stream_take_less:
  assumes "i < j" "i < length fs"
  shows "length (stream crc (take i fs)) < length (stream crc (take j fs))"
proof -
  have "length (stream crc (take i fs)) < length (stream crc (take (Suc i) fs))"
    using assms(2) wire_len_ge [of "fs ! i"] by (simp add: take_Suc_conv_app_nth length_wire)
  also have "\<dots> \<le> length (stream crc (take j fs))" using assms(1) by (intro stream_take_mono) simp
  finally show ?thesis .
qed

text \<open>Cutting a writer's file leaves a prefix of its frames and, at most, a torn frame.\<close>

lemma take_image:
  assumes "writer_image crc d"
  defines "a \<equiv> last (seg_ids d)"
  defines "fs \<equiv> seg_frames crc d a"
  obtains i t where "take m (seg_bytes d a) = stream crc (take i fs) @ t" "parse_frame crc t = None"
    "tolerated (tail_of crc t)" "i < length fs \<Longrightarrow> m < length (stream crc (take (Suc i) fs))"
proof -
  from writer_imageD(4) [OF assms(1)] obtain f n where
    f: "frame_ok f" "n < wire_len f" "seg_tail crc d a = take n (wire crc f)"
    unfolding a_def by blast
  let ?gs = "fs @ [f]" let ?m = "min m (length (stream crc fs) + n)"
  have b: "seg_bytes d a = stream crc fs @ take n (wire crc f)"
    using seg_split(1) [of d a crc] f(3) by (simp add: fs_def)
  have gs: "list_all frame_ok ?gs" using seg_split(2) [of crc d a] f(1) by (simp add: fs_def)
  have tk: "take m (seg_bytes d a) = take ?m (stream crc ?gs)"
    unfolding b using f(2) by (cases "m \<le> length (stream crc fs) + n") (auto simp: min_def)
  obtain i t where i: "i \<le> length ?gs" "take ?m (stream crc ?gs) = stream crc (take i ?gs) @ t"
    "parse_frame crc t = None"
    "t = [] \<or> (i < length ?gs \<and> (\<exists>n. 0 < n \<and> n < length (wire crc (?gs ! i)) \<and> t = take n (wire crc (?gs ! i))))"
    using wf.take_stream [OF gs, where m = ?m and crc = crc] unfolding stream_concat by blast
  have len: "length (take m (seg_bytes d a)) = length (stream crc (take i ?gs)) + length t"
    using tk i(2) by simp
  have le: "i \<le> length fs"
  proof (rule ccontr)
    assume "\<not> i \<le> length fs"
    then have "length (stream crc (take i ?gs)) = length (stream crc fs) + wire_len f"
      by (simp add: length_wire)
    moreover have "length (take m (seg_bytes d a)) \<le> length (stream crc fs) + n" unfolding b by simp
    ultimately show False using len f(2) by linarith
  qed
  then have ti: "take i ?gs = take i fs" by simp
  show ?thesis
  proof (rule that)
    show "take m (seg_bytes d a) = stream crc (take i fs) @ t" using tk i(2) ti by simp
    show "parse_frame crc t = None" by (rule i(3))
    show "tolerated (tail_of crc t)"
    proof (cases "t = []")
      case False
      with i(4) obtain n where n: "i < length ?gs" "n < length (wire crc (?gs ! i))" "t = take n (wire crc (?gs ! i))"
        by blast
      have "frame_ok (?gs ! i)" using gs n(1) by (simp add: list_all_length)
      with n show ?thesis using tail_of_torn [of "?gs ! i" n crc crc] by (simp add: length_wire)
    qed simp
    show "m < length (stream crc (take (Suc i) fs))" if lt: "i < length fs"
    proof (rule ccontr)
      assume m: "\<not> m < length (stream crc (take (Suc i) fs))"
      have "length t < wire_len (fs ! i)"
        using i(4) lt wire_len_ge [of "fs ! i"] by (auto simp: length_wire nth_append)
      moreover have "length (stream crc (take (Suc i) fs)) = length (stream crc (take i fs)) + wire_len (fs ! i)"
        using lt by (simp add: take_Suc_conv_app_nth length_wire)
      moreover have "length (stream crc (take (Suc i) fs)) \<le> length (seg_bytes d a)"
        using stream_take_mono [of "Suc i" "length fs" crc fs] lt b by simp
      ultimately show False using len ti m by simp
    qed
  qed
qed

lemma cut_active_frames:
  assumes inv: "writer_image crc d"
  defines "a \<equiv> last (seg_ids d)"
  obtains i where
    "log_records crc (cut_active d m) = ids_records crc d (butlast (seg_ids d)) @ place a 0 (take i (seg_frames crc d a))"
    "recoverable crc (cut_active d m)" "length (stream crc (take i (seg_frames crc d a))) \<le> m"
    "i < length (seg_frames crc d a) \<Longrightarrow> m < length (stream crc (take (Suc i) (seg_frames crc d a)))"
proof -
  note I = writer_imageD [OF inv]
  let ?fs = "seg_frames crc d a" and ?d = "cut_active d m"
  obtain i t where i: "take m (seg_bytes d a) = stream crc (take i ?fs) @ t" "parse_frame crc t = None"
    "tolerated (tail_of crc t)" "i < length ?fs \<Longrightarrow> m < length (stream crc (take (Suc i) ?fs))"
    using take_image [OF inv, of m thesis] unfolding a_def by blast
  have ok: "list_all frame_ok (take i ?fs)"
    using seg_split(2) [of crc d a] by (auto simp: list_all_iff dest: in_set_takeD)
  have c: "seg_content ?d a = Some (stream crc (take i ?fs) @ t)"
    using cut_seg_content [OF I(1,2), of m a] i(1) by (simp add: a_def)
  note S = seg_splitI [OF c ok i(2)]
  note C = cut_seg_ids [OF I(1,2), of m]
  have o: "j \<noteq> a \<Longrightarrow> seg_content ?d j = seg_content d j" for j
    using cut_seg_content [OF I(1,2)] by (simp add: a_def)
  have nb: "a \<notin> set (butlast (seg_ids d))"
    using last_not_in_butlast [OF seg_ids_distinct [OF I(1)] I(2)] by (simp add: a_def)
  have rest: "seg_tail crc ?d j = []" if j: "j \<in> set (butlast (seg_ids d))" for j
    using seg_tail_cong [OF o, of j crc] I(3) [OF j] nb j by metis
  show ?thesis
  proof (rule that [OF _ _ _ i(4)])
    have "ids_records crc ?d (butlast (seg_ids d)) = ids_records crc d (butlast (seg_ids d))"
      using nb by (intro ids_records_cong o) auto
    then show "log_records crc ?d = ids_records crc d (butlast (seg_ids d)) @ place a 0 (take i ?fs)"
      using I(2) S(1) C(2) by (simp add: log_records_last seg_records_def flip: a_def)
    show "recoverable crc ?d"
      using rest i(3) S(2) C(2) by (simp add: recoverable_def recoverable_ids_iff flip: a_def)
    show "length (stream crc (take i ?fs)) \<le> m"
      using arg_cong [OF i(1), of length] by (simp add: min_def split: if_splits)
  qed
qed

lemma prefix_place: "prefix (place sid off (take i fs)) (place sid off fs)"
proof -
  have "place sid off fs = place sid off (take i fs @ drop i fs)" by simp
  then show ?thesis unfolding place_append by (rule prefixI)
qed

lemma prefix_place_take: "i \<le> j \<Longrightarrow> prefix (place sid off (take i fs)) (place sid off (take j fs))"
  using prefix_place [of sid off i "take j fs"] by (simp add: min_def)

text \<open>At a frame boundary the cut leaves the frames before it.\<close>

lemma cut_at_boundary:
  assumes inv: "writer_image crc d"
  defines "a \<equiv> last (seg_ids d)"
  shows "log_records crc (cut_active d (length (stream crc (take i (seg_frames crc d a))))) =
    ids_records crc d (butlast (seg_ids d)) @ place a 0 (take i (seg_frames crc d a))"
proof -
  let ?fs = "seg_frames crc d a"
  obtain j where j: "log_records crc (cut_active d (length (stream crc (take i ?fs)))) =
      ids_records crc d (butlast (seg_ids d)) @ place a 0 (take j ?fs)"
    "length (stream crc (take j ?fs)) \<le> length (stream crc (take i ?fs))"
    "j < length ?fs \<Longrightarrow> length (stream crc (take i ?fs)) < length (stream crc (take (Suc j) ?fs))"
    using cut_active_frames [OF inv, where m = "length (stream crc (take i ?fs))" and thesis = thesis]
    unfolding a_def by blast
  have "take j ?fs = take i ?fs"
  proof (cases "j < i")
    case True
    show ?thesis
    proof (cases "j < length ?fs")
      case lt: True
      from j(3) [OF lt] stream_take_mono [of "Suc j" i crc ?fs] True show ?thesis by simp
    next
      case False
      with True show ?thesis by simp
    qed
  next
    case False
    show ?thesis
    proof (cases "i < j \<and> i < length ?fs")
      case True
      with j(2) stream_take_less [of i j ?fs crc] show ?thesis by simp
    next
      case nlt: False
      with False show ?thesis by auto
    qed
  qed
  with j(1) show ?thesis by simp
qed

section \<open>The invariant and what a crash leaves\<close>

text \<open>The forced bytes end with a frame.\<close>

definition forced :: "(bytes \<Rightarrow> u32) \<Rightarrow> wal \<Rightarrow> bool" where
  "forced crc s \<longleftrightarrow> writer_image crc (wl_dir s)
     \<and> (\<exists>i. wl_synced s = length (stream crc (take i (seg_frames crc (wl_dir s) (last (seg_ids (wl_dir s)))))))"

text \<open>A handle that is not poisoned satisfies the invariant of the log.\<close>

definition wal_inv :: "(bytes \<Rightarrow> u32) \<Rightarrow> wal \<Rightarrow> bool" where
  "wal_inv crc s \<longleftrightarrow> forced crc s \<and> (rl_poisoned (wl_log s) = None \<longrightarrow> rl_inv crc (wl_log s) (wl_dir s))"

lemma wal_invI:
  "rl_inv crc log d \<Longrightarrow> n = length (stream crc (take i (seg_frames crc d (last (seg_ids d))))) \<Longrightarrow>
   wal_inv crc \<lparr>wl_log = log, wl_dir = d, wl_synced = n\<rparr>"
  using rl_inv_image by (auto simp: wal_inv_def forced_def)

lemma durable_boundary:
  assumes "forced crc s"
  obtains i where "wl_synced s = length (stream crc (take i (seg_frames crc (wl_dir s) (last (seg_ids (wl_dir s))))))"
    "durable_records crc s = ids_records crc (wl_dir s) (butlast (seg_ids (wl_dir s)))
       @ place (last (seg_ids (wl_dir s))) 0 (take i (seg_frames crc (wl_dir s) (last (seg_ids (wl_dir s)))))"
proof -
  from assms have img: "writer_image crc (wl_dir s)" by (simp add: forced_def)
  from assms obtain i where
    "wl_synced s = length (stream crc (take i (seg_frames crc (wl_dir s) (last (seg_ids (wl_dir s))))))"
    by (auto simp: forced_def)
  with that [OF this] cut_at_boundary [OF img, of i] show ?thesis
    by (simp add: durable_records_def)
qed

lemma log_records_split:
  assumes "writer_image crc d"
  shows "log_records crc d = ids_records crc d (butlast (seg_ids d))
     @ place (last (seg_ids d)) 0 (seg_frames crc d (last (seg_ids d)))"
  using log_records_last [OF writer_imageD(2) [OF assms]] by (simp add: seg_records_def)

lemma crash_cut:
  assumes f: "forced crc s" and m: "wl_synced s \<le> m"
  defines "d' \<equiv> cut_active (wl_dir s) m"
  shows "recoverable crc d' \<and> prefix (durable_records crc s) (log_records crc d')
    \<and> prefix (log_records crc d') (log_records crc (wl_dir s))"
proof -
  let ?d = "wl_dir s" let ?a = "last (seg_ids ?d)" let ?fs = "seg_frames crc ?d ?a"
  from f have img: "writer_image crc ?d" by (simp add: forced_def)
  from durable_boundary [OF f] obtain i where i: "wl_synced s = length (stream crc (take i ?fs))"
    "durable_records crc s = ids_records crc ?d (butlast (seg_ids ?d)) @ place ?a 0 (take i ?fs)" .
  obtain j where j: "log_records crc d' = ids_records crc ?d (butlast (seg_ids ?d)) @ place ?a 0 (take j ?fs)"
    "recoverable crc d'" "j < length ?fs \<Longrightarrow> m < length (stream crc (take (Suc j) ?fs))"
    using cut_active_frames [OF img, where m = m and thesis = thesis] unfolding d'_def by blast
  have "prefix (place ?a 0 (take i ?fs)) (place ?a 0 (take j ?fs))"
  proof (cases "i \<le> j")
    case False
    have "\<not> j < length ?fs"
    proof
      assume lt: "j < length ?fs"
      from False have "length (stream crc (take (Suc j) ?fs)) \<le> wl_synced s"
        unfolding i(1) by (intro stream_take_mono) simp
      with j(3) [OF lt] m show False by simp
    qed
    with False show ?thesis by simp
  qed (rule prefix_place_take)
  then show ?thesis
    using j(1,2) i(2) log_records_split [OF img] prefix_place [of ?a 0 j ?fs] by simp
qed

lemma durable_prefix: "forced crc s \<Longrightarrow> prefix (durable_records crc s) (log_records crc (wl_dir s))"
  using crash_cut [of crc s "wl_synced s"] by (auto intro: prefix_order.trans)

lemma seg_frames_empty: "seg_bytes d i = [] \<Longrightarrow> seg_frames crc d i = []"
  using split_frames_stream [of "[]" crc "[]"] by (simp add: seg_frames_def)

lemma lose_seg_content:
  "seg_content (lose_active d) i = (if i = last (seg_ids d) then None else seg_content d i)"
  by (auto simp: lose_active_def seg_content_def file_content_def delete_conv')

lemma crash_lose:
  assumes img: "writer_image crc d" and e: "seg_bytes d (last (seg_ids d)) = []"
  shows "dir_ok (lose_active d)" "recoverable crc (lose_active d)"
    "log_records crc (lose_active d) = log_records crc d"
proof -
  note I = writer_imageD [OF img]
  let ?d = "lose_active d"
  show ok: "dir_ok ?d" using I(1) by (simp add: lose_active_def dir_ok_def distinct_delete)
  have nb: "last (seg_ids d) \<notin> set (butlast (seg_ids d))"
    by (rule last_not_in_butlast [OF seg_ids_distinct [OF I(1)] I(2)])
  have mem: "i \<in> set (butlast (seg_ids d)) \<longleftrightarrow> i \<in> set (seg_ids d) \<and> i \<noteq> last (seg_ids d)" for i
    using nb arg_cong [OF append_butlast_last_id [OF I(2)], of set] by auto
  have o: "seg_content ?d i = seg_content d i" if "i \<in> set (butlast (seg_ids d))" for i
    using that nb lose_seg_content by auto
  have ids: "seg_ids ?d = butlast (seg_ids d)"
  proof (rule seg_ids_eqI [OF ok])
    show "sorted (butlast (seg_ids d))" using I(1) by (intro sorted_butlast) (auto simp: I(2))
    show "distinct (butlast (seg_ids d))" using seg_ids_distinct [OF I(1)] by (rule distinct_butlast)
    show "set (butlast (seg_ids d)) = {i. i < 10 ^ 8 \<and> seg_content ?d i \<noteq> None}"
      using I(1) by (auto simp: mem set_seg_ids lose_seg_content)
  qed
  have "seg_records crc d (last (seg_ids d)) = []" using seg_frames_empty [OF e] by (simp add: seg_records_def)
  then show "log_records crc ?d = log_records crc d"
    using log_records_last [OF I(2), of crc] ids_records_cong [of "butlast (seg_ids d)" ?d d crc, OF o]
    by (simp add: log_records_def ids)
  have "seg_tail crc ?d i = []" if "i \<in> set (butlast (seg_ids d))" for i
    using seg_tail_cong [OF o [OF that]] I(3) [OF that] by metis
  then show "recoverable crc ?d"
    by (auto simp: recoverable_def recoverable_ids_iff ids dest: in_set_butlastD)
qed

lemma crash_image:
  assumes f: "forced crc s" and cr: "crash s d'"
  shows "dir_ok d'" "recoverable crc d'" "prefix (durable_records crc s) (log_records crc d')"
    "prefix (log_records crc d') (log_records crc (wl_dir s))"
proof -
  have img: "writer_image crc (wl_dir s)" using f by (simp add: forced_def)
  note I = writer_imageD [OF img]
  have "dir_ok d' \<and> recoverable crc d' \<and> prefix (durable_records crc s) (log_records crc d')
    \<and> prefix (log_records crc d') (log_records crc (wl_dir s))"
    using cr crash_cut [OF f] cut_seg_ids(1) [OF I(1,2)] crash_lose [OF img] durable_prefix [OF f]
    by (auto simp: crash_def)
  then show "dir_ok d'" "recoverable crc d'" "prefix (durable_records crc s) (log_records crc d')"
    "prefix (log_records crc d') (log_records crc (wl_dir s))" by auto
qed

lemma openable_lose [simp]: "openable d \<Longrightarrow> openable (lose_active d)"
  by (auto simp: openable_def lose_active_def delete_conv' split: if_splits)

lemma crash_openable: "crash s d' \<Longrightarrow> openable (wl_dir s) \<Longrightarrow> openable d'"
  by (auto simp: crash_def cut_active_def)

end
