(* ===== verification/Durability.thy ===== *)
theory Durability
  imports Crash_Image
begin

text \<open>
  The calls of a live writer as steps, with every result they may have: a failing
  \<open>write_all\<close> leaves a part of a frame, a failing \<open>rotate\<close> an empty segment, and a
  \<open>sync_all\<close> that failed forces nothing (\<open>formal/RecordLog.tla\<close>).  Every step keeps what
  is durable, adds only records that were asked for, and leaves a directory that a crash
  may cut anywhere behind the forced bytes.
\<close>

datatype writer_call = CallAppend record_type bytes bytes | CallFsync | CallScan | CallRotate

text \<open>Segment ids stay below the width of the file names; what happens there is a property of its own.\<close>

inductive wal_step :: "(bytes \<Rightarrow> u32) \<Rightarrow> wal \<Rightarrow> writer_call \<Rightarrow> wal \<Rightarrow> bool" for crc where
  appended: "rl_append_record env crc log d rt k v = (res, log', d') \<Longrightarrow>
    wal_step crc \<lparr>wl_log = log, wl_dir = d, wl_synced = n\<rparr> (CallAppend rt k v)
      \<lparr>wl_log = log', wl_dir = d', wl_synced = n\<rparr>"
| synced: "rl_fsync env log = (res, log') \<Longrightarrow>
    wal_step crc \<lparr>wl_log = log, wl_dir = d, wl_synced = n\<rparr> CallFsync
      \<lparr>wl_log = log', wl_dir = d,
       wl_synced = (case res of Inr _ \<Rightarrow> length (seg_bytes d (rl_active_id log)) | Inl _ \<Rightarrow> n)\<rparr>"
| scanned: "rl_scan env crc log d = (res, log') \<Longrightarrow>
    wal_step crc \<lparr>wl_log = log, wl_dir = d, wl_synced = n\<rparr> CallScan
      \<lparr>wl_log = log', wl_dir = d, wl_synced = n\<rparr>"
| rotated: "rl_rotate env log d = (res, log', d') \<Longrightarrow> rl_active_id log' < 10 ^ 8 \<Longrightarrow>
    wal_step crc \<lparr>wl_log = log, wl_dir = d, wl_synced = n\<rparr> CallRotate
      \<lparr>wl_log = log', wl_dir = d', wl_synced = (if seg_ids d' = seg_ids d then n else 0)\<rparr>"

inductive_cases wal_stepE: "wal_step crc s c t"

inductive wal_run :: "(bytes \<Rightarrow> u32) \<Rightarrow> wal \<Rightarrow> writer_call list \<Rightarrow> wal \<Rightarrow> bool" for crc s where
  wr_refl: "wal_run crc s [] s"
| wr_step: "wal_run crc s cs t \<Longrightarrow> wal_step crc t c u \<Longrightarrow> wal_run crc s (cs @ [c]) u"

text \<open>What the calls ask the log to hold.\<close>

fun appended_by :: "writer_call \<Rightarrow> (record_type \<times> bytes \<times> bytes) list" where
  "appended_by (CallAppend rt k v) = [(rt, k, v)]"
| "appended_by c = []"

definition rec_content :: "log_record \<Rightarrow> record_type \<times> bytes \<times> bytes" where
  "rec_content r = (rc_type r, rc_key r, rc_payload r)"

section \<open>Steps keep the invariant and what is durable\<close>

lemma synced_start: "rl_inv crc log d \<Longrightarrow> wal_inv crc \<lparr>wl_log = log, wl_dir = d, wl_synced = 0\<rparr>"
  by (rule wal_invI [where i = 0]) simp_all

lemma fsync_Inr: "rl_fsync env log = (Inr (), log') \<Longrightarrow> log' = log"
  by (auto simp: rl_fsync_def split: sum.splits if_splits)

lemma fsynced_all:
  assumes inv: "rl_inv crc log d"
  defines "s \<equiv> \<lparr>wl_log = log, wl_dir = d, wl_synced = length (seg_bytes d (rl_active_id log))\<rparr>"
  shows "wal_inv crc s" "durable_records crc s = log_records crc d"
proof -
  note I = rl_invD [OF inv]
  let ?fs = "seg_frames crc d (last (seg_ids d))"
  have b: "seg_bytes d (rl_active_id log) = stream crc ?fs"
    using seg_split(1) [of d "rl_active_id log" crc] I(2,3,4) by simp
  then show "wal_inv crc s" unfolding s_def by (intro wal_invI [OF inv, of _ "length ?fs"]) simp
  show "durable_records crc s = log_records crc d"
    using cut_at_boundary [OF rl_inv_image [OF inv], of "length ?fs"] b
      log_records_split [OF rl_inv_image [OF inv]]
    by (simp add: durable_records_def s_def)
qed

text \<open>A write behind the frames of the last segment keeps the forced bytes what they are.\<close>

definition grows :: "(bytes \<Rightarrow> u32) \<Rightarrow> dir \<Rightarrow> dir \<Rightarrow> bool" where
  "grows crc d d' \<longleftrightarrow> seg_ids d' = seg_ids d \<and> writer_image crc d'
     \<and> (\<forall>i\<in>set (butlast (seg_ids d)). seg_content d' i = seg_content d i)
     \<and> prefix (seg_frames crc d (last (seg_ids d))) (seg_frames crc d' (last (seg_ids d)))"

lemma grows_refl: "writer_image crc d \<Longrightarrow> grows crc d d"
  by (simp add: grows_def)

lemma grows_durable:
  assumes f: "forced crc \<lparr>wl_log = log, wl_dir = d, wl_synced = n\<rparr>" and g: "grows crc d d'"
  shows "forced crc \<lparr>wl_log = log', wl_dir = d', wl_synced = n\<rparr>"
    "durable_records crc \<lparr>wl_log = log', wl_dir = d', wl_synced = n\<rparr> =
     durable_records crc \<lparr>wl_log = log, wl_dir = d, wl_synced = n\<rparr>"
proof -
  let ?a = "last (seg_ids d)" let ?fs = "seg_frames crc d ?a"
  from g obtain gs where G: "seg_ids d' = seg_ids d" "writer_image crc d'"
    "\<forall>i\<in>set (butlast (seg_ids d)). seg_content d' i = seg_content d i" "seg_frames crc d' ?a = ?fs @ gs"
    by (auto simp: grows_def prefix_def)
  from durable_boundary [OF f] obtain i where i: "n = length (stream crc (take i ?fs))"
    "durable_records crc \<lparr>wl_log = log, wl_dir = d, wl_synced = n\<rparr> =
      ids_records crc d (butlast (seg_ids d)) @ place ?a 0 (take i ?fs)"
    by auto
  let ?i = "min i (length ?fs)"
  have tk: "take ?i (?fs @ gs) = take i ?fs" by (simp add: min_def)
  then have n: "n = length (stream crc (take ?i (seg_frames crc d' (last (seg_ids d')))))" using i(1) G by simp
  with G(2) show "forced crc \<lparr>wl_log = log', wl_dir = d', wl_synced = n\<rparr>" by (auto simp: forced_def)
  have "ids_records crc d' (butlast (seg_ids d)) = ids_records crc d (butlast (seg_ids d))"
    using G(3) by (intro ids_records_cong) simp
  then show "durable_records crc \<lparr>wl_log = log', wl_dir = d', wl_synced = n\<rparr> =
      durable_records crc \<lparr>wl_log = log, wl_dir = d, wl_synced = n\<rparr>"
    using cut_at_boundary [OF G(2), of ?i] G(1,4) tk i(2) n by (simp add: durable_records_def)
qed

text \<open>Any result of \<open>append_record\<close>: nothing happened, or some bytes of the frame arrived.\<close>

lemma append_effect:
  assumes inv: "rl_inv crc log d" and a: "rl_append_record env crc log d rt k v = (res, log', d')"
  defines "f \<equiv> append_frame log rt k v"
  shows "(log' = log \<and> d' = d) \<or> (\<exists>n. frame_ok f \<and> n \<le> wire_len f
    \<and> d' = append_file d (segment_name (last (seg_ids d))) (take n (wire crc f))
    \<and> (rl_poisoned log' = None \<longrightarrow> rl_inv crc log' d'))"
proof (cases res)
  case (Inr r)
  note D = append_record_InrD [OF inv a [unfolded Inr]]
  from D(4) obtain t where t: "checked_succ (rl_next_txid log) = Some t" by blast
  note A = append_record_ok [OF inv D(1,2,3) t]
  have "d' = append_file d (segment_name (last (seg_ids d))) (take (wire_len f) (wire crc f)) \<and> rl_inv crc log' d'"
    using a A(1,2) rl_invD(3) [OF inv] by (simp add: f_def length_wire)
  then show ?thesis using D(1) unfolding f_def by blast
next
  case (Inl e)
  let ?app = "\<lambda>n. append_file d (segment_name (last (seg_ids d))) (take n (wire crc f))"
  have "(log' = log \<and> d' = d) \<or> (frame_ok f \<and> rl_poisoned log' \<noteq> None
      \<and> (d' = ?app (written env) \<or> d' = ?app (wire_len f)))"
    using a rl_invD(3) [OF inv]
    by (auto simp: Inl rl_append_record_def check_poisoned_def Let_def encode_record_Inr f_def append_frame_def length_wire
        split: option.splits if_splits sum.splits)
  moreover have "?app (written env) = ?app (min (written env) (wire_len f))"
    by (simp add: min_def length_wire)
  ultimately show ?thesis by (metis min.cobounded2 order_refl)
qed

lemma append_part:
  assumes inv: "rl_inv crc log d" and f: "frame_ok f" and n: "n \<le> wire_len f"
  defines "a \<equiv> last (seg_ids d)"
  defines "d' \<equiv> append_file d (segment_name a) (take n (wire crc f))"
  shows "grows crc d d'"
    "log_records crc d' = log_records crc d @ (if n = wire_len f then [located a (length (seg_bytes d a)) f] else [])"
proof -
  note I = rl_invD [OF inv]
  let ?gs = "if n = wire_len f then [f] else []" let ?t = "if n = wire_len f then [] else take n (wire crc f)"
  have tl: "seg_tail crc d a = []" using I(2,4) by (simp add: a_def)
  have gs: "list_all frame_ok ?gs" and t: "parse_frame crc ?t = None"
    using f n parse_torn [of f n crc] by auto
  have d': "d' = append_file d (segment_name a) (stream crc ?gs @ ?t)"
    using n by (simp add: d'_def length_wire)
  note F = append_stream [OF I(1,2) tl [unfolded a_def] gs t, folded a_def, folded d']
  have nb: "a \<notin> set (butlast (seg_ids d))"
    using last_not_in_butlast [OF seg_ids_distinct [OF I(1)] I(2)] by (simp add: a_def)
  have "writer_image crc d'"
    unfolding writer_image_def F(1)
  proof (intro conjI ballI)
    show "seg_tail crc d' i = []" if "i \<in> set (butlast (seg_ids d))" for i
      using F(5) [of i] that nb I(4) [OF in_set_butlastD [OF that]] by auto
    have "0 < wire_len f" using wire_len_ge [of f] by simp
    then have "(if n = wire_len f then 0 else n) < wire_len f"
      "seg_tail crc d' (last (seg_ids d)) = take (if n = wire_len f then 0 else n) (wire crc f)"
      using n F(4) by (auto simp: a_def)
    with f show "\<exists>f n. frame_ok f \<and> n < wire_len f \<and> seg_tail crc d' (last (seg_ids d)) = take n (wire crc f)"
      by blast
  qed (use F(2) I(2) in simp_all)
  then show "grows crc d d'"
    using F(1,7) nb by (auto simp: grows_def d'_def seg_content_append simp flip: a_def)
  show "log_records crc d' = log_records crc d @ (if n = wire_len f then [located a (length (seg_bytes d a)) f] else [])"
    using F(3) by simp
qed

section \<open>Scanning and rotating\<close>

lemma scan_Inr:
  assumes inv: "rl_inv crc log d" and s: "rl_scan env crc log d = (Inr rs, log')"
  shows "rl_inv crc log' d" "rs = log_records crc d" "rl_active_id log' = rl_active_id log"
proof -
  note I = rl_invD [OF inv]
  let ?m = "fold max (map rc_txid (log_records crc d)) 0"
  have ids: "list_segment_ids env d = Inr ids \<Longrightarrow> ids = seg_ids d" for ids
    by (auto simp: list_segment_ids_Inr)
  from s obtain si where si: "scan_all env crc d (seg_ids d) = Inr si" "rs = si_records si"
    "log' = log\<lparr>rl_next_txid := (case checked_succ (si_last_txid_seen si) of Some t \<Rightarrow> t | None \<Rightarrow> 1),
       rl_last_report := Some (into_public si)\<rparr>"
    using ids by (auto simp: rl_scan_def split: sum.splits)
  then have r: "si = scan_result crc d (seg_ids d) empty_scan" by (simp add: scan_all_iff)
  have f: "si_records si = log_records crc d" "si_last_txid_seen si = ?m"
    by (simp_all add: r scan_result_def empty_scan_def log_records_def Let_def)
  show "rs = log_records crc d" using si(2) f(1) by simp
  show "rl_active_id log' = rl_active_id log" using si(3) by simp
  have "?m \<noteq> - 1"
  proof
    assume m: "?m = - 1"
    then have "?m \<in> set (map rc_txid (log_records crc d))"
      using fold_max_in [of "map rc_txid (log_records crc d)" 0] by auto
    then obtain x where "x \<in> set (log_records crc d)" "rc_txid x = - 1" using m by auto
    with I(6) [of x] show False by (simp add: word_order.not_eq_extremum)
  qed
  then obtain t where t: "checked_succ ?m = Some t" by (simp add: checked_succ_def)
  have "rc_txid x < t" if "x \<in> set (log_records crc d)" for x
  proof -
    have "rc_txid x \<le> ?m" using that by (intro fold_max_ge) simp
    with checked_succ_less [OF t] show ?thesis by simp
  qed
  then show "rl_inv crc log' d" using I t f(2) si(3) by (simp add: rl_inv_def)
qed

lemma same_image:
  assumes img: "writer_image crc d" and ok: "dir_ok d'"
    and same: "\<And>i. i < 10 ^ 8 \<Longrightarrow> seg_content d' i = seg_content d i"
  shows "grows crc d d'" "log_records crc d' = log_records crc d"
proof -
  have ids: "seg_ids d' = seg_ids d"
    using writer_imageD(1) [OF img] ok same by (intro seg_ids_eqI) (auto simp: set_seg_ids)
  have c: "i \<in> set (seg_ids d) \<Longrightarrow> seg_content d' i = seg_content d i" for i by (rule same [OF seg_ids_less])
  have l: "last (seg_ids d) \<in> set (seg_ids d)" using writer_imageD(2) [OF img] by simp
  have "seg_tail crc d' i = seg_tail crc d i" if "i \<in> set (seg_ids d)" for i
    by (rule seg_tail_cong [OF c [OF that]])
  moreover have b: "i \<in> set (butlast (seg_ids d)) \<Longrightarrow> i \<in> set (seg_ids d)" for i by (rule in_set_butlastD)
  ultimately have "writer_image crc d'"
    using img ok l unfolding writer_image_def ids by metis
  then show "grows crc d d'"
    using c l seg_frames_cong [OF c [OF l]] by (auto simp: grows_def ids dest: in_set_butlastD)
  show "log_records crc d' = log_records crc d"
    unfolding log_records_def ids by (rule ids_records_cong) (rule c)
qed

text \<open>Any result of \<open>rotate\<close>: the segments are what they were, or there is a new, empty one.\<close>

lemma rotate_cases:
  assumes h: "rl_poisoned log = None" and r: "rl_rotate env log d = (res, log', d')"
  shows "d' = d \<or> (\<exists>n. rl_active_id log < n \<and> create_file d (segment_name n) = Some d')"
  using r h
  by (auto simp: not_le rl_rotate_def check_poisoned_def list_segment_ids_Inr
      split: if_splits sum.splits option.splits)

lemma rotate_Inr:
  assumes inv: "rl_inv crc log d" and r: "rl_rotate env log d = (Inr (), log', d')"
    and lt: "rl_active_id log' < 10 ^ 8"
  shows "rl_inv crc log' d'" "log_records crc d' = log_records crc d"
    "seg_ids d' = seg_ids d @ [rl_active_id log']"
proof -
  note I = rl_invD [OF inv]
  from r I(7) obtain n where n: "next_segment_id (seg_ids d) = Inr n" "rl_active_id log < n"
    "create_file d (segment_name n) = Some d'" "log' = log\<lparr>rl_active_id := n, rl_active_size := 0\<rparr>"
    by (auto simp: rl_rotate_def check_poisoned_def list_segment_ids_Inr
        split: if_splits sum.splits option.splits)
  have "last (seg_ids d) < n" using n(2) I(3) by simp
  moreover have "n < 10 ^ 8" using lt n(4) by simp
  ultimately have C: "dir_ok d'" "seg_ids d' = seg_ids d @ [n]" "log_records crc d' = log_records crc d"
    "seg_tail crc d' n = []" "seg_bytes d' n = []" "\<And>i. i \<noteq> n \<Longrightarrow> seg_tail crc d' i = seg_tail crc d i"
    using create_next_segment [OF I(1,2) n(3)] by blast+
  show "log_records crc d' = log_records crc d" "seg_ids d' = seg_ids d @ [rl_active_id log']"
    using C n(4) by simp_all
  have "seg_tail crc d' sid = []" if "sid \<in> set (seg_ids d')" for sid
    using that C I(4) by (cases "sid = n") simp_all
  then show "rl_inv crc log' d'" using C I n(4) by (simp add: rl_inv_def)
qed

lemma rotate_effect:
  assumes inv: "rl_inv crc log d" and r: "rl_rotate env log d = (res, log', d')"
    and lt: "rl_active_id log' < 10 ^ 8"
  shows "rl_poisoned log' = None \<longrightarrow> rl_inv crc log' d'" "log_records crc d' = log_records crc d"
    "grows crc d d' \<or> (\<exists>n. seg_ids d' = seg_ids d @ [n] \<and> create_file d (segment_name n) = Some d'
       \<and> seg_bytes d' n = [] \<and> (\<forall>i\<in>set (seg_ids d'). seg_tail crc d' i = []) \<and> dir_ok d')"
proof -
  note I = rl_invD [OF inv] and img = rl_inv_image [OF inv]
  have "rl_poisoned log' = None \<Longrightarrow> res = Inr () \<or> (log' = log \<and> d' = d)"
    using rotate_error_poisons [of env log d _ log' d'] r by (cases res) auto
  then show "rl_poisoned log' = None \<longrightarrow> rl_inv crc log' d'"
    using rotate_Inr(1) [OF inv _ lt] r inv by blast
  have "log_records crc d' = log_records crc d \<and> (grows crc d d' \<or> (\<exists>n. seg_ids d' = seg_ids d @ [n]
       \<and> create_file d (segment_name n) = Some d'
       \<and> seg_bytes d' n = [] \<and> (\<forall>i\<in>set (seg_ids d'). seg_tail crc d' i = []) \<and> dir_ok d'))"
    using rotate_cases [OF I(7) r]
  proof (elim disjE exE conjE)
    assume "d' = d"
    then show ?thesis using grows_refl [OF img] by simp
  next
    fix n assume created: "rl_active_id log < n" "create_file d (segment_name n) = Some d'"
    show ?thesis
    proof (cases "n < 10 ^ 8")
      case True
      have "last (seg_ids d) < n" using created(1) I(3) by simp
      note C = create_next_segment [OF I(1,2) created(2) this True]
      have "seg_tail crc d' i = []" if "i \<in> set (seg_ids d')" for i
        using that C(2,4,6) I(4) by (cases "i = n") simp_all
      with C(1,2,3,5) created(2) show ?thesis by blast
    next
      case False
      have "seg_content d' i = seg_content d i" if "i < 10 ^ 8" for i
        using that False by (auto simp: seg_content_create [OF created(2)])
      with same_image [OF img create_file_ok [OF created(2) I(1)]] show ?thesis by blast
    qed
  qed
  then show "log_records crc d' = log_records crc d"
    "grows crc d d' \<or> (\<exists>n. seg_ids d' = seg_ids d @ [n] \<and> create_file d (segment_name n) = Some d'
       \<and> seg_bytes d' n = [] \<and> (\<forall>i\<in>set (seg_ids d'). seg_tail crc d' i = []) \<and> dir_ok d')"
    by blast+
qed

text \<open>An empty last segment behind complete ones: everything in the log is durable.\<close>

lemma empty_segment:
  assumes ids: "seg_ids d = is @ [n]" and e: "seg_bytes d n = []" and ok: "dir_ok d"
    and tl: "\<forall>i\<in>set (seg_ids d). seg_tail crc d i = []"
  shows "forced crc \<lparr>wl_log = log, wl_dir = d, wl_synced = 0\<rparr>"
    "durable_records crc \<lparr>wl_log = log, wl_dir = d, wl_synced = 0\<rparr> = log_records crc d"
proof -
  let ?f = "\<lparr>fr_type = Raw, fr_txid = 0, fr_key = [], fr_payload = []\<rparr>"
  have "frame_ok ?f \<and> 0 < wire_len ?f \<and> seg_tail crc d (last (seg_ids d)) = take 0 (wire crc ?f)"
    using tl ids wire_len_ge [of ?f] by (simp add: frame_ok_def)
  then have img: "writer_image crc d"
    using tl ids ok unfolding writer_image_def by (auto dest: in_set_butlastD)
  then show "forced crc \<lparr>wl_log = log, wl_dir = d, wl_synced = 0\<rparr>"
    by (auto simp: forced_def intro!: exI [of _ 0])
  show "durable_records crc \<lparr>wl_log = log, wl_dir = d, wl_synced = 0\<rparr> = log_records crc d"
    using cut_at_boundary [OF img, of 0] seg_frames_empty [OF e]
    by (simp add: durable_records_def ids log_records_def seg_records_def)
qed

section \<open>Every call, with every result\<close>

text \<open>
  What a call does to the directory: it writes behind the frames of the last segment,
  adding at most the record it was asked for, or it adds an empty segment.
\<close>

lemma wal_step_effect:
  assumes st: "wal_step crc s c t" and inv: "wal_inv crc s"
  obtains (grow) xs where "grows crc (wl_dir s) (wl_dir t)"
      "log_records crc (wl_dir t) = log_records crc (wl_dir s) @ xs"
      "xs = [] \<or> (\<exists>r. xs = [r] \<and> appended_by c = [rec_content r] \<and> rc_txid r = rl_next_txid (wl_log s)
         \<and> rl_inv crc (wl_log s) (wl_dir s))"
  | (new) n where "seg_ids (wl_dir t) = seg_ids (wl_dir s) @ [n]"
      "create_file (wl_dir s) (segment_name n) = Some (wl_dir t)"
      "log_records crc (wl_dir t) = log_records crc (wl_dir s)"
  using st
proof (cases rule: wal_step.cases)
  case (appended env log d rt k v res log' d' n)
  note grow' = grow [unfolded appended, simplified]
  show ?thesis
  proof (cases "rl_poisoned log")
    case None
    with inv appended have rinv: "rl_inv crc log d" by (simp add: wal_inv_def)
    let ?f = "append_frame log rt k v"
    from append_effect [OF rinv appended(4)] show ?thesis
    proof (elim disjE exE conjE)
      fix m assume m: "frame_ok ?f" "m \<le> wire_len ?f"
        "d' = append_file d (segment_name (last (seg_ids d))) (take m (wire crc ?f))"
      note P = append_part [OF rinv m(1,2), folded m(3)]
      show ?thesis
        by (rule grow' [OF P]) (use rinv in \<open>auto simp: located_def append_frame_def rec_content_def\<close>)
    qed (use grow' [of "[]"] grows_refl [OF rl_inv_image [OF rinv]] in auto)
  next
    case (Some r)
    then show ?thesis
      using appended poisoned_refuses(1) [OF Some] inv grow [of "[]"]
      by (auto simp: wal_inv_def forced_def grows_refl)
  qed
next
  case (rotated env log d res log' d' n)
  show ?thesis
  proof (cases "rl_poisoned log")
    case None
    with inv rotated have rinv: "rl_inv crc log d" by (simp add: wal_inv_def)
    from rotate_effect [OF rinv rotated(4,5)] show ?thesis
      using rotated grow [of "[]"] new by auto
  next
    case (Some r)
    then show ?thesis
      using rotated poisoned_refuses(3) [OF Some] inv grow [of "[]"]
      by (auto simp: wal_inv_def forced_def grows_refl)
  qed
qed (use inv grow [of "[]"] in \<open>auto simp: wal_inv_def forced_def grows_refl\<close>)

text \<open>Each call keeps the invariant and loses nothing durable.\<close>

lemma append_step_inv:
  assumes a: "rl_append_record env crc log d rt k v = (res, log', d')"
    and inv: "wal_inv crc \<lparr>wl_log = log, wl_dir = d, wl_synced = n\<rparr>"
  shows "wal_inv crc \<lparr>wl_log = log', wl_dir = d', wl_synced = n\<rparr>
    \<and> prefix (durable_records crc \<lparr>wl_log = log, wl_dir = d, wl_synced = n\<rparr>)
        (durable_records crc \<lparr>wl_log = log', wl_dir = d', wl_synced = n\<rparr>)"
proof (cases "rl_poisoned log")
  case None
  with inv have rinv: "rl_inv crc log d" and f: "forced crc \<lparr>wl_log = log, wl_dir = d, wl_synced = n\<rparr>"
    by (simp_all add: wal_inv_def)
  from append_effect [OF rinv a] have g: "grows crc d d'" "rl_poisoned log' = None \<longrightarrow> rl_inv crc log' d'"
    using append_part(1) [OF rinv] grows_refl [OF rl_inv_image [OF rinv]] rinv by auto
  from grows_durable [OF f g(1)] g(2) show ?thesis by (simp add: wal_inv_def)
next
  case (Some r)
  then show ?thesis using a poisoned_refuses(1) [OF Some] inv by simp
qed

lemma fsync_step_inv:
  assumes l: "rl_fsync env log = (res, log')" and inv: "wal_inv crc \<lparr>wl_log = log, wl_dir = d, wl_synced = n\<rparr>"
  defines "t \<equiv> \<lparr>wl_log = log', wl_dir = d, wl_synced = (case res of Inr _ \<Rightarrow> length (seg_bytes d (rl_active_id log)) | Inl _ \<Rightarrow> n)\<rparr>"
  shows "wal_inv crc t \<and> prefix (durable_records crc \<lparr>wl_log = log, wl_dir = d, wl_synced = n\<rparr>) (durable_records crc t)"
proof (cases res)
  case (Inl e)
  with fsync_error_poisons [of env log e log'] l inv show ?thesis
    by (auto simp: t_def wal_inv_def forced_def durable_records_def)
next
  case (Inr u)
  then have ok: "rl_fsync env log = (Inr (), log')" using l by simp
  then have "rl_poisoned log = None" using poisoned_refuses(2) [of log] by (cases "rl_poisoned log") auto
  then have rinv: "rl_inv crc log d" using inv by (simp add: wal_inv_def)
  have f: "forced crc \<lparr>wl_log = log, wl_dir = d, wl_synced = n\<rparr>" using inv by (simp add: wal_inv_def)
  from durable_prefix [OF f] fsynced_all [OF rinv] fsync_Inr [OF ok] Inr show ?thesis by (simp add: t_def)
qed

lemma scan_step_inv:
  assumes s: "rl_scan env crc log d = (res, log')" and inv: "wal_inv crc \<lparr>wl_log = log, wl_dir = d, wl_synced = n\<rparr>"
  shows "wal_inv crc \<lparr>wl_log = log', wl_dir = d, wl_synced = n\<rparr>"
proof -
  have "rl_inv crc log' d" if rinv: "rl_inv crc log d"
  proof (cases res)
    case (Inl e)
    then have "log' = log" using s by (auto simp: rl_scan_def split: sum.splits)
    with rinv show ?thesis by simp
  next
    case (Inr rs)
    with scan_Inr(1) [OF rinv] s show ?thesis by blast
  qed
  with inv scan_keeps_poison [OF s] show ?thesis by (auto simp: wal_inv_def forced_def)
qed

lemma rotate_step_inv:
  assumes r: "rl_rotate env log d = (res, log', d')" and lt: "rl_active_id log' < 10 ^ 8"
    and inv: "wal_inv crc \<lparr>wl_log = log, wl_dir = d, wl_synced = n\<rparr>"
  defines "t \<equiv> \<lparr>wl_log = log', wl_dir = d', wl_synced = (if seg_ids d' = seg_ids d then n else 0)\<rparr>"
  shows "wal_inv crc t \<and> prefix (durable_records crc \<lparr>wl_log = log, wl_dir = d, wl_synced = n\<rparr>) (durable_records crc t)"
proof (cases "rl_poisoned log")
  case None
  with inv have rinv: "rl_inv crc log d" and f: "forced crc \<lparr>wl_log = log, wl_dir = d, wl_synced = n\<rparr>"
    by (simp_all add: wal_inv_def)
  note R = rotate_effect [OF rinv r lt]
  from R(3) show ?thesis
  proof (elim disjE exE conjE)
    assume g: "grows crc d d'"
    then have "seg_ids d' = seg_ids d" by (simp add: grows_def)
    with grows_durable [OF f g] R(1) show ?thesis by (simp add: t_def wal_inv_def)
  next
    fix i assume N: "seg_ids d' = seg_ids d @ [i]" "seg_bytes d' i = []" "dir_ok d'"
      "\<forall>i\<in>set (seg_ids d'). seg_tail crc d' i = []"
    from empty_segment [OF N(1,2,3,4), of log'] R(1,2) durable_prefix [OF f] N(1) show ?thesis
      by (simp add: t_def wal_inv_def)
  qed
next
  case (Some _)
  then show ?thesis using r poisoned_refuses(3) [OF Some] inv by (simp add: t_def)
qed

lemma wal_step_inv:
  assumes "wal_step crc s c t" and "wal_inv crc s"
  shows "wal_inv crc t \<and> prefix (durable_records crc s) (durable_records crc t)"
  using assms(1)
proof cases
  case (appended env log d rt k v res log' d' n)
  with append_step_inv [OF appended(4)] assms(2) show ?thesis by simp
next
  case (synced env log res log' d n)
  with fsync_step_inv [OF synced(4)] assms(2) show ?thesis by simp
next
  case (scanned env log d res log' n)
  with scan_step_inv [OF scanned(4)] assms(2) show ?thesis by (simp add: durable_records_def)
next
  case (rotated env log d res log' d' n)
  with rotate_step_inv [OF rotated(4,5)] assms(2) show ?thesis by simp
qed

lemma wal_run_inv:
  "wal_run crc s cs t \<Longrightarrow> wal_inv crc s \<Longrightarrow> wal_inv crc t \<and> prefix (durable_records crc s) (durable_records crc t)"
proof (induction rule: wal_run.induct)
  case (wr_step cs t c u)
  then show ?case using wal_step_inv [of crc t c u] by (blast intro: prefix_order.trans)
qed simp

text \<open>The log grows by records that calls asked for, in their order, and by nothing else.\<close>

lemma wal_run_records:
  "wal_run crc s cs t \<Longrightarrow> wal_inv crc s \<Longrightarrow>
   \<exists>more. log_records crc (wl_dir t) = log_records crc (wl_dir s) @ more
     \<and> subseq (map rec_content more) (concat (map appended_by cs))"
proof (induction rule: wal_run.induct)
  case (wr_step cs t c u)
  from wr_step.IH wr_step.prems obtain more where
    m: "log_records crc (wl_dir t) = log_records crc (wl_dir s) @ more"
    "subseq (map rec_content more) (concat (map appended_by cs))" by blast
  have "wal_inv crc t" using wal_run_inv wr_step by blast
  from wr_step.hyps(2) this show ?case
  proof (cases rule: wal_step_effect)
    case (grow xs)
    from grow(3) have "subseq (map rec_content xs) (appended_by c)" by auto
    with m(2) have "subseq (map rec_content (more @ xs)) (concat (map appended_by (cs @ [c])))"
      by (simp add: list_emb_append_mono)
    with grow(2) m(1) show ?thesis by (intro exI [of _ "more @ xs"]) simp
  next
    case (new n)
    from m(2) have "subseq (map rec_content more) (concat (map appended_by (cs @ [c])))"
      by (simp add: list_emb_prefix)
    with new(3) m(1) show ?thesis by auto
  qed
qed auto

lemma wal_run_openable: "wal_run crc s cs t \<Longrightarrow> openable (wl_dir s) \<Longrightarrow> openable (wl_dir t)"
proof (induction rule: wal_run.induct)
  case (wr_step cs t c u)
  have "openable (wl_dir u)" if "wal_step crc t c u" "openable (wl_dir t)"
    using that
  proof (cases rule: wal_step.cases)
    case (appended env log d rt k v res log' d' n)
    with that show ?thesis
      by (auto simp: rl_append_record_def Let_def split: option.splits if_splits sum.splits)
  next
    case (rotated env log d res log' d' n)
    then show ?thesis using that rotate_cases [OF _ rotated(4)] poisoned_refuses(3)
      by (cases "rl_poisoned log") (auto simp: create_file_Some)
  qed (use that in auto)
  with wr_step show ?case by blast
qed simp

section \<open>Transaction ids\<close>

text \<open>Txids grow strictly along the log (canon 5).\<close>

definition txids_increase :: "(bytes \<Rightarrow> u32) \<Rightarrow> dir \<Rightarrow> bool" where
  "txids_increase crc d \<longleftrightarrow> sorted_wrt (<) (map rc_txid (log_records crc d))"

lemma wal_step_txids:
  assumes "wal_step crc s c t" "wal_inv crc s" "txids_increase crc (wl_dir s)"
  shows "txids_increase crc (wl_dir t)"
  using assms(1,2)
proof (cases rule: wal_step_effect)
  case (grow xs)
  with assms(3) rl_invD(6) [of crc "wl_log s" "wl_dir s"] show ?thesis
    by (auto simp: txids_increase_def sorted_wrt_append)
next
  case (new n)
  with assms(3) show ?thesis by (simp add: txids_increase_def)
qed

lemma wal_run_txids:
  "wal_run crc s cs t \<Longrightarrow> wal_inv crc s \<Longrightarrow> txids_increase crc (wl_dir s) \<Longrightarrow> txids_increase crc (wl_dir t)"
proof (induction rule: wal_run.induct)
  case (wr_step cs t c u)
  with wal_run_inv [OF wr_step.hyps(1)] wal_step_txids [OF wr_step.hyps(2)] show ?case by blast
qed simp

section \<open>A reader beside the writer\<close>

text \<open>
  \<open>RecordLogReader\<close> lists the segments once, at its \<open>open\<close>, and reads their bytes
  later.  \<open>d'\<close> is the directory \<open>d\<close> in a later state of the writer: sealed segments are as
  they were, and the last one may have grown and been sealed.
\<close>

definition later :: "(bytes \<Rightarrow> u32) \<Rightarrow> dir \<Rightarrow> dir \<Rightarrow> bool" where
  "later crc d d' \<longleftrightarrow> prefix (seg_ids d) (seg_ids d')
     \<and> (\<forall>i\<in>set (butlast (seg_ids d)). seg_content d' i = seg_content d i)
     \<and> (\<forall>i\<in>set (seg_ids d). prefix (seg_frames crc d i) (seg_frames crc d' i))"

lemma later_refl: "later crc d d"
  by (simp add: later_def)

lemma butlast_prefix: "prefix xs ys \<Longrightarrow> set (butlast xs) \<subseteq> set (butlast ys)"
  by (auto simp: prefix_def butlast_append dest: in_set_butlastD)

lemma later_trans:
  assumes "later crc d d'" "later crc d' d''"
  shows "later crc d d''"
proof -
  have p: "prefix (seg_ids d) (seg_ids d')" using assms(1) by (simp add: later_def)
  then have "set (seg_ids d) \<subseteq> set (seg_ids d')" by (rule set_mono_prefix)
  with p butlast_prefix [OF p] assms show ?thesis
    unfolding later_def by (metis prefix_order.trans subsetD)
qed

lemma butlast_or_last: "x \<in> set xs \<Longrightarrow> x \<in> set (butlast xs) \<or> x = last xs"
  by (induction xs) (auto split: if_splits)

lemma wal_step_later:
  assumes st: "wal_step crc s c t" and inv: "wal_inv crc s"
  shows "later crc (wl_dir s) (wl_dir t)"
  using st inv
proof (cases rule: wal_step_effect)
  case (grow xs)
  have img: "writer_image crc (wl_dir s)" using inv by (simp add: wal_inv_def forced_def)
  have "i \<in> set (butlast (seg_ids (wl_dir s))) \<or> i = last (seg_ids (wl_dir s))"
    if "i \<in> set (seg_ids (wl_dir s))" for i
    by (rule butlast_or_last [OF that])
  then have "prefix (seg_frames crc (wl_dir s) i) (seg_frames crc (wl_dir t) i)" if "i \<in> set (seg_ids (wl_dir s))" for i
    using that grow(1) seg_frames_cong [of "wl_dir t" i "wl_dir s" crc] by (metis grows_def prefix_order.refl)
  with grow(1) show ?thesis by (simp add: grows_def later_def)
next
  case (new n)
  have ok: "dir_ok (wl_dir s)" using inv by (simp add: wal_inv_def forced_def writer_image_def)
  have "n \<notin> set (seg_ids (wl_dir s))"
    using seg_ids_distinct [OF create_file_ok [OF new(2) ok]] new(1) by simp
  then have c: "seg_content (wl_dir t) i = seg_content (wl_dir s) i" if "i \<in> set (seg_ids (wl_dir s))" for i
    using that by (auto simp: seg_content_create [OF new(2)])
  with new(1) seg_frames_cong [OF c] show ?thesis by (auto simp: later_def dest: in_set_butlastD)
qed

lemma wal_run_later: "wal_run crc s cs t \<Longrightarrow> wal_inv crc s \<Longrightarrow> later crc (wl_dir s) (wl_dir t)"
proof (induction rule: wal_run.induct)
  case (wr_step cs t c u)
  with wal_run_inv [OF wr_step.hyps(1)] wal_step_later [OF wr_step.hyps(2)] show ?case
    by (blast intro: later_trans)
qed (rule later_refl)

text \<open>The records of a snapshot's segments, seen later.\<close>

lemma later_records:
  assumes l: "later crc d d'" and ids: "prefix ids (seg_ids d)"
  shows "prefix (ids_records crc d ids) (ids_records crc d' ids)"
proof (cases ids rule: rev_cases)
  case (snoc front a)
  have "set front \<subseteq> set (butlast (seg_ids d))" using butlast_prefix [OF ids] snoc by simp
  then have "ids_records crc d' front = ids_records crc d front"
    using l by (intro ids_records_cong) (auto simp: later_def)
  moreover have "a \<in> set (seg_ids d)" using set_mono_prefix [OF ids] snoc by auto
  then have "prefix (seg_records crc d a) (seg_records crc d' a)"
    using l by (auto simp: later_def seg_records_def prefix_def place_append)
  ultimately show ?thesis by (simp add: snoc)
qed simp

lemma reader_records:
  assumes r: "wal_run crc s cs t" and inv: "wal_inv crc s" and io: "all_io env"
  shows "\<exists>rs it. drain env crc (wl_dir t) (iter_new (seg_ids (wl_dir s))) = (map Inr rs, it)
    \<and> prefix (log_records crc (wl_dir s)) rs \<and> prefix rs (log_records crc (wl_dir t))"
proof -
  let ?ids = "seg_ids (wl_dir s)" and ?d = "wl_dir t"
  from wal_run_inv [OF r inv] have img: "writer_image crc ?d" by (simp add: wal_inv_def forced_def)
  note I = writer_imageD [OF img]
  have l: "later crc (wl_dir s) ?d" by (rule wal_run_later [OF r inv])
  have p: "prefix (log_records crc (wl_dir s)) (ids_records crc ?d ?ids)"
    using later_records [OF l, of ?ids] by (simp add: log_records_def)
  from l obtain more where m: "seg_ids ?d = ?ids @ more" by (auto simp: later_def prefix_def)
  have "recoverable_ids crc ?d ?ids"
  proof (cases "more = []")
    case True
    with writer_image_recoverable [OF img] m show ?thesis by (simp add: recoverable_def)
  next
    case False
    then have "seg_tail crc ?d i = []" if "i \<in> set ?ids" for i
      using I(3) that by (simp add: m butlast_append)
    then show ?thesis by (auto simp: recoverable_ids_iff dest: in_set_butlastD last_in_set)
  qed
  moreover have "\<forall>i\<in>set ?ids. seg_content ?d i \<noteq> None"
  proof -
    have "set ?ids \<subseteq> set (seg_ids ?d)" using m by auto
    then show ?thesis using I(1) by (auto simp: set_seg_ids)
  qed
  ultimately have "scan_all env crc ?d ?ids = Inr (scan_result crc ?d ?ids empty_scan)"
    using io by (simp add: scan_all_iff)
  moreover have "si_records (scan_result crc ?d ?ids empty_scan) = ids_records crc ?d ?ids"
    by (simp add: scan_result_def empty_scan_def Let_def)
  ultimately obtain it where "drain env crc ?d (iter_new ?ids) = (map Inr (ids_records crc ?d ?ids), it)"
    using drain_scan_all [of env crc ?d ?ids] by auto
  moreover have "prefix (ids_records crc ?d ?ids) (log_records crc ?d)" by (simp add: log_records_def m)
  ultimately show ?thesis using p by blast
qed

end
