(* ===== verification/Bytes_Render.thy ===== *)
theory Bytes_Render
  imports Segments
begin

text \<open>
  Rendering and parsing of byte strings at the command line:
  \<open>crates/datawal-cli/src/bytes_render.rs\<close> and the key decoding of \<open>commands.rs\<close>.
  Base64 is the third-party crate base64, the parameter \<open>b64\<close>.  A \<open>Result<T, String>\<close>
  is \<open>string + 'a\<close>.
\<close>

datatype bytes_mode = Auto | RawMode | Base64 | Hex

definition bytes_mode_from_str :: "string \<Rightarrow> string + bytes_mode" where
  "bytes_mode_from_str s =
     (if s = ''auto'' then Inr Auto
      else if s = ''raw'' then Inr RawMode
      else if s = ''base64'' \<or> s = ''b64'' then Inr Base64
      else if s = ''hex'' then Inr Hex
      else Inl (''unknown --bytes mode `'' @ s @ ''` (want auto|raw|base64|hex)''))"

definition DEFAULT_TRUNCATE_BYTES :: nat where "DEFAULT_TRUNCATE_BYTES = 64"

definition is_printable_ascii :: "bytes \<Rightarrow> bool" where
  "is_printable_ascii bs = list_all (\<lambda>b. (0x20 \<le> b \<and> b \<le> 0x7E) \<or> b = 9) bs"

definition slice_truncated :: "bytes \<Rightarrow> nat option \<Rightarrow> bytes" where
  "slice_truncated bs trunc =
     (case trunc of
        Some n \<Rightarrow> if length bs > n then take n bs else bs
      | None \<Rightarrow> bs)"

text \<open>\<open>truncate.is_some_and(|n| bytes.len() > n)\<close>.\<close>

definition clipped :: "bytes \<Rightarrow> nat option \<Rightarrow> bool" where
  "clipped bs trunc = (case trunc of Some n \<Rightarrow> length bs > n | None \<Rightarrow> False)"

text \<open>\<open>from_utf8_lossy\<close> of ASCII bytes, the only ones it is applied to.\<close>

definition ascii_string :: "bytes \<Rightarrow> string" where
  "ascii_string bs = map (\<lambda>b. char_of (unat b)) bs"

definition escape_char :: "char \<Rightarrow> string" where
  "escape_char c =
     (if c = CHR 0x22 then [CHR 0x5C, CHR 0x22]
      else if c = CHR 0x5C then [CHR 0x5C, CHR 0x5C]
      else if c = CHR 0x09 then [CHR 0x5C, CHR ''t'']
      else [c])"

definition needs_quoting :: "string \<Rightarrow> bool" where
  "needs_quoting s \<longleftrightarrow>
     list_ex (\<lambda>c. c = CHR '' '' \<or> c = CHR 0x09 \<or> c = CHR 0x22 \<or> c = CHR 0x5C) s \<or> s = []"

definition literal :: "bytes \<Rightarrow> nat option \<Rightarrow> string" where
  "literal bs trunc =
     (let s = ascii_string (slice_truncated bs trunc);
          body = (if needs_quoting s then [CHR 0x22] @ concat (map escape_char s) @ [CHR 0x22] else s)
      in if clipped bs trunc then body @ ''...'' else body)"

definition HEX :: string where "HEX = ''0123456789abcdef''"

fun to_hex :: "bytes \<Rightarrow> string" where
  "to_hex [] = []"
| "to_hex (b # bs) = HEX ! unat (drop_bit 4 b) # HEX ! unat (b AND 0x0F) # to_hex bs"

definition prefixed_b64 :: "(bytes \<Rightarrow> string) \<Rightarrow> bytes \<Rightarrow> nat option \<Rightarrow> string" where
  "prefixed_b64 b64 bs trunc =
     (let s = b64 (slice_truncated bs trunc)
      in if clipped bs trunc then ''b64:'' @ s @ ''...'' else ''b64:'' @ s)"

definition prefixed_hex :: "bytes \<Rightarrow> nat option \<Rightarrow> string" where
  "prefixed_hex bs trunc =
     (let s = to_hex (slice_truncated bs trunc)
      in if clipped bs trunc then ''hex:'' @ s @ ''...'' else ''hex:'' @ s)"

definition render_for_human :: "(bytes \<Rightarrow> string) \<Rightarrow> bytes \<Rightarrow> bytes_mode \<Rightarrow> nat option \<Rightarrow> string" where
  "render_for_human b64 bs mode trunc =
     (case mode of
        Auto \<Rightarrow> if is_printable_ascii bs then literal bs trunc else prefixed_b64 b64 bs trunc
      | RawMode \<Rightarrow> if is_printable_ascii bs then literal bs trunc else prefixed_b64 b64 bs trunc
      | Base64 \<Rightarrow> prefixed_b64 b64 bs trunc
      | Hex \<Rightarrow> prefixed_hex bs trunc)"

definition binary_hint :: "bytes \<Rightarrow> string" where
  "binary_hint bs =
     ''<binary value, '' @ dec_digits (length bs) @ '' bytes; use --bytes base64 or --bytes hex>''"

definition render_value_for_get ::
  "(bytes \<Rightarrow> string) \<Rightarrow> bytes \<Rightarrow> bytes_mode \<Rightarrow> nat option \<Rightarrow> string + string" where
  "render_value_for_get b64 bs mode trunc =
     (case mode of
        Auto \<Rightarrow> if is_printable_ascii bs then Inr (ascii_string (slice_truncated bs trunc))
                else Inl (binary_hint bs)
      | RawMode \<Rightarrow> if is_printable_ascii bs then Inr (ascii_string (slice_truncated bs trunc))
                   else Inl (binary_hint bs)
      | Base64 \<Rightarrow> Inr (b64 (slice_truncated bs trunc))
      | Hex \<Rightarrow> Inr (to_hex (slice_truncated bs trunc)))"

section \<open>Keys given in hex\<close>

datatype key_error = OddLength | NonHexByte u8 | BadBase64 | NotExactlyOne

definition hex_digit :: "u8 \<Rightarrow> key_error + u8" where
  "hex_digit b =
     (if 48 \<le> b \<and> b \<le> 57 then Inr (b - 48)
      else if 97 \<le> b \<and> b \<le> 102 then Inr (b - 97 + 10)
      else if 65 \<le> b \<and> b \<le> 70 then Inr (b - 65 + 10)
      else Inl (NonHexByte b))"

text \<open>The loop over \<open>chunks_exact(2)\<close>; a last odd byte would be ignored.\<close>

fun decode_chunks :: "u8 list \<Rightarrow> key_error + bytes" where
  "decode_chunks (a # b # rest) =
     (case hex_digit a of
        Inl e \<Rightarrow> Inl e
      | Inr hi \<Rightarrow>
          (case hex_digit b of
             Inl e \<Rightarrow> Inl e
           | Inr lo \<Rightarrow>
               (case decode_chunks rest of
                  Inl e \<Rightarrow> Inl e
                | Inr out \<Rightarrow> Inr ((push_bit 4 hi OR lo) # out))))"
| "decode_chunks _ = Inr []"

text \<open>The argument is the UTF-8 encoding of the \<open>&str\<close>.\<close>

definition decode_hex :: "u8 list \<Rightarrow> key_error + bytes" where
  "decode_hex s = (if length s mod 2 \<noteq> 0 then Inl OddLength else decode_chunks s)"

definition decode_key ::
  "(bytes \<Rightarrow> bytes option) \<Rightarrow> bytes option \<Rightarrow> bytes option \<Rightarrow> bytes option \<Rightarrow> key_error + bytes" where
  "decode_key b64_decode key key_base64 key_hex =
     (case (key, key_base64, key_hex) of
        (Some text, None, None) \<Rightarrow> Inr text
      | (None, Some b, None) \<Rightarrow> (case b64_decode b of Some bs \<Rightarrow> Inr bs | None \<Rightarrow> Inl BadBase64)
      | (None, None, Some h) \<Rightarrow> decode_hex h
      | _ \<Rightarrow> Inl NotExactlyOne)"

section \<open>Hex round trip\<close>

lemma nibbles: "push_bit 4 (drop_bit 4 b) OR (b AND 0x0F) = (b :: u8)"
proof -
  have m: "(0x0F :: u8) = mask 4" by (simp add: mask_eq_exp_minus_1)
  show ?thesis unfolding m by (rule bit_eqI) (auto simp: bit_simps)
qed

definition hex_byte :: "nat \<Rightarrow> u8" where
  "hex_byte n = of_char (HEX ! n)"

lemma hex_digit_byte: "n < 16 \<Longrightarrow> hex_digit (hex_byte n) = Inr (of_nat n)"
proof -
  have "\<forall>n\<in>set [0..<16]. hex_digit (hex_byte n) = Inr (of_nat n)"
    by code_simp
  then show "n < 16 \<Longrightarrow> hex_digit (hex_byte n) = Inr (of_nat n)" by simp
qed

lemma unat_u8: "unat (b :: u8) < 256"
  using unsigned_less [of b] by simp

lemma nibble_bounds: "unat (drop_bit 4 b :: u8) < 16" "unat (b AND 0x0F :: u8) < 16"
proof -
  have "unat (drop_bit 4 b) = unat b div 16" by (simp add: drop_bit_eq_div unat_div_distrib)
  also have "\<dots> < 16" using unat_u8 [of b] by (simp add: less_mult_imp_div_less)
  finally show "unat (drop_bit 4 b :: u8) < 16" .
  have "(b AND 0x0F :: u8) \<le> 0x0F" by (rule word_and_le1)
  then show "unat (b AND 0x0F :: u8) < 16" by (simp add: word_le_nat_alt)
qed

lemma decode_to_hex: "decode_chunks (map of_char (to_hex bs)) = Inr bs"
  by (induction bs)
    (simp_all add: hex_digit_byte nibble_bounds nibbles flip: hex_byte_def)

lemma length_to_hex: "length (to_hex bs) = 2 * length bs"
  by (induction bs) simp_all

lemma decode_hex_to_hex: "decode_hex (map of_char (to_hex bs)) = Inr bs"
  by (simp add: decode_hex_def decode_to_hex length_to_hex)

text \<open>What \<open>decode_hex\<close> accepts.\<close>

definition is_hex_byte :: "u8 \<Rightarrow> bool" where
  "is_hex_byte b \<longleftrightarrow> (48 \<le> b \<and> b \<le> 57) \<or> (97 \<le> b \<and> b \<le> 102) \<or> (65 \<le> b \<and> b \<le> 70)"

lemma hex_digit_Inr: "(\<exists>v. hex_digit b = Inr v) \<longleftrightarrow> is_hex_byte b"
  by (auto simp: hex_digit_def is_hex_byte_def)

lemma decode_chunks_Inr:
  "even (length s) \<Longrightarrow> (\<exists>bs. decode_chunks s = Inr bs) \<longleftrightarrow> list_all is_hex_byte s"
proof (induction s rule: decode_chunks.induct)
  case (1 a b rest)
  show ?case
  proof (cases "is_hex_byte a \<and> is_hex_byte b")
    case True
    then obtain hi lo where hl: "hex_digit a = Inr hi" "hex_digit b = Inr lo"
      using hex_digit_Inr by blast
    have "(\<exists>bs. decode_chunks rest = Inr bs) \<longleftrightarrow> list_all is_hex_byte rest"
      using 1 hl by simp
    with hl True show ?thesis by (auto split: sum.split)
  next
    case False
    then show ?thesis
      using hex_digit_Inr [of a] hex_digit_Inr [of b] by (auto split: sum.splits)
  qed
qed simp_all

section \<open>Quoting\<close>

text \<open>Undoing \<open>literal\<close>: what stands between the quotes, with \<open>\\\<close>-escapes resolved.\<close>

fun unescape :: "string \<Rightarrow> string" where
  "unescape [] = []"
| "unescape [c] = [c]"
| "unescape (c # e # cs) =
     (if c = CHR 0x5C then (if e = CHR ''t'' then CHR 0x09 else e) # unescape cs
      else c # unescape (e # cs))"

definition unliteral :: "string \<Rightarrow> string" where
  "unliteral s = (if s \<noteq> [] \<and> hd s = CHR 0x22 then unescape (butlast (tl s)) else s)"

lemma unescape_Cons: "c \<noteq> CHR 0x5C \<Longrightarrow> unescape (c # cs) = c # unescape cs"
  by (cases cs) simp_all

lemma unescape_escape: "unescape (concat (map escape_char s)) = s"
  by (induction s) (simp_all add: escape_char_def unescape_Cons)

lemma unliteral_literal: "unliteral (literal bs None) = ascii_string bs"
proof (cases "needs_quoting (ascii_string bs)")
  case True
  then show ?thesis
    by (simp add: unliteral_def literal_def slice_truncated_def clipped_def unescape_escape)
next
  case False
  then have "ascii_string bs \<noteq> []" "hd (ascii_string bs) \<noteq> CHR 0x22"
    by (auto simp: needs_quoting_def list_ex_iff hd_in_set)
  with False show ?thesis
    by (simp add: unliteral_def literal_def slice_truncated_def clipped_def)
qed

lemma ascii_string_inj: "ascii_string a = ascii_string b \<Longrightarrow> a = b"
proof (induction a arbitrary: b)
  case (Cons x a)
  then obtain y b' where b: "b = y # b'" by (cases b) (auto simp: ascii_string_def)
  have "char_of (unat x) = char_of (unat y)" using Cons.prems by (simp add: b ascii_string_def)
  then have "unat x mod 256 = unat y mod 256" by (simp add: char_of_eq_iff take_bit_eq_mod bit_eq_iff)
  moreover have "unat x < 256" "unat y < 256" by (rule unat_u8)+
  ultimately have "x = y" by (intro unsigned_word_eqI) simp
  with Cons b show ?case by (simp add: ascii_string_def)
qed (simp add: ascii_string_def)

lemma to_hex_chars: "set (to_hex bs) \<subseteq> set HEX"
proof (induction bs)
  case (Cons b bs)
  have "length HEX = 16" by (simp add: HEX_def)
  then have "HEX ! unat (drop_bit 4 b) \<in> set HEX" "HEX ! unat (b AND 0x0F) \<in> set HEX"
    using nibble_bounds [of b] by (auto intro: nth_mem)
  with Cons show ?case by simp
qed simp

end
