(* ===== verification/Cli_Output.thy ===== *)
theory Cli_Output
  imports Bytes_Render Data_Wal
begin

text \<open>
  What the command line prints: the JSON objects of \<open>crates/datawal-cli/src/output.rs\<close>
  (serialised by the third-party crate serde_json) and the human lines of
  \<open>commands.rs\<close>.  \<open>b64\<close> is the base64 crate.
\<close>

definition SCHEMA :: string where "SCHEMA = ''datawal.cli.v1''"

definition record_type_str :: "record_type \<Rightarrow> string" where
  "record_type_str rt = (case rt of Raw \<Rightarrow> ''Raw'' | Put \<Rightarrow> ''Put'' | Delete \<Rightarrow> ''Delete'')"

record record_line =
  rln_schema :: string
  rln_kind :: string
  rln_segment :: nat
  rln_offset :: nat
  rln_len :: nat
  rln_record_type :: string
  rln_txid :: u64
  rln_key_base64 :: string
  rln_payload_base64 :: string

definition record_line_from_record :: "(bytes \<Rightarrow> string) \<Rightarrow> log_record \<Rightarrow> record_line" where
  "record_line_from_record b64 rec = \<lparr>rln_schema = SCHEMA, rln_kind = ''record'',
     rln_segment = rc_segment rec, rln_offset = rc_offset rec, rln_len = rc_len rec,
     rln_record_type = record_type_str (rc_type rec), rln_txid = rc_txid rec,
     rln_key_base64 = b64 (rc_key rec), rln_payload_base64 = b64 (rc_payload rec)\<rparr>"

record frame_line =
  fln_schema :: string
  fln_kind :: string
  fln_segment :: nat
  fln_offset :: nat
  fln_len :: nat
  fln_record_type :: string
  fln_txid :: u64
  fln_key_len :: nat
  fln_payload_len :: nat

definition frame_line_from_record :: "log_record \<Rightarrow> frame_line" where
  "frame_line_from_record rec = \<lparr>fln_schema = SCHEMA, fln_kind = ''frame'',
     fln_segment = rc_segment rec, fln_offset = rc_offset rec, fln_len = rc_len rec,
     fln_record_type = record_type_str (rc_type rec), fln_txid = rc_txid rec,
     fln_key_len = length (rc_key rec), fln_payload_len = length (rc_payload rec)\<rparr>"

record report_obj =
  rpo_schema :: string
  rpo_kind :: string
  rpo_files_scanned :: nat
  rpo_records_replayed :: nat
  rpo_tail_truncated :: nat
  rpo_tail_bytes_discarded :: nat
  rpo_mid_stream_errors :: nat
  rpo_unsupported_versions :: nat
  rpo_last_txid_seen :: u64

definition report_obj_from_report :: "recovery_report \<Rightarrow> report_obj" where
  "report_obj_from_report r = \<lparr>rpo_schema = SCHEMA, rpo_kind = ''report'',
     rpo_files_scanned = rr_files_scanned r, rpo_records_replayed = rr_records_replayed r,
     rpo_tail_truncated = rr_tail_truncated r, rpo_tail_bytes_discarded = rr_tail_bytes_discarded r,
     rpo_mid_stream_errors = rr_mid_stream_errors r,
     rpo_unsupported_versions = rr_unsupported_versions r, rpo_last_txid_seen = rr_last_txid_seen r\<rparr>"

record verify_obj =
  vfo_schema :: string
  vfo_kind :: string
  vfo_frames_checked :: nat
  vfo_crc_failures :: nat
  vfo_tail_truncated :: nat
  vfo_tail_bytes_discarded :: nat
  vfo_last_segment :: nat
  vfo_last_offset :: nat

record value_hit =
  vh_schema :: string
  vh_kind :: string
  vh_key_base64 :: string
  vh_value_base64 :: string
  vh_value_len :: nat

definition value_hit_new :: "(bytes \<Rightarrow> string) \<Rightarrow> bytes \<Rightarrow> bytes \<Rightarrow> value_hit" where
  "value_hit_new b64 key v = \<lparr>vh_schema = SCHEMA, vh_kind = ''value'',
     vh_key_base64 = b64 key, vh_value_base64 = b64 v, vh_value_len = length v\<rparr>"

record value_miss =
  vm_schema :: string
  vm_kind :: string
  vm_key_base64 :: string

definition value_miss_new :: "(bytes \<Rightarrow> string) \<Rightarrow> bytes \<Rightarrow> value_miss" where
  "value_miss_new b64 key = \<lparr>vm_schema = SCHEMA, vm_kind = ''miss'', vm_key_base64 = b64 key\<rparr>"

record export_obj =
  exo_schema :: string
  exo_kind :: string
  exo_outfile :: string
  exo_records_written :: nat
  exo_bytes_written :: nat

definition export_obj_new :: "string \<Rightarrow> nat \<Rightarrow> nat \<Rightarrow> export_obj" where
  "export_obj_new outfile records_written bytes_written =
     \<lparr>exo_schema = SCHEMA, exo_kind = ''export'', exo_outfile = outfile,
      exo_records_written = records_written, exo_bytes_written = bytes_written\<rparr>"

record compact_obj =
  cpo_schema :: string
  cpo_kind :: string
  cpo_target :: string
  cpo_live_keys :: nat
  cpo_records_written :: nat
  cpo_bytes_written :: nat

definition compact_obj_new :: "string \<Rightarrow> compaction_stats \<Rightarrow> compact_obj" where
  "compact_obj_new target stats =
     \<lparr>cpo_schema = SCHEMA, cpo_kind = ''compact'', cpo_target = target,
      cpo_live_keys = cs_live_keys stats, cpo_records_written = cs_records_written stats,
      cpo_bytes_written = cs_bytes_written stats\<rparr>"

record check_obj =
  cho_schema :: string
  cho_kind :: string
  cho_keys_checked :: nat
  cho_tail_truncated :: nat
  cho_tail_bytes_discarded :: nat
  cho_mid_stream_errors :: nat
  cho_unsupported_versions :: nat

definition check_obj_new :: "nat \<Rightarrow> recovery_report \<Rightarrow> check_obj" where
  "check_obj_new keys_checked r =
     \<lparr>cho_schema = SCHEMA, cho_kind = ''check'', cho_keys_checked = keys_checked,
      cho_tail_truncated = rr_tail_truncated r, cho_tail_bytes_discarded = rr_tail_bytes_discarded r,
      cho_mid_stream_errors = rr_mid_stream_errors r,
      cho_unsupported_versions = rr_unsupported_versions r\<rparr>"

text \<open>One line of standard output.\<close>

datatype out_line =
    JRecord record_line
  | JFrame frame_line
  | JReport report_obj
  | JVerify verify_obj
  | JHit value_hit
  | JMiss value_miss
  | JExport export_obj
  | JCompact compact_obj
  | JCheck check_obj
  | Text string

section \<open>Human lines\<close>

definition pad_left :: "nat \<Rightarrow> string \<Rightarrow> string" where
  "pad_left n s = replicate (n - length s) CHR '' '' @ s"

definition pad_right :: "nat \<Rightarrow> string \<Rightarrow> string" where
  "pad_right n s = s @ replicate (n - length s) CHR '' ''"

definition type_tag :: "record_type \<Rightarrow> string" where
  "type_tag rt = (case rt of Raw \<Rightarrow> ''RAW'' | Put \<Rightarrow> ''PUT'' | Delete \<Rightarrow> ''DEL'')"

definition print_record_human :: "(bytes \<Rightarrow> string) \<Rightarrow> log_record \<Rightarrow> bytes_mode \<Rightarrow> nat option \<Rightarrow> string" where
  "print_record_human b64 rec mode trunc =
     ''seg='' @ zero_pad 8 (dec_digits (rc_segment rec)) @ '' off='' @ pad_left 10 (dec_digits (rc_offset rec))
     @ '' len='' @ pad_left 8 (dec_digits (rc_len rec)) @ '' type='' @ pad_right 3 (type_tag (rc_type rec))
     @ '' txid='' @ pad_left 10 (dec_digits (unat (rc_txid rec)))
     @ '' key='' @ render_for_human b64 (rc_key rec) mode trunc
     @ '' payload='' @ render_for_human b64 (rc_payload rec) mode trunc"

definition print_frame_human :: "(bytes \<Rightarrow> string) \<Rightarrow> log_record \<Rightarrow> bytes_mode \<Rightarrow> nat option \<Rightarrow> string" where
  "print_frame_human b64 rec mode trunc =
     ''seg='' @ zero_pad 8 (dec_digits (rc_segment rec)) @ '' off='' @ pad_left 10 (dec_digits (rc_offset rec))
     @ '' len='' @ pad_left 8 (dec_digits (rc_len rec)) @ '' type='' @ pad_right 3 (type_tag (rc_type rec))
     @ '' txid='' @ pad_left 10 (dec_digits (unat (rc_txid rec)))
     @ '' key='' @ render_for_human b64 (rc_key rec) mode trunc
     @ '' key_len='' @ dec_digits (length (rc_key rec))
     @ '' payload_len='' @ dec_digits (length (rc_payload rec))"

definition report_lines :: "recovery_report \<Rightarrow> out_line list" where
  "report_lines r = map Text
    [''schema:              '' @ SCHEMA,
     ''files_scanned:       '' @ dec_digits (rr_files_scanned r),
     ''records_replayed:    '' @ dec_digits (rr_records_replayed r),
     ''tail_truncated:      '' @ dec_digits (rr_tail_truncated r),
     ''tail_bytes_discarded:'' @ dec_digits (rr_tail_bytes_discarded r),
     ''mid_stream_errors:   '' @ dec_digits (rr_mid_stream_errors r),
     ''unsupported_versions:'' @ dec_digits (rr_unsupported_versions r),
     ''last_txid_seen:      '' @ dec_digits (unat (rr_last_txid_seen r))]"

definition verify_lines :: "verify_obj \<Rightarrow> out_line list" where
  "verify_lines obj = map Text
    [''schema:              '' @ vfo_schema obj,
     ''frames_checked:      '' @ dec_digits (vfo_frames_checked obj),
     ''crc_failures:        '' @ dec_digits (vfo_crc_failures obj),
     ''tail_truncated:      '' @ dec_digits (vfo_tail_truncated obj),
     ''tail_bytes_discarded:'' @ dec_digits (vfo_tail_bytes_discarded obj),
     ''last_segment:        '' @ dec_digits (vfo_last_segment obj),
     ''last_offset:         '' @ dec_digits (vfo_last_offset obj)]"

definition export_lines :: "export_obj \<Rightarrow> out_line list" where
  "export_lines obj = map Text
    [''schema:          '' @ exo_schema obj,
     ''kind:            '' @ exo_kind obj,
     ''outfile:         '' @ exo_outfile obj,
     ''records_written: '' @ dec_digits (exo_records_written obj),
     ''bytes_written:   '' @ dec_digits (exo_bytes_written obj)]"

definition compact_lines :: "compact_obj \<Rightarrow> out_line list" where
  "compact_lines obj = map Text
    [''schema:          '' @ cpo_schema obj,
     ''kind:            '' @ cpo_kind obj,
     ''target:          '' @ cpo_target obj,
     ''live_keys:       '' @ dec_digits (cpo_live_keys obj),
     ''records_written: '' @ dec_digits (cpo_records_written obj),
     ''bytes_written:   '' @ dec_digits (cpo_bytes_written obj)]"

definition check_lines :: "check_obj \<Rightarrow> out_line list" where
  "check_lines obj = map Text
    [''schema:               '' @ cho_schema obj,
     ''kind:                 '' @ cho_kind obj,
     ''keys_checked:         '' @ dec_digits (cho_keys_checked obj),
     ''tail_truncated:       '' @ dec_digits (cho_tail_truncated obj),
     ''tail_bytes_discarded: '' @ dec_digits (cho_tail_bytes_discarded obj),
     ''mid_stream_errors:    '' @ dec_digits (cho_mid_stream_errors obj),
     ''unsupported_versions: '' @ dec_digits (cho_unsupported_versions obj)]"

end
