(* ===== verification/Cli_Commands.thy ===== *)
theory Cli_Commands
  imports Cli_Output
begin

text \<open>
  The subcommands of \<open>crates/datawal-cli/src/commands.rs\<close> and the exit code of
  \<open>main.rs\<close>.  A command returns its \<open>Result<ExitCode>\<close>, the lines it has printed on
  standard output, the kernel's lock state and the store directory; what goes to
  standard error is not modelled.  The handle a command opened is dropped when it
  returns.  The arguments are those that clap has parsed.
\<close>

datatype cli_error = Core error | BadKey key_error

datatype bytes_mode_arg = AutoArg | RawArg | Base64Arg | HexArg

fun bytes_mode_from_arg :: "bytes_mode_arg \<Rightarrow> bytes_mode" where
  "bytes_mode_from_arg AutoArg = Auto"
| "bytes_mode_from_arg RawArg = RawMode"
| "bytes_mode_from_arg Base64Arg = Base64"
| "bytes_mode_from_arg HexArg = Hex"

record scan_args =
  sa_limit :: "nat option"
  sa_from_segment :: "nat option"
  sa_from_offset :: "nat option"
  sa_bytes :: bytes_mode_arg
  sa_no_truncate :: bool

record get_args =
  ga_key :: "bytes option"
  ga_key_base64 :: "bytes option"
  ga_key_hex :: "bytes option"
  ga_bytes :: bytes_mode_arg
  ga_no_truncate :: bool

record dump_args =
  da_limit :: "nat option"
  da_bytes :: bytes_mode_arg
  da_no_truncate :: bool

type_synonym 'k outcome = "(cli_error + nat) \<times> out_line list \<times> 'k \<times> dir option"

definition truncate_for :: "bool \<Rightarrow> nat option" where
  "truncate_for no_truncate = (if no_truncate then None else Some DEFAULT_TRUNCATE_BYTES)"

definition the_dir :: "dir option \<Rightarrow> dir" where
  "the_dir dopt = (case dopt of None \<Rightarrow> [] | Some d \<Rightarrow> d)"

section \<open>scan\<close>

definition before_start :: "scan_args \<Rightarrow> log_record \<Rightarrow> bool" where
  "before_start args rec =
     (case sa_from_segment args of
        None \<Rightarrow> False
      | Some seg \<Rightarrow>
          rc_segment rec < seg
          \<or> (rc_segment rec = seg
             \<and> rc_offset rec < (case sa_from_offset args of Some off \<Rightarrow> off | None \<Rightarrow> 0)))"

definition record_out :: "(bytes \<Rightarrow> string) \<Rightarrow> scan_args \<Rightarrow> bool \<Rightarrow> log_record \<Rightarrow> out_line" where
  "record_out b64 args json rec =
     (if json then JRecord (record_line_from_record b64 rec)
      else Text (print_record_human b64 rec (bytes_mode_from_arg (sa_bytes args)) (truncate_for (sa_no_truncate args))))"

text \<open>The loop: the lines, and whether it ended without a mid-stream error.\<close>

fun cmd_scan_loop ::
  "(bytes \<Rightarrow> string) \<Rightarrow> scan_args \<Rightarrow> bool \<Rightarrow> (error + log_record) list \<Rightarrow> nat \<Rightarrow> out_line list \<times> bool" where
  "cmd_scan_loop b64 args json [] emitted = ([], True)"
| "cmd_scan_loop b64 args json (Inl e # items) emitted = ([], False)"
| "cmd_scan_loop b64 args json (Inr rec # items) emitted =
     (if before_start args rec then cmd_scan_loop b64 args json items emitted
      else
        let line = record_out b64 args json rec; emitted' = emitted + 1 in
        if (case sa_limit args of Some lim \<Rightarrow> lim \<le> emitted' | None \<Rightarrow> False) then ([line], True)
        else (let (lines, ok) = cmd_scan_loop b64 args json items emitted' in (line # lines, ok)))"

definition tail_exit :: "recovery_report \<Rightarrow> nat" where
  "tail_exit report = (if rr_tail_truncated report > 0 then 2 else 0)"

definition cmd_scan ::
  "'k flock \<Rightarrow> os_env \<Rightarrow> (bytes \<Rightarrow> u32) \<Rightarrow> (bytes \<Rightarrow> string) \<Rightarrow> nat \<Rightarrow> nat \<Rightarrow> scan_args \<Rightarrow> bool
   \<Rightarrow> 'k \<Rightarrow> dir option \<Rightarrow> 'k outcome" where
  "cmd_scan fl env crc b64 pid fd args json k dopt =
     (case rl_open fl env crc pid fd k dopt of
        (Inl e, k1, d1) \<Rightarrow> (Inl (Core e), [], k1, d1)
      | (Inr log, k1, d1) \<Rightarrow>
          let k2 = dir_lock_drop fl k1 (rl_lock log) in
          (case rl_scan_iter env (the_dir d1) of
             Inl e \<Rightarrow> (Inl (Core e), [], k2, d1)
           | Inr it \<Rightarrow>
               let (lines, ok) = cmd_scan_loop b64 args json (fst (drain env crc (the_dir d1) it)) 0 in
               if \<not> ok then (Inr 3, lines, k2, d1)
               else (case rl_recovery_report log of
                       Inl e \<Rightarrow> (Inl (Core e), lines, k2, d1)
                     | Inr report \<Rightarrow> (Inr (tail_exit report), lines, k2, d1))))"

section \<open>get\<close>

definition cmd_get ::
  "'k flock \<Rightarrow> os_env \<Rightarrow> (bytes \<Rightarrow> u32) \<Rightarrow> (bytes \<Rightarrow> string) \<Rightarrow> (bytes \<Rightarrow> bytes option) \<Rightarrow> nat \<Rightarrow> nat
   \<Rightarrow> get_args \<Rightarrow> bool \<Rightarrow> 'k \<Rightarrow> dir option \<Rightarrow> 'k outcome" where
  "cmd_get fl env crc b64 b64_decode pid fd args json k dopt =
     (case decode_key b64_decode (ga_key args) (ga_key_base64 args) (ga_key_hex args) of
        Inl e \<Rightarrow> (Inl (BadKey e), [], k, dopt)
      | Inr key \<Rightarrow>
          (case dw_open fl env crc pid fd k dopt of
             (Inl e, k1, d1) \<Rightarrow> (Inl (Core e), [], k1, d1)
           | (Inr store, k1, d1) \<Rightarrow>
               let k2 = dir_lock_drop fl k1 (rl_lock (dw_log store)) in
               (case fst (dw_get env crc store (the_dir d1) key) of
                  Inl e \<Rightarrow> (Inl (Core e), [], k2, d1)
                | Inr (Some v) \<Rightarrow>
                    (Inr 0,
                     if json then [JHit (value_hit_new b64 key v)]
                     else (case render_value_for_get b64 v (bytes_mode_from_arg (ga_bytes args)) (truncate_for (ga_no_truncate args)) of
                             Inr rendered \<Rightarrow> [Text rendered]
                           | Inl hint \<Rightarrow> []),
                     k2, d1)
                | Inr None \<Rightarrow> (Inr 2, if json then [JMiss (value_miss_new b64 key)] else [], k2, d1))))"

section \<open>report, verify\<close>

definition cmd_report ::
  "'k flock \<Rightarrow> os_env \<Rightarrow> (bytes \<Rightarrow> u32) \<Rightarrow> nat \<Rightarrow> nat \<Rightarrow> bool \<Rightarrow> 'k \<Rightarrow> dir option \<Rightarrow> 'k outcome" where
  "cmd_report fl env crc pid fd json k dopt =
     (case rl_open fl env crc pid fd k dopt of
        (Inl e, k1, d1) \<Rightarrow> (Inl (Core e), [], k1, d1)
      | (Inr log, k1, d1) \<Rightarrow>
          let k2 = dir_lock_drop fl k1 (rl_lock log) in
          (case rl_recovery_report log of
             Inl e \<Rightarrow> (Inl (Core e), [], k2, d1)
           | Inr r \<Rightarrow>
               (Inr (tail_exit r),
                if json then [JReport (report_obj_from_report r)] else report_lines r, k2, d1)))"

text \<open>The loop of \<open>verify\<close>: frames, last segment, last offset; \<open>None\<close> on an error item.\<close>

fun verify_loop :: "(error + log_record) list \<Rightarrow> nat \<times> nat \<times> nat \<Rightarrow> (nat \<times> nat \<times> nat) option" where
  "verify_loop [] acc = Some acc"
| "verify_loop (Inl e # items) acc = None"
| "verify_loop (Inr rec # items) (n, sid, off) = verify_loop items (n + 1, rc_segment rec, rc_offset rec)"

definition cmd_verify ::
  "'k flock \<Rightarrow> os_env \<Rightarrow> (bytes \<Rightarrow> u32) \<Rightarrow> nat \<Rightarrow> nat \<Rightarrow> bool \<Rightarrow> 'k \<Rightarrow> dir option \<Rightarrow> 'k outcome" where
  "cmd_verify fl env crc pid fd json k dopt =
     (case rl_open fl env crc pid fd k dopt of
        (Inl e, k1, d1) \<Rightarrow> (Inl (Core e), [], k1, d1)
      | (Inr log, k1, d1) \<Rightarrow>
          let k2 = dir_lock_drop fl k1 (rl_lock log) in
          (case rl_scan_iter env (the_dir d1) of
             Inl e \<Rightarrow> (Inl (Core e), [], k2, d1)
           | Inr it \<Rightarrow>
               let (items, it') = drain env crc (the_dir d1) it in
               (case verify_loop items (0, 0, 0) of
                  None \<Rightarrow> (Inr 3, [], k2, d1)
                | Some (n, sid, off) \<Rightarrow>
                    let final_report = iter_recovery_report it';
                        obj = \<lparr>vfo_schema = SCHEMA, vfo_kind = ''verify'', vfo_frames_checked = n,
                               vfo_crc_failures = 0, vfo_tail_truncated = rr_tail_truncated final_report,
                               vfo_tail_bytes_discarded = rr_tail_bytes_discarded final_report,
                               vfo_last_segment = sid, vfo_last_offset = off\<rparr>
                    in (Inr (tail_exit final_report), if json then [JVerify obj] else verify_lines obj, k2, d1))))"

section \<open>dump\<close>

definition frame_out :: "(bytes \<Rightarrow> string) \<Rightarrow> dump_args \<Rightarrow> bool \<Rightarrow> log_record \<Rightarrow> out_line" where
  "frame_out b64 args json rec =
     (if json then JFrame (frame_line_from_record rec)
      else Text (print_frame_human b64 rec (bytes_mode_from_arg (da_bytes args)) (truncate_for (da_no_truncate args))))"

fun cmd_dump_loop ::
  "(bytes \<Rightarrow> string) \<Rightarrow> dump_args \<Rightarrow> bool \<Rightarrow> (error + log_record) list \<Rightarrow> nat \<Rightarrow> out_line list \<times> bool" where
  "cmd_dump_loop b64 args json [] emitted = ([], True)"
| "cmd_dump_loop b64 args json (Inl e # items) emitted = ([], False)"
| "cmd_dump_loop b64 args json (Inr rec # items) emitted =
     (let line = frame_out b64 args json rec; emitted' = emitted + 1 in
      if (case da_limit args of Some lim \<Rightarrow> lim \<le> emitted' | None \<Rightarrow> False) then ([line], True)
      else (let (lines, ok) = cmd_dump_loop b64 args json items emitted' in (line # lines, ok)))"

definition cmd_dump ::
  "'k flock \<Rightarrow> os_env \<Rightarrow> (bytes \<Rightarrow> u32) \<Rightarrow> (bytes \<Rightarrow> string) \<Rightarrow> nat \<Rightarrow> nat \<Rightarrow> dump_args \<Rightarrow> bool
   \<Rightarrow> 'k \<Rightarrow> dir option \<Rightarrow> 'k outcome" where
  "cmd_dump fl env crc b64 pid fd args json k dopt =
     (case rl_open fl env crc pid fd k dopt of
        (Inl e, k1, d1) \<Rightarrow> (Inl (Core e), [], k1, d1)
      | (Inr log, k1, d1) \<Rightarrow>
          let k2 = dir_lock_drop fl k1 (rl_lock log) in
          (case rl_scan_iter env (the_dir d1) of
             Inl e \<Rightarrow> (Inl (Core e), [], k2, d1)
           | Inr it \<Rightarrow>
               let (lines, ok) = cmd_dump_loop b64 args json (fst (drain env crc (the_dir d1) it)) 0 in
               (Inr (if ok then 0 else 3), lines, k2, d1)))"

section \<open>export, compact\<close>

text \<open>\<open>outfile\<close>: the content of the output file, if it exists; \<open>name\<close> its path as displayed.\<close>

definition cmd_export ::
  "'k flock \<Rightarrow> os_env \<Rightarrow> (bytes \<Rightarrow> u32) \<Rightarrow> (bytes \<Rightarrow> string) \<Rightarrow> (string \<Rightarrow> string \<Rightarrow> string) \<Rightarrow> nat \<Rightarrow> nat
   \<Rightarrow> string \<Rightarrow> bool \<Rightarrow> bool \<Rightarrow> 'k \<Rightarrow> dir option \<Rightarrow> string option \<Rightarrow> 'k outcome \<times> string option" where
  "cmd_export fl env crc b64 json_row pid fd name has_parent json k dopt outfile =
     (if outfile \<noteq> None then ((Inr 1, [], k, dopt), outfile)
      else case dw_open fl env crc pid fd k dopt of
        (Inl e, k1, d1) \<Rightarrow> ((Inl (Core e), [], k1, d1), outfile)
      | (Inr store, k1, d1) \<Rightarrow>
          let k2 = dir_lock_drop fl k1 (rl_lock (dw_log store));
              records_written = length (dw_keys store)
          in (case dw_export_jsonl env crc b64 json_row has_parent store (the_dir d1) outfile of
                (Inl e, _, out') \<Rightarrow> ((Inl (Core e), [], k2, d1), out')
              | (Inr _, _, out') \<Rightarrow>
                  (case out' of
                     None \<Rightarrow> ((Inl (Core (Io StatOutfile)), [], k2, d1), out')
                   | Some content \<Rightarrow>
                       if \<not> works env StatOutfile then ((Inl (Core (Io StatOutfile)), [], k2, d1), out')
                       else
                         let obj = export_obj_new name records_written (length content)
                         in ((Inr 0, if json then [JExport obj] else export_lines obj, k2, d1), out'))))"

text \<open>
  The target directory has a lock of its own, in kernel state \<open>kt\<close>.  When both arguments
  name the same directory (\<open>same\<close>), \<open>compact_to\<close> meets it as \<open>open\<close> has left it.
\<close>

definition cmd_compact ::
  "'k flock \<Rightarrow> os_env \<Rightarrow> os_env \<Rightarrow> (bytes \<Rightarrow> u32) \<Rightarrow> nat \<Rightarrow> nat \<Rightarrow> nat \<Rightarrow> string \<Rightarrow> bool \<Rightarrow> bool
   \<Rightarrow> 'k \<Rightarrow> dir option \<Rightarrow> 'k \<Rightarrow> dir option \<Rightarrow> 'k outcome \<times> 'k \<times> dir option" where
  "cmd_compact fl env env' crc pid fd fdt name same json k dopt kt target =
     (if target \<noteq> None \<and> \<not> works env' ReadTargetDir
      then ((Inl (Core (Io ReadTargetDir)), [], k, dopt), kt, target)
      else if target \<noteq> None \<and> target \<noteq> Some [] then ((Inr 1, [], k, dopt), kt, target)
      else case dw_open fl env crc pid fd k dopt of
        (Inl e, k1, d1) \<Rightarrow> ((Inl (Core e), [], k1, d1), kt, target)
      | (Inr store, k1, d1) \<Rightarrow>
          let k2 = dir_lock_drop fl k1 (rl_lock (dw_log store));
              (kt0, target0) = (if same then (k1, d1) else (kt, target)) in
          (case dw_compact_to fl env env' crc pid fdt kt0 store (the_dir d1) target0 of
             (Inl e, _, kt', target') \<Rightarrow> ((Inl (Core e), [], k2, d1), kt', target')
           | (Inr stats, _, kt', target') \<Rightarrow>
               let obj = compact_obj_new name stats
               in ((Inr 0, if json then [JCompact obj] else compact_lines obj, k2, d1), kt', target')))"

section \<open>check\<close>

fun check_loop :: "os_env \<Rightarrow> (bytes \<Rightarrow> u32) \<Rightarrow> dir \<Rightarrow> bytes list \<Rightarrow> data_wal \<Rightarrow> bool \<times> data_wal" where
  "check_loop env crc d [] store = (True, store)"
| "check_loop env crc d (k # ks) store =
     (case dw_get env crc store d k of
        (Inr (Some _), store') \<Rightarrow> check_loop env crc d ks store'
      | (Inr None, store') \<Rightarrow> (False, store')
      | (Inl e, store') \<Rightarrow> (False, store'))"

definition cmd_check ::
  "'k flock \<Rightarrow> os_env \<Rightarrow> (bytes \<Rightarrow> u32) \<Rightarrow> nat \<Rightarrow> nat \<Rightarrow> bool \<Rightarrow> 'k \<Rightarrow> dir option \<Rightarrow> 'k outcome" where
  "cmd_check fl env crc pid fd json k dopt =
     (case dw_open fl env crc pid fd k dopt of
        (Inl e, k1, d1) \<Rightarrow> (Inl (Core e), [], k1, d1)
      | (Inr store, k1, d1) \<Rightarrow>
          let k2 = dir_lock_drop fl k1 (rl_lock (dw_log store));
              keys = dw_keys store;
              (ok, store') = check_loop env crc (the_dir d1) keys store
          in if \<not> ok then (Inr 3, [], k2, d1)
             else (case rl_recovery_report (dw_log store') of
                     Inl e \<Rightarrow> (Inl (Core e), [], k2, d1)
                   | Inr report \<Rightarrow>
                       let obj = check_obj_new (length keys) report in
                       (Inr (if rr_tail_truncated report > 0 \<or> rr_mid_stream_errors report > 0 then 2 else 0),
                        if json then [JCheck obj] else check_lines obj, k2, d1)))"

text \<open>\<open>main\<close>: an error is printed on standard error and ends with exit code 1.\<close>

definition exit_code :: "cli_error + nat \<Rightarrow> nat" where
  "exit_code r = (case r of Inr c \<Rightarrow> c | Inl e \<Rightarrow> 1)"

end
