(* ===== verification/Cli_Correct.thy ===== *)
theory Cli_Correct
  imports Cli_Commands Data_Wal_Correct
begin

text \<open>
  What the subcommands report about a store, in terms of \<open>log_records\<close> and \<open>contents\<close>:
  the exit code, the lines, and that the segments stay as they are.
\<close>

text \<open>The undecodable tail of the active segment.\<close>

definition active_tail :: "(bytes \<Rightarrow> u32) \<Rightarrow> dir \<Rightarrow> bytes" where
  "active_tail crc d = (if seg_ids d = [] then [] else seg_tail crc d (last (seg_ids d)))"

lemma scan_all_recoverable:
  assumes "all_io env" "dir_ok d" "recoverable crc d"
  shows "scan_all env crc d (seg_ids d) = Inr (scan_result crc d (seg_ids d) empty_scan)"
  using assms by (auto simp: scan_all_iff recoverable_def set_seg_ids)

lemma list_ids_all_io: "all_io env \<Longrightarrow> list_segment_ids env d = Inr (seg_ids d)"
  by (simp add: list_segment_ids_Inr)

lemma iter_recoverable:
  assumes "all_io env" "dir_ok d" "recoverable crc d"
  obtains it where "rl_scan_iter env d = Inr (iter_new (seg_ids d))"
    "drain env crc d (iter_new (seg_ids d)) = (map Inr (log_records crc d), it)"
    "iter_recovery_report it = into_public (scan_result crc d (seg_ids d) empty_scan)"
proof -
  have "rl_scan_iter env d = Inr (iter_new (seg_ids d))"
    using assms(1) by (simp add: rl_scan_iter_def list_ids_all_io)
  moreover have "si_records (scan_result crc d (seg_ids d) empty_scan) = log_records crc d"
    by (simp add: scan_result_def empty_scan_def log_records_def Let_def)
  ultimately show ?thesis
    using that drain_scan_all [of env crc d "seg_ids d"] scan_all_recoverable [OF assms] by auto
qed

lemma opened_report:
  assumes "seg_ids d \<noteq> []"
  shows "rl_recovery_report (opened_log crc fd d) = Inr (into_public (scan_result crc d (seg_ids d) empty_scan))"
    "rr_tail_truncated (into_public (scan_result crc d (seg_ids d) empty_scan)) =
      (if active_tail crc d = [] then 0 else 1)"
    "rr_mid_stream_errors (into_public (scan_result crc d (seg_ids d) empty_scan)) = 0"
    "rr_records_replayed (into_public (scan_result crc d (seg_ids d) empty_scan)) = length (log_records crc d)"
    "rr_tail_bytes_discarded (into_public (scan_result crc d (seg_ids d) empty_scan)) = length (active_tail crc d)"
    "rr_files_scanned (into_public (scan_result crc d (seg_ids d) empty_scan)) = length (seg_ids d)"
    "rl_lock (opened_log crc fd d) = fd"
  using assms
  by (simp_all add: rl_recovery_report_def opened_log_def Let_def scan_result_def into_public_def
      empty_scan_def active_tail_def log_records_def)

text \<open>What every command finds after opening an existing store.\<close>

definition store_ready :: "'k flock \<Rightarrow> os_env \<Rightarrow> nat \<Rightarrow> 'k \<Rightarrow> 'k \<Rightarrow> dir \<Rightarrow> bool" where
  "store_ready fl env fd k k' d \<longleftrightarrow> all_io env \<and> dir_ok d \<and> openable d
     \<and> fl_try_lock_exclusive fl k fd = Some k' \<and> seg_ids d \<noteq> []"

lemma store_opened:
  assumes "store_ready fl env fd k k' d"
  obtains d' where "dir_ok d'" "seg_ids d' = seg_ids d" "seg_ids d' \<noteq> []" "log_records crc d' = log_records crc d"
    "recoverable crc d' = recoverable crc d" "active_tail crc d' = active_tail crc d"
    "\<And>sid. sid \<in> set (seg_ids d) \<Longrightarrow> seg_content d' sid = seg_content d sid"
    "recoverable crc d \<Longrightarrow>
       rl_open fl env crc pid fd k (Some d) = (Inr (opened_log crc fd d'), k', Some d')"
    "\<not> recoverable crc d \<Longrightarrow>
       \<exists>e. rl_open fl env crc pid fd k (Some d) = (Inl e, dir_lock_drop fl k' fd, Some d')"
proof -
  from assms have A: "all_io env" "dir_ok d" "openable d" "fl_try_lock_exclusive fl k fd = Some k'"
    "seg_ids d \<noteq> []" by (simp_all add: store_ready_def)
  show ?thesis
  proof (rule rl_open_eq [OF A(1-4), where crc = crc and pid = pid])
    fix d'
    assume D: "dir_ok d'" "seg_ids d' = (if seg_ids d = [] then [1] else seg_ids d)"
      "log_records crc d' = log_records crc d" "recoverable crc d' = recoverable crc d"
      and C: "\<And>sid. sid \<in> set (seg_ids d) \<Longrightarrow> seg_content d' sid = seg_content d sid"
      and O: "recoverable crc d \<Longrightarrow>
         rl_open fl env crc pid fd k (Some d) = (Inr (opened_log crc fd d'), k', Some d')"
      "\<not> recoverable crc d \<Longrightarrow>
         \<exists>e. rl_open fl env crc pid fd k (Some d) = (Inl e, dir_lock_drop fl k' fd, Some d')"
    have ids: "seg_ids d' = seg_ids d" "seg_ids d' \<noteq> []" using D(2) A(5) by simp_all
    have "active_tail crc d' = active_tail crc d"
      using ids(1) A(5) seg_tail_cong [OF C [OF last_in_set [OF A(5)]], of crc] by (simp add: active_tail_def)
    with that [OF D(1) ids D(3,4) _ C O] show ?thesis by simp
  qed
qed

section \<open>verify and report\<close>

definition health_exit :: "(bytes \<Rightarrow> u32) \<Rightarrow> dir \<Rightarrow> nat" where
  "health_exit crc d = (if \<not> recoverable crc d then 1 else if active_tail crc d = [] then 0 else 2)"

lemma verify_loop_records:
  "verify_loop (map Inr rs) (n, sid, off) =
     Some (n + length rs, if rs = [] then sid else rc_segment (last rs), if rs = [] then off else rc_offset (last rs))"
  by (induction rs arbitrary: n sid off) simp_all

lemma tail_exit_health:
  assumes "recoverable crc d" "seg_ids d \<noteq> []"
  shows "tail_exit (into_public (scan_result crc d (seg_ids d) empty_scan)) = health_exit crc d"
  using assms opened_report [OF assms(2)] by (simp add: tail_exit_def health_exit_def)

lemma cmd_verify_health:
  assumes "store_ready fl env fd k k' d"
  shows "exit_code (fst (cmd_verify fl env crc pid fd json k (Some d))) = health_exit crc d"
proof -
  obtain d' where D: "dir_ok d'" "seg_ids d' = seg_ids d" "seg_ids d' \<noteq> []" "log_records crc d' = log_records crc d"
    "recoverable crc d' = recoverable crc d" "active_tail crc d' = active_tail crc d"
    and O: "recoverable crc d \<Longrightarrow>
       rl_open fl env crc pid fd k (Some d) = (Inr (opened_log crc fd d'), k', Some d')"
    "\<not> recoverable crc d \<Longrightarrow>
       \<exists>e. rl_open fl env crc pid fd k (Some d) = (Inl e, dir_lock_drop fl k' fd, Some d')"
    using store_opened [OF assms, where crc = crc and pid = pid] by metis
  have h: "health_exit crc d' = health_exit crc d" using D by (simp add: health_exit_def)
  show ?thesis
  proof (cases "recoverable crc d")
    case False
    with O(2) show ?thesis by (auto simp: cmd_verify_def exit_code_def health_exit_def)
  next
    case True
    from assms have io: "all_io env" by (simp add: store_ready_def)
    obtain it where I: "rl_scan_iter env d' = Inr (iter_new (seg_ids d'))"
      "drain env crc d' (iter_new (seg_ids d')) = (map Inr (log_records crc d'), it)"
      "iter_recovery_report it = into_public (scan_result crc d' (seg_ids d') empty_scan)"
      using iter_recoverable [OF io D(1), of crc] True D(5) by auto
    show ?thesis
      using O(1) [OF True] I True D(3,5) tail_exit_health [of crc d'] h
      by (simp add: cmd_verify_def the_dir_def verify_loop_records Let_def exit_code_def)
  qed
qed

lemma cmd_report_health:
  assumes "store_ready fl env fd k k' d"
  shows "exit_code (fst (cmd_report fl env crc pid fd json k (Some d))) = health_exit crc d"
proof -
  obtain d' where D: "dir_ok d'" "seg_ids d' = seg_ids d" "seg_ids d' \<noteq> []" "log_records crc d' = log_records crc d"
    "recoverable crc d' = recoverable crc d" "active_tail crc d' = active_tail crc d"
    and O: "recoverable crc d \<Longrightarrow>
       rl_open fl env crc pid fd k (Some d) = (Inr (opened_log crc fd d'), k', Some d')"
    "\<not> recoverable crc d \<Longrightarrow>
       \<exists>e. rl_open fl env crc pid fd k (Some d) = (Inl e, dir_lock_drop fl k' fd, Some d')"
    using store_opened [OF assms, where crc = crc and pid = pid] by metis
  have h: "health_exit crc d' = health_exit crc d" using D by (simp add: health_exit_def)
  show ?thesis
  proof (cases "recoverable crc d")
    case False
    with O(2) show ?thesis by (auto simp: cmd_report_def exit_code_def health_exit_def)
  next
    case True
    then show ?thesis
      using O(1) [OF True] D(3,5) tail_exit_health [of crc d'] opened_report(1) [OF D(3)] h
      by (simp add: cmd_report_def Let_def exit_code_def)
  qed
qed

section \<open>scan\<close>

text \<open>The limit as the loop applies it: it is checked after a record was printed.\<close>

definition limited :: "nat option \<Rightarrow> 'a list \<Rightarrow> 'a list" where
  "limited lim xs = (case lim of None \<Rightarrow> xs | Some n \<Rightarrow> take (max 1 n) xs)"

lemma cmd_scan_loop_records:
  "cmd_scan_loop b64 args json (map Inr rs) emitted =
     ((case sa_limit args of None \<Rightarrow> id | Some lim \<Rightarrow> take (max 1 (lim - emitted)))
        (map (record_out b64 args json) (filter (\<lambda>r. \<not> before_start args r) rs)), True)"
proof (induction rs arbitrary: emitted)
  case Nil
  then show ?case by (simp split: option.split)
next
  case (Cons r rs)
  show ?case
  proof (cases "sa_limit args")
    case None
    with Cons.IH [of "emitted + 1"] Cons.IH [of emitted] show ?thesis by (simp add: Let_def)
  next
    case (Some lim)
    have "max 1 (lim - emitted) = Suc (max 1 (lim - (emitted + 1)))" if "\<not> lim \<le> emitted + 1"
      using that by (simp add: max_def) linarith
    moreover have "max 1 (lim - emitted) = 1" if "lim \<le> emitted + 1"
      using that by simp
    ultimately show ?thesis
      using Some Cons.IH [of "emitted + 1"] Cons.IH [of emitted] by (auto simp: Let_def)
  qed
qed

lemma cmd_scan_records:
  assumes "store_ready fl env fd k k' d" "recoverable crc d"
  shows "\<exists>d'. cmd_scan fl env crc b64 pid fd args json k (Some d) =
    (Inr (health_exit crc d),
     limited (sa_limit args) (map (record_out b64 args json)
       (filter (\<lambda>r. \<not> before_start args r) (log_records crc d))),
     dir_lock_drop fl k' fd, Some d') \<and> (\<forall>sid\<in>set (seg_ids d). seg_content d' sid = seg_content d sid)"
proof -
  obtain d' where D: "dir_ok d'" "seg_ids d' = seg_ids d" "seg_ids d' \<noteq> []" "log_records crc d' = log_records crc d"
    "recoverable crc d' = recoverable crc d" "active_tail crc d' = active_tail crc d"
    and C: "\<And>sid. sid \<in> set (seg_ids d) \<Longrightarrow> seg_content d' sid = seg_content d sid"
    and O: "recoverable crc d \<Longrightarrow>
       rl_open fl env crc pid fd k (Some d) = (Inr (opened_log crc fd d'), k', Some d')"
    using store_opened [OF assms(1), where crc = crc and pid = pid] by metis
  from assms have io: "all_io env" by (simp add: store_ready_def)
  have h: "health_exit crc d' = health_exit crc d" using D by (simp add: health_exit_def)
  obtain it where I: "rl_scan_iter env d' = Inr (iter_new (seg_ids d'))"
    "drain env crc d' (iter_new (seg_ids d')) = (map Inr (log_records crc d'), it)"
    using iter_recoverable [OF io D(1), of crc] assms(2) D(5) by auto
  have "recoverable crc d'" using D(5) assms(2) by simp
  then show ?thesis
    using O [OF assms(2)] I D(3,4) tail_exit_health [of crc d'] h C opened_report [OF D(3)]
      cmd_scan_loop_records [of b64 args json "log_records crc d'" 0]
    by (auto simp: cmd_scan_def the_dir_def Let_def limited_def split: option.split)
qed

section \<open>get and check\<close>

lemma cmd_get_contents:
  assumes "store_ready fl env fd k k' d" "recoverable crc d"
    and key: "decode_key b64_decode (ga_key args) (ga_key_base64 args) (ga_key_hex args) = Inr key"
  shows "fst (cmd_get fl env crc b64 b64_decode pid fd args True k (Some d)) =
      Inr (if contents crc d key = None then 2 else 0)"
    "fst (snd (cmd_get fl env crc b64 b64_decode pid fd args True k (Some d))) =
      (case contents crc d key of Some v \<Rightarrow> [JHit (value_hit_new b64 key v)]
       | None \<Rightarrow> [JMiss (value_miss_new b64 key)])"
proof -
  from assms(1) have A: "all_io env" "dir_ok d" "openable d" "fl_try_lock_exclusive fl k fd = Some k'"
    by (simp_all add: store_ready_def)
  obtain w d' where W: "dw_open fl env crc pid fd k (Some d) = (Inr w, k', Some d')"
    "kd_inv crc w d'" "contents crc d' = contents crc d"
    using dw_open_contents [OF A assms(2), where pid = pid] by metis
  obtain p where g: "dw_get env crc w d' key = (Inr (contents crc d key), w\<lparr>dw_pool := p\<rparr>)"
    using get_contents [OF W(2) A(1), of key] W(3) by auto
  show "fst (cmd_get fl env crc b64 b64_decode pid fd args True k (Some d)) =
      Inr (if contents crc d key = None then 2 else 0)"
    using W(1) g key by (simp add: cmd_get_def the_dir_def Let_def split: option.split)
  show "fst (snd (cmd_get fl env crc b64 b64_decode pid fd args True k (Some d))) =
      (case contents crc d key of Some v \<Rightarrow> [JHit (value_hit_new b64 key v)]
       | None \<Rightarrow> [JMiss (value_miss_new b64 key)])"
    using W(1) g key by (simp add: cmd_get_def the_dir_def Let_def split: option.split)
qed

text \<open>
  A live key is read back exactly when the read of its record in the file succeeds, in a
  store whose segments can all be opened.
\<close>

lemma get_live_record:
  assumes inv: "kd_inv crc w d" and r: "live (log_records crc d) k = Some r"
    and op: "works env (OpenRead (rc_segment r))"
  obtains res p where "dw_get env crc w d k = (res, w\<lparr>dw_pool := p\<rparr>)" "pool_inv p"
    "res = Inr (Some (rc_payload r)) \<and> works env (Pread (rc_segment r) (rc_offset r) (rc_len r))
     \<or> (\<exists>e. res = Inl e) \<and> \<not> works env (Pread (rc_segment r) (rc_offset r) (rc_len r))"
proof -
  obtain res w' where g: "dw_get env crc w d k = (res, w')" by force
  let ?io = "works env (Pread (rc_segment r) (rc_offset r) (rc_len r))"
  have L: "r \<in> set (log_records crc d)" "rc_type r = Put" using live_record [OF r] by simp_all
  note R = log_record_at [OF L(1)]
  have m: "map_of (dw_map w) k = Some (ref_of_record r)" and P: "pool_inv (dw_pool w)" "dir_ok d"
    using inv r by (simp_all add: kd_inv_def keydir_ok_def)
  obtain x p where rd: "read_at env d (dw_pool w) (rc_segment r) (rc_offset r) (rc_len r) = (x, p)" by force
  have p: "pool_inv p" using read_at_inv [OF P(1), of env d "rc_segment r" "rc_offset r" "rc_len r"] rd by simp
  have w': "w' = w\<lparr>dw_pool := p\<rparr>" using g m rd by (auto simp: dw_get_def ref_of_record_def split: sum.splits)
  have "res = Inr (Some (rc_payload r))" if ?io
  proof -
    have c: "seg_content d (rc_segment r) = Some (seg_bytes d (rc_segment r))"
      using R P(2) by (intro seg_content_seg_bytes) (simp add: set_seg_ids)
    have "x = Inr (wire crc (frame_of r))"
      using read_at_ok [OF P(1) c _ op that] R rd
      by (metis bytes_at_def fst_conv ref_of_record_def record_ref.select_convs(1,2,3))
    moreover have "decode_payload_for_get crc (wire crc (frame_of r)) (ref_of_record r) = Inr (rc_payload r)"
      using decode_payload_ok [of "frame_of r" "ref_of_record r" crc] R L(2)
      by (simp add: frame_of_def ref_of_record_def)
    ultimately show ?thesis using g m rd by (simp add: dw_get_def ref_of_record_def)
  qed
  moreover have "\<exists>e. res = Inl e" if "\<not> ?io"
  proof -
    have "\<exists>e. x = Inl e" using rd that by (auto simp: read_at_def split: prod.splits sum.splits option.splits)
    then show ?thesis using g m rd by (auto simp: dw_get_def ref_of_record_def)
  qed
  ultimately show ?thesis using that [of res p] g w' p by blast
qed

definition all_readable :: "os_env \<Rightarrow> log_record list \<Rightarrow> bytes set \<Rightarrow> bool" where
  "all_readable env rs ks \<longleftrightarrow>
     (\<forall>k\<in>ks. \<forall>r. live rs k = Some r \<longrightarrow> works env (Pread (rc_segment r) (rc_offset r) (rc_len r)))"

lemma check_loop_reads:
  assumes "kd_inv crc w d" "scan_io env (seg_ids d)" "set ks \<subseteq> dom (contents crc d)"
  shows "\<exists>p. check_loop env crc d ks w = (all_readable env (log_records crc d) (set ks), w\<lparr>dw_pool := p\<rparr>)"
  using assms
proof (induction ks arbitrary: w)
  case Nil
  then show ?case by (intro exI [of _ "dw_pool w"]) (simp add: all_readable_def)
next
  case (Cons k ks)
  from Cons.prems(3) obtain r where r: "live (log_records crc d) k = Some r"
    by (auto simp: contents_def view_def)
  have "rc_segment r \<in> set (seg_ids d)" using live_record [OF r] log_record_at [of r crc d] by blast
  then have op: "works env (OpenRead (rc_segment r))" using Cons.prems(2) by (simp add: scan_io_def)
  from get_live_record [OF Cons.prems(1) r op] obtain res p where
    g: "dw_get env crc w d k = (res, w\<lparr>dw_pool := p\<rparr>)" "pool_inv p"
    and c: "res = Inr (Some (rc_payload r)) \<and> works env (Pread (rc_segment r) (rc_offset r) (rc_len r))
      \<or> (\<exists>e. res = Inl e) \<and> \<not> works env (Pread (rc_segment r) (rc_offset r) (rc_len r))" .
  from c show ?case
  proof (elim disjE conjE exE)
    assume "res = Inr (Some (rc_payload r))" "works env (Pread (rc_segment r) (rc_offset r) (rc_len r))"
    with Cons.IH [OF kd_inv_pool [OF Cons.prems(1) g(2)]] Cons.prems r g(1) show ?case
      by (auto simp: all_readable_def)
  qed (use g(1) r in \<open>auto simp: all_readable_def\<close>)
qed

text \<open>A store that was opened has been read as a whole: its segments can be opened.\<close>

lemma dw_open_scanned:
  assumes "dw_open fl env crc pid fd k dopt = (Inr w, k', Some d')"
  shows "scan_io env (seg_ids d')" "recoverable crc d'"
proof -
  from assms obtain m where "rebuild_keydir_lazy env crc d' = Inr m"
    by (auto simp: dw_open_def split: prod.splits sum.splits)
  then obtain si where "scan_all env crc d' (seg_ids d') = Inr si"
    by (auto simp: rebuild_keydir_lazy_def rl_scan_iter_def for_items_scan list_segment_ids_Inr split: sum.splits)
  then show "scan_io env (seg_ids d')" "recoverable crc d'" by (simp_all add: scan_all_iff recoverable_def)
qed

lemma cmd_check_reads:
  assumes o: "dw_open fl env crc pid fd k (Some d) = (Inr w, k', Some d')" and ok: "dir_ok d"
  shows "\<exists>obj. cmd_check fl env crc pid fd True k (Some d) =
      (if all_readable env (log_records crc d) (dom (contents crc d))
       then (Inr (health_exit crc d'), [JCheck obj], dir_lock_drop fl k' fd, Some d')
       else (Inr 3, [], dir_lock_drop fl k' fd, Some d'))
    \<and> cho_keys_checked obj = card (dom (contents crc d))
    \<and> cho_tail_bytes_discarded obj = length (active_tail crc d')"
proof -
  obtain d2 where W': "Some d' = Some d2" "kd_inv crc w d2" "dw_log w = opened_log crc fd d2"
    "contents crc d2 = contents crc d" "log_records crc d2 = log_records crc d"
    "seg_ids d2 = (if seg_ids d = [] then [1] else seg_ids d)"
    by (rule dw_open_Inr [OF o ok], rule that)
  have W: "kd_inv crc w d'" "contents crc d' = contents crc d" "log_records crc d' = log_records crc d"
    "dw_log w = opened_log crc fd d'" "seg_ids d' \<noteq> []"
    using W' by simp_all
  obtain p where c: "check_loop env crc d' (dw_keys w) w =
      (all_readable env (log_records crc d) (dom (contents crc d)), w\<lparr>dw_pool := p\<rparr>)"
    using check_loop_reads [OF W(1) dw_open_scanned(1) [OF o]] keys_contents [OF W(1)] W(2,3) by fastforce
  have n: "length (dw_keys w) = card (dom (contents crc d))"
    using keys_contents [OF W(1)] distinct_card W(2) by metis
  show ?thesis
    using o W(4) dw_open_scanned(2) [OF o] c opened_report [OF W(5)] n
    by (intro exI [of _ "check_obj_new (card (dom (contents crc d))) (into_public (scan_result crc d' (seg_ids d') empty_scan))"])
      (simp add: cmd_check_def the_dir_def Let_def health_exit_def check_obj_new_def)
qed

end
