(* ===== verification/Torn_Tail.thy ===== *)
theory Torn_Tail
  imports Data_Wal_Correct
begin

text \<open>
  Appending after a torn tail.  \<open>open\<close> of \<open>record_log.rs\<close> takes the logical end of the
  last segment as \<open>active_size\<close> and leaves the torn bytes in the file, since (comment at
  line 174) appends \<open>always go to the very end of the file as it currently exists\<close>: so
  they land behind the torn bytes, which nothing removes, while \<open>active_size\<close> points in
  front of them.  The theorems here say what that does to the records appended next.
\<close>

text \<open>The bytes \<open>append_record\<close> writes, for any handle that is not poisoned.\<close>

lemma append_record_run:
  assumes "rl_poisoned log = None" and fok: "frame_ok (append_frame log rt k v)"
    and io: "works env (WriteAll (rl_active_id log))"
    and sz: "rl_active_size log + wire_len (append_frame log rt k v) < 2 ^ 64"
    and tx: "checked_succ (rl_next_txid log) = Some t"
  defines "f \<equiv> append_frame log rt k v"
  shows "rl_append_record env crc log d rt k v =
    (Inr \<lparr>ref_segment = rl_active_id log, ref_offset = rl_active_size log, ref_len = wire_len f\<rparr>,
     log\<lparr>rl_active_size := rl_active_size log + wire_len f, rl_next_txid := t\<rparr>,
     append_file d (segment_name (rl_active_id log)) (wire crc f))"
proof -
  have enc: "encode_record crc rt (rl_next_txid log) k v = Inr (wire crc f)"
    using fok by (auto simp: encode_record_Inr f_def append_frame_def)
  show ?thesis
    using assms(1) io sz tx enc frame_ok_wire_len_u32 [OF fok]
    by (simp add: rl_append_record_def check_poisoned_def Let_def length_wire
        checked_add_u64_def f_def [symmetric])
qed

text \<open>The active segment holds \<open>fs\<close>, then the torn \<open>t\<close>; \<open>bs\<close> is written behind it.\<close>

lemma append_behind_tail:
  assumes ok: "dir_ok d" and ne: "seg_ids d \<noteq> []"
  defines "a \<equiv> last (seg_ids d)"
  assumes p: "parse_frame crc (seg_tail crc d a @ bs) = None"
  defines "d' \<equiv> append_file d (segment_name a) bs"
  shows "seg_ids d' = seg_ids d" "dir_ok d'" "seg_tail crc d' a = seg_tail crc d a @ bs"
    "log_records crc d' = log_records crc d"
proof -
  have c: "seg_content d a = Some (seg_bytes d a)"
    using ok ne by (intro seg_content_seg_bytes) (simp add: last_seg_content a_def)
  have c': "seg_content d' a = Some (stream crc (seg_frames crc d a) @ seg_tail crc d a @ bs)"
    using c seg_split(1) [of d a crc] by (simp add: d'_def seg_content_append)
  note S = seg_splitI [OF c' seg_split(2) p]
  show ids: "seg_ids d' = seg_ids d" "dir_ok d'" using ok by (simp_all add: d'_def)
  show "seg_tail crc d' a = seg_tail crc d a @ bs" by (rule S)
  have "ids_records crc d' (butlast (seg_ids d)) = ids_records crc d (butlast (seg_ids d))"
    using last_not_in_butlast [OF seg_ids_distinct [OF ok] ne]
    by (intro ids_records_cong) (auto simp: a_def d'_def seg_content_append)
  then show "log_records crc d' = log_records crc d"
    using ne S(1) ids(1) by (simp add: log_records_last seg_records_def flip: a_def)
qed

section \<open>A tail that breaks the header check\<close>

text \<open>Every frame starts with the same six bytes, the type byte and the zero flags.\<close>

lemma wire_start: "\<exists>xs. wire crc f = [0x44, 0x57, 0x41, 0x4C, 1, 0, as_byte (fr_type f), 0] @ xs"
proof -
  have v: "le_bytes 2 WIRE_VERSION = [1, 0]" by code_simp
  show ?thesis by (simp add: wire_def frame_body_def frame_header_def MAGIC_def v)
qed

lemma torn_magic:
  "slice 0 4 ([0x44 :: u8, 0x44, 0x57, 0x41] @ xs) \<noteq> MAGIC"
  "slice 0 4 ([0x44 :: u8, 0x57, 0x44, 0x57] @ xs) \<noteq> MAGIC"
  "slice 0 4 ([0x44 :: u8, 0x57, 0x41, 0x44] @ xs) \<noteq> MAGIC"
  by (simp_all add: slice_def MAGIC_def)

lemma torn_version:
  "le_word [0x44, 0x57] \<noteq> WIRE_VERSION" "le_word [1, 0x44] \<noteq> WIRE_VERSION"
  by code_simp+

lemma verdict_magic: "slice 0 4 h \<noteq> MAGIC \<Longrightarrow> header_verdict h \<noteq> None"
  by (simp add: header_verdict_def)

lemma verdict_version: "le_word (slice 4 6 h) \<noteq> WIRE_VERSION \<Longrightarrow> header_verdict h \<noteq> None"
  by (simp add: header_verdict_def)

lemma verdict_type: "\<not> h ! 6 \<le> 2 \<Longrightarrow> header_verdict h \<noteq> None"
  by (simp add: header_verdict_def)

lemma verdict_flags: "h ! 7 \<noteq> 0 \<Longrightarrow> header_verdict h \<noteq> None"
  by (simp add: header_verdict_def)

lemma torn_header_bad:
  assumes "0 < n" "n < 8"
  shows "header_verdict (take 24 (take n (wire crc f) @ wire crc g)) \<noteq> None"
proof -
  obtain xs where x: "wire crc f = [0x44, 0x57, 0x41, 0x4C, 1, 0, as_byte (fr_type f), 0] @ xs"
    using wire_start by blast
  obtain ys where y: "wire crc g = [0x44, 0x57, 0x41, 0x4C, 1, 0, as_byte (fr_type g), 0] @ ys"
    using wire_start by blast
  consider "n = 1" | "n = 2" | "n = 3" | "n = 4" | "n = 5" | "n = 6" | "n = 7"
    using assms by linarith
  then show ?thesis
  proof cases
    case 1
    show ?thesis unfolding x y 1
      by (rule verdict_magic) (use torn_magic(1) in \<open>simp add: slice_def\<close>)
  next
    case 2
    show ?thesis unfolding x y 2
      by (rule verdict_magic) (use torn_magic(2) in \<open>simp add: slice_def\<close>)
  next
    case 3
    show ?thesis unfolding x y 3
      by (rule verdict_magic) (use torn_magic(3) in \<open>simp add: slice_def\<close>)
  next
    case 4
    show ?thesis unfolding x y 4
      by (rule verdict_version) (use torn_version(1) in \<open>simp add: slice_def\<close>)
  next
    case 5
    show ?thesis unfolding x y 5
      by (rule verdict_version) (use torn_version(2) in \<open>simp add: slice_def\<close>)
  next
    case 6
    show ?thesis unfolding x y 6 by (rule verdict_type) simp
  next
    case 7
    show ?thesis unfolding x y 7 by (rule verdict_flags) simp
  qed
qed

section \<open>The consequences\<close>

text \<open>\<open>open\<close> never succeeds on a directory that is not recoverable, whatever fails.\<close>

lemma rl_open_Inr_recoverable:
  "rl_open fl env crc pid fd k (Some d) = (Inr log, k', d') \<Longrightarrow> dir_ok d \<Longrightarrow> recoverable crc d"
  by (rule rl_open_Inr)

lemma torn_tail_of:
  assumes "0 < n" "n < 8"
  shows "\<exists>e. tail_of crc (take n (wire crc f) @ wire crc g) = BrokenTail e"
    "parse_frame crc (take n (wire crc f) @ wire crc g) = None"
proof -
  let ?bs = "take n (wire crc f) @ wire crc g"
  obtain e where "header_verdict (take 24 ?bs) = Some e"
    using torn_header_bad [OF assms, of crc f g] by auto
  moreover have "24 \<le> length ?bs" using wire_len_ge [of g] by (simp add: length_wire)
  ultimately have e: "decode_next crc ?bs 0 = Inl e" by (simp add: decode_next_Inl)
  have "?bs \<noteq> []" using wire_len_ge [of g] by (auto simp flip: length_0_conv simp: length_wire)
  with e show "\<exists>e. tail_of crc ?bs = BrokenTail e" by (simp add: tail_of_def)
  from e show "parse_frame crc ?bs = None" by (simp add: parse_frame_def)
qed

text \<open>What an append and an fsync do on a handle just opened.\<close>

lemma opened_append:
  fixes rt :: record_type
  assumes io: "all_io env" and ok: "dir_ok d" and ne: "seg_ids d \<noteq> []"
    and lens: "length k \<le> MAX_KEY_LEN" "length v \<le> MAX_PAYLOAD_LEN"
    and rm: "room (opened_log crc fd d) (record_wire_size (length k) (length v)) 1"
  defines "g \<equiv> append_frame (opened_log crc fd d) rt k v"
  obtains ref log' where
    "rl_append_record env crc (opened_log crc fd d) d rt k v =
       (Inr ref, log', append_file d (segment_name (last (seg_ids d))) (wire crc g))"
    "rl_fsync env log' = (Inr (), log')" "frame_ok g"
proof -
  let ?log = "opened_log crc fd d"
  note F = opened_log_fields(1-3) [OF ne, of crc fd]
  have fok: "frame_ok g" "wire_len g = record_wire_size (length k) (length v)"
    using lens by (simp_all add: g_def frame_ok_def append_frame_def wire_len_def)
  obtain t where t: "checked_succ (rl_next_txid ?log) = Some t"
    using room_succ [of ?log "record_wire_size (length k) (length v)" 0] rm by auto
  have sz: "rl_active_size ?log + wire_len (append_frame ?log rt k v) < 2 ^ 64"
    using rm fok(2) by (simp add: room_def g_def)
  note R = append_record_run [OF F(2) fok(1) [unfolded g_def] all_io_works [OF io] sz t, where d = d and crc = crc, folded g_def]
  show ?thesis
    by (rule that [OF R [unfolded F(1)]]) (use io F(2) fok(1) in \<open>simp_all add: rl_fsync_def check_poisoned_def\<close>)
qed

lemma torn_append_unrecoverable:
  assumes ok: "dir_ok d" and ne: "seg_ids d \<noteq> []"
    and t: "seg_tail crc d (last (seg_ids d)) = take n (wire crc f)" and n: "0 < n" "n < 8"
  shows "\<not> recoverable crc (append_file d (segment_name (last (seg_ids d))) (wire crc g))"
proof -
  note T = torn_tail_of [OF n, of crc f g, folded t]
  note A = append_behind_tail [OF ok ne T(2)]
  from T(1) have "\<not> tolerated (tail_of crc (seg_tail crc d (last (seg_ids d)) @ wire crc g))" by auto
  then show ?thesis
    using A(1,3) ne by (simp add: recoverable_def recoverable_ids_iff)
qed

section \<open>Appends that the torn tail swallows\<close>

text \<open>
  When the torn frame has its whole header, the header announces more bytes than are
  there, and a new frame that fits into the announced length becomes part of the tail.
\<close>

lemma swallowed_tail:
  assumes "frame_ok f" "24 \<le> n" "n + wire_len g < wire_len f"
  shows "parse_frame crc (take n (wire crc f) @ wire crc g) = None"
    "tail_of crc (take n (wire crc f) @ wire crc g) = ShortTail"
proof -
  let ?t = "take n (wire crc f) @ wire crc g"
  have "take 24 ?t = frame_header f"
    using assms(2,3) by (simp add: wire_def frame_body_def)
  moreover have "length ?t < wire_len f" using assms(3) by (simp add: length_wire)
  ultimately have "decode_next crc ?t 0 = Inr (Truncated (length ?t) (wire_len f))"
    by (rule decode_short [OF assms(1)])
  then show "parse_frame crc ?t = None" "tail_of crc ?t = ShortTail"
    by (simp_all add: parse_frame_def tail_of_def)
qed

lemma torn_append_swallowed:
  assumes ok: "dir_ok d" and ne: "seg_ids d \<noteq> []" and rec: "recoverable crc d"
    and t: "seg_tail crc d (last (seg_ids d)) = take n (wire crc f)"
    and f: "frame_ok f" "24 \<le> n" "n + wire_len g < wire_len f"
  defines "d' \<equiv> append_file d (segment_name (last (seg_ids d))) (wire crc g)"
  shows "recoverable crc d'" "log_records crc d' = log_records crc d" "dir_ok d'" "seg_ids d' = seg_ids d"
proof -
  note T = swallowed_tail [OF f, of crc, folded t]
  note A = append_behind_tail [OF ok ne T(1), folded d'_def]
  show "log_records crc d' = log_records crc d" "dir_ok d'" "seg_ids d' = seg_ids d" by (rule A)+
  have "seg_tail crc d' i = seg_tail crc d i" if "i \<in> set (butlast (seg_ids d))" for i
    using that last_not_in_butlast [OF seg_ids_distinct [OF ok] ne]
    by (intro seg_tail_cong) (auto simp: d'_def seg_content_append)
  then show "recoverable crc d'"
    using rec A(1,3) T(2) ne by (simp add: recoverable_def recoverable_ids_iff)
qed

text \<open>Room in a handle just opened, in terms of the files.\<close>

lemma opened_room:
  assumes ne: "seg_ids d \<noteq> []" and sz: "length (seg_bytes d (last (seg_ids d))) + n < 2 ^ 64"
    and tx: "unat (fold max (map rc_txid (log_records crc d)) 0) + 2 < 2 ^ 64"
  shows "room (opened_log crc lock d) n 1"
proof -
  let ?m = "fold max (map rc_txid (log_records crc d)) 0"
  have "?m \<noteq> - 1" using tx by (auto simp: unsigned_minus_1_eq_mask mask_eq_exp_minus_1)
  then obtain t where t: "checked_succ ?m = Some t" by (auto simp: checked_succ_def)
  have "length (stream crc (seg_frames crc d (last (seg_ids d)))) \<le> length (seg_bytes d (last (seg_ids d)))"
    using arg_cong [OF seg_split(1) [of d "last (seg_ids d)" crc], of length] by simp
  with sz tx t checked_succ_Some [OF t] show ?thesis
    by (simp add: room_def opened_log_fields [OF ne] opened_next_txid_eq [OF ne])
qed

end
