(* ===== verification/Cli_Main.thy ===== *)
theory Cli_Main
  imports Cli_Commands
begin

text \<open>
  The command line as a whole: the subcommands of \<open>crates/datawal-cli/src/cli.rs\<close>, the
  \<open>dispatch\<close> of \<open>commands.rs\<close> and \<open>main\<close>.  The machine it runs on is a \<open>world\<close>: the
  directories and files by path, and for each directory the kernel's state of the lock on
  its \<open>.lock\<close>.  Two paths name the same object when they are equal; a store directory has no
  subdirectory that is a store, and the output file of \<open>export\<close> lies outside of stores.  A
  \<open>host\<close> holds what the program is run with.
\<close>

record 'k world =
  wd_dirs :: "string \<Rightarrow> dir option"
  wd_locks :: "string \<Rightarrow> 'k"
  wd_files :: "string \<Rightarrow> string option"

text \<open>\<open>ho_env\<close>: the calls on the store; \<open>ho_env'\<close>: those on a compaction target.\<close>

record 'k host =
  ho_flock :: "'k flock"
  ho_env :: os_env
  ho_env' :: os_env
  ho_crc :: "bytes \<Rightarrow> u32"
  ho_b64 :: "bytes \<Rightarrow> string"
  ho_b64_decode :: "bytes \<Rightarrow> bytes option"
  ho_json_row :: "string \<Rightarrow> string \<Rightarrow> string"
  ho_pid :: nat
  ho_fd :: nat
  ho_fdt :: nat
  ho_has_parent :: "string \<Rightarrow> bool"

datatype command =
    Scan string scan_args | Get string get_args | Report string | Verify string
  | Dump string dump_args | Export string string | Compact string string | Check string

record cli =
  cli_json :: bool
  cli_command :: command

text \<open>The store a command names, and what a command on it leaves.\<close>

fun command_store :: "command \<Rightarrow> string" where
  "command_store (Scan s _) = s"
| "command_store (Get s _) = s"
| "command_store (Report s) = s"
| "command_store (Verify s) = s"
| "command_store (Dump s _) = s"
| "command_store (Export s _) = s"
| "command_store (Compact s _) = s"
| "command_store (Check s) = s"

definition leave :: "'k world \<Rightarrow> string \<Rightarrow> 'k outcome \<Rightarrow> (cli_error + nat) \<times> out_line list \<times> 'k world" where
  "leave wd s out = (case out of (r, lines, k, d) \<Rightarrow>
     (r, lines, wd\<lparr>wd_dirs := (wd_dirs wd)(s := d), wd_locks := (wd_locks wd)(s := k)\<rparr>))"

definition dispatch :: "'k host \<Rightarrow> cli \<Rightarrow> 'k world \<Rightarrow> (cli_error + nat) \<times> out_line list \<times> 'k world" where
  "dispatch h c wd =
     (let json = cli_json c; s = command_store (cli_command c);
          fl = ho_flock h; env = ho_env h; crc = ho_crc h; b64 = ho_b64 h; pid = ho_pid h; fd = ho_fd h;
          k = wd_locks wd s; d = wd_dirs wd s in
      case cli_command c of
        Scan _ args \<Rightarrow> leave wd s (cmd_scan fl env crc b64 pid fd args json k d)
      | Get _ args \<Rightarrow> leave wd s (cmd_get fl env crc b64 (ho_b64_decode h) pid fd args json k d)
      | Report _ \<Rightarrow> leave wd s (cmd_report fl env crc pid fd json k d)
      | Verify _ \<Rightarrow> leave wd s (cmd_verify fl env crc pid fd json k d)
      | Dump _ args \<Rightarrow> leave wd s (cmd_dump fl env crc b64 pid fd args json k d)
      | Export _ outfile \<Rightarrow>
          (case cmd_export fl env crc b64 (ho_json_row h) pid fd outfile (ho_has_parent h outfile) json k d
                  (wd_files wd outfile) of
             (out, content) \<Rightarrow> leave (wd\<lparr>wd_files := (wd_files wd)(outfile := content)\<rparr>) s out)
      | Compact _ t \<Rightarrow>
          (case cmd_compact fl env (ho_env' h) crc pid fd (ho_fdt h) t (s = t) json k d (wd_locks wd t) (wd_dirs wd t) of
             (out, kt, dt) \<Rightarrow>
               leave (if s = t then wd
                      else wd\<lparr>wd_dirs := (wd_dirs wd)(t := dt), wd_locks := (wd_locks wd)(t := kt)\<rparr>) s out)
      | Check _ \<Rightarrow> leave wd s (cmd_check fl env crc pid fd json k d))"

text \<open>\<open>main\<close> after clap has parsed: the exit code of the process.\<close>

definition cli_main :: "'k host \<Rightarrow> cli \<Rightarrow> 'k world \<Rightarrow> nat \<times> out_line list \<times> 'k world" where
  "cli_main h c wd = (case dispatch h c wd of (r, lines, wd') \<Rightarrow> (exit_code r, lines, wd'))"

end
