(* ===== verification/Cli_Main_Correct.thy ===== *)
theory Cli_Main_Correct
  imports Cli_Main Data_Wal_Correct
begin

text \<open>
  What any run of the command line leaves of the directories, files and locks it meets,
  whatever the operating system does.
\<close>

section \<open>Opening keeps the log\<close>

definition log_kept :: "dir \<Rightarrow> dir \<Rightarrow> bool" where
  "log_kept d d' \<longleftrightarrow> dir_ok d' \<and> (\<forall>crc. log_records crc d' = log_records crc d)
     \<and> (\<forall>sid\<in>set (seg_ids d). seg_content d' sid = seg_content d sid)"

lemma log_kept_refl [simp]: "log_kept d d \<longleftrightarrow> dir_ok d"
  by (simp add: log_kept_def)

lemma log_kept_same: "dir_ok d' \<Longrightarrow> seg_ids d' = seg_ids d \<Longrightarrow> (\<And>sid. seg_content d' sid = seg_content d sid) \<Longrightarrow> log_kept d d'"
  by (simp add: log_kept_def log_records_def) (metis ids_records_cong)

lemma log_kept_trans: "log_kept d d1 \<Longrightarrow> seg_ids d1 = seg_ids d \<Longrightarrow> log_kept d1 d2 \<Longrightarrow> log_kept d d2"
  by (simp add: log_kept_def)

lemma ensure_segment_kept:
  assumes e: "ensure_segment env d (seg_ids d) = (r, d')" and ok: "dir_ok d"
  shows "log_kept d d'"
proof (cases "d' = d")
  case False
  then have "ensure_segment all_works d (seg_ids d) = (Inr (seg_ids d @ [1]), d')"
    using e by (auto simp: ensure_segment_def split: if_splits option.splits)
  from ensure_segment_Inr [OF this ok] show ?thesis by (simp add: log_kept_def)
qed (use ok in simp)

lemma rl_open_kept:
  assumes o: "rl_open fl env crc pid fd k (Some d) = (r, k', dopt)" and ok: "dir_ok d"
  shows "\<exists>d'. dopt = Some d' \<and> log_kept d d'"
proof (cases "works env CreateDirAll")
  case True
  obtain r1 k1 d1 where a: "dir_lock_acquire fl env pid fd k d = (r1, k1, d1)" by (metis prod_cases3)
  note A = acquire_dir_ok [OF a ok] acquire_seg_ids [OF a ok] acquire_content [OF a]
  have k: "log_kept d d1" using A by (intro log_kept_same)
  show ?thesis
  proof (cases "\<exists>lock ids0. r1 = Inr lock \<and> list_segment_ids env d1 = Inr ids0")
    case False
    then show ?thesis using o True a k by (auto simp: rl_open_def split: sum.splits)
  next
    case in_lock: True
    then obtain lock where l: "r1 = Inr lock" "list_segment_ids env d1 = Inr (seg_ids d1)"
      by (auto simp: list_segment_ids_Inr)
    obtain r2 d2 where e: "ensure_segment env d1 (seg_ids d1) = (r2, d2)" by force
    have "dopt = Some d2"
      using o True a l e by (auto simp: rl_open_def split: sum.splits)
    then show ?thesis using log_kept_trans [OF k A(2) ensure_segment_kept [OF e A(1)]] by blast
  qed
qed (use o ok in \<open>auto simp: rl_open_def\<close>)

text \<open>What a call leaves of a directory and its lock when it released what it took.\<close>

definition kept :: "('k \<Rightarrow> nat set) \<Rightarrow> 'k \<Rightarrow> dir option \<Rightarrow> 'k \<Rightarrow> dir option \<Rightarrow> bool" where
  "kept holders k dopt k' dopt' \<longleftrightarrow> holders k' = holders k
     \<and> (\<forall>d. dopt = Some d \<longrightarrow> dir_ok d \<longrightarrow> (\<exists>d'. dopt' = Some d' \<and> log_kept d d'))"

lemma kept_refl [simp]: "kept holders k dopt k dopt"
  by (simp add: kept_def)

lemma drop_after_try:
  assumes "flock_laws fl holders" "fl_try_lock_exclusive fl k fd = Some k'"
  shows "holders (dir_lock_drop fl k' fd) = holders k"
  using assms flock_try_Some [OF assms] by (simp add: dir_lock_drop_def flock_laws_def)

lemma rl_open_kept_Inl:
  assumes "flock_laws fl holders" "rl_open fl env crc pid fd k dopt = (Inl e, k', dopt')"
  shows "kept holders k dopt k' dopt'"
  using rl_open_Inl_lock [OF assms] rl_open_kept assms(2) by (fastforce simp: kept_def)

lemma rl_open_kept_Inr:
  assumes "flock_laws fl holders" "rl_open fl env crc pid fd k dopt = (Inr log, k', dopt')"
  shows "kept holders k dopt (dir_lock_drop fl k' (rl_lock log)) dopt'"
  using rl_open_Inr_lock [OF assms(2)] drop_after_try [OF assms(1)] rl_open_kept assms(2)
  by (fastforce simp: kept_def)

lemma dw_open_kept_Inl:
  assumes "flock_laws fl holders" "dw_open fl env crc pid fd k dopt = (Inl e, k', dopt')"
  shows "kept holders k dopt k' dopt'"
  using assms(2) rl_open_kept_Inl [OF assms(1)] rl_open_kept_Inr [OF assms(1)]
  by (auto simp: dw_open_def split: prod.splits sum.splits)

lemma dw_open_kept_Inr:
  assumes "flock_laws fl holders" "dw_open fl env crc pid fd k dopt = (Inr w, k', dopt')"
  shows "kept holders k dopt (dir_lock_drop fl k' (rl_lock (dw_log w))) dopt'"
  using assms(2) rl_open_kept_Inr [OF assms(1)]
  by (auto simp: dw_open_def split: prod.splits sum.splits)

lemmas opens_kept = rl_open_kept_Inl rl_open_kept_Inr dw_open_kept_Inl dw_open_kept_Inr

section \<open>The subcommands\<close>

lemma cmd_scan_kept:
  assumes "flock_laws fl holders" "cmd_scan fl env crc b64 pid fd args json k d = (r, lines, k', d')"
  shows "kept holders k d k' d' \<and> exit_code r \<le> 3"
  using assms by (auto simp: cmd_scan_def tail_exit_def exit_code_def Let_def
      dest: opens_kept split: prod.splits sum.splits if_splits)

lemma cmd_get_kept:
  assumes "flock_laws fl holders" "cmd_get fl env crc b64 dec pid fd args json k d = (r, lines, k', d')"
  shows "kept holders k d k' d' \<and> exit_code r \<le> 3"
  using assms by (auto simp: cmd_get_def exit_code_def Let_def
      dest: opens_kept split: prod.splits sum.splits option.splits)

lemma cmd_report_kept:
  assumes "flock_laws fl holders" "cmd_report fl env crc pid fd json k d = (r, lines, k', d')"
  shows "kept holders k d k' d' \<and> exit_code r \<le> 3"
  using assms by (auto simp: cmd_report_def tail_exit_def exit_code_def Let_def
      dest: opens_kept split: prod.splits sum.splits)

lemma cmd_verify_kept:
  assumes "flock_laws fl holders" "cmd_verify fl env crc pid fd json k d = (r, lines, k', d')"
  shows "kept holders k d k' d' \<and> exit_code r \<le> 3"
  using assms by (auto simp: cmd_verify_def tail_exit_def exit_code_def Let_def
      dest: opens_kept split: prod.splits sum.splits option.splits)

lemma cmd_dump_kept:
  assumes "flock_laws fl holders" "cmd_dump fl env crc b64 pid fd args json k d = (r, lines, k', d')"
  shows "kept holders k d k' d' \<and> exit_code r \<le> 3"
  using assms by (auto simp: cmd_dump_def exit_code_def Let_def
      dest: opens_kept split: prod.splits sum.splits)

lemma cmd_check_kept:
  assumes "flock_laws fl holders" "cmd_check fl env crc pid fd json k d = (r, lines, k', d')"
  shows "kept holders k d k' d' \<and> exit_code r \<le> 3"
  using assms by (auto simp: cmd_check_def exit_code_def Let_def
      dest: opens_kept split: prod.splits sum.splits if_splits)

lemma cmd_export_kept:
  assumes "flock_laws fl holders"
    and "cmd_export fl env crc b64 json_row pid fd name hp json k d out = ((r, lines, k', d'), out')"
  shows "kept holders k d k' d' \<and> exit_code r \<le> 3 \<and> (out \<noteq> None \<longrightarrow> out' = out)"
  using assms by (auto simp: cmd_export_def exit_code_def Let_def
      dest: opens_kept split: prod.splits sum.splits option.splits if_splits)

section \<open>Compaction\<close>

lemma append_record_lock: "rl_append_record env crc log d rt k v = (r, log', d') \<Longrightarrow> rl_lock log' = rl_lock log"
  by (auto simp: rl_append_record_def Let_def split: sum.splits if_splits option.splits)

lemma fsync_lock: "rl_fsync env log = (r, log') \<Longrightarrow> rl_lock log' = rl_lock log"
  by (auto simp: rl_fsync_def split: sum.splits if_splits)

lemma copy_keys_lock:
  "copy_keys env env' crc d ks stats w log d' = (r, w1, log1, d1) \<Longrightarrow> rl_lock log1 = rl_lock log"
  by (induction env env' crc d ks stats w log d' rule: copy_keys.induct)
    (auto split: prod.splits sum.splits dest: append_record_lock)

lemma dw_compact_to_lock:
  assumes fl: "flock_laws fl holders" and c: "dw_compact_to fl env env' crc pid fd k w d out = (r, w', k', out')"
  shows "holders k' = holders k"
proof -
  obtain x k1 o1 where o: "rl_open fl env' crc pid fd k out = (x, k1, o1)" by (metis prod_cases3)
  have "k' = k \<or> (\<exists>e. x = Inl e \<and> k' = k1) \<or> (\<exists>log. x = Inr log \<and> k' = dir_lock_drop fl k1 (rl_lock log))"
  proof (cases x)
    case (Inl e)
    then show ?thesis using c o by (auto simp: dw_compact_to_def Let_def split: if_splits)
  next
    case (Inr log)
    obtain y w1 log1 d1 where y: "copy_keys env env' crc d (sort (dw_keys w))
        \<lparr>cs_live_keys = 0, cs_records_written = 0, cs_bytes_written = 0\<rparr> w log
        (case o1 of None \<Rightarrow> [] | Some d1 \<Rightarrow> d1) = (y, w1, log1, d1)" by (metis prod_cases4)
    obtain z log2 where z: "rl_fsync env' log1 = (z, log2)" by force
    have "rl_lock log1 = rl_lock log" "rl_lock log2 = rl_lock log"
      using copy_keys_lock [OF y] fsync_lock [OF z] by simp_all
    then show ?thesis
      using c o y z Inr by (cases y; cases z) (simp_all add: dw_compact_to_def Let_def rl_close_def split: if_splits)
  qed
  then show ?thesis
    using o rl_open_kept_Inl [OF fl] rl_open_kept_Inr [OF fl] unfolding kept_def by blast
qed

lemma cmd_compact_kept:
  assumes "flock_laws fl holders"
    and "cmd_compact fl env env' crc pid fd fdt name same json k d kt t = ((r, lines, k', d'), kt', t')"
  shows "kept holders k d k' d' \<and> exit_code r \<le> 3"
    and "\<not> same \<Longrightarrow> holders kt' = holders kt \<and> (t \<noteq> None \<longrightarrow> t \<noteq> Some [] \<longrightarrow> t' = t)"
  using assms by (auto simp: cmd_compact_def exit_code_def Let_def
      dest: opens_kept dw_compact_to_lock split: prod.splits sum.splits if_splits)

section \<open>Any command line\<close>

definition world_kept :: "('k \<Rightarrow> nat set) \<Rightarrow> 'k world \<Rightarrow> 'k world \<Rightarrow> bool" where
  "world_kept holders wd wd' \<longleftrightarrow>
     (\<forall>p. holders (wd_locks wd' p) = holders (wd_locks wd p))
   \<and> (\<forall>p x. wd_files wd p = Some x \<longrightarrow> wd_files wd' p = Some x)
   \<and> (\<forall>p d. wd_dirs wd p = Some d \<longrightarrow> dir_ok d \<longrightarrow> d \<noteq> [] \<longrightarrow> (\<exists>d'. wd_dirs wd' p = Some d' \<and> log_kept d d'))"

lemma leave_kept:
  assumes "leave wd s (r, lines, k, d) = (r', lines', wd')" "kept holders (wd_locks wd s) (wd_dirs wd s) k d"
  shows "r' = r \<and> world_kept holders wd wd'"
  using assms by (auto simp: leave_def kept_def world_kept_def split: if_splits)

lemma dispatch_kept:
  assumes fl: "flock_laws (ho_flock h) holders" and d: "dispatch h c wd = (r, lines, wd')"
  shows "exit_code r \<le> 3 \<and> world_kept holders wd wd'"
proof (cases "cli_command c")
  case (Export s outfile)
  obtain r1 l1 k1 d1 content where
    e: "cmd_export (ho_flock h) (ho_env h) (ho_crc h) (ho_b64 h) (ho_json_row h) (ho_pid h) (ho_fd h) outfile
      (ho_has_parent h outfile) (cli_json c) (wd_locks wd s) (wd_dirs wd s) (wd_files wd outfile) = ((r1, l1, k1, d1), content)"
    by (metis prod_cases4 surj_pair)
  from cmd_export_kept [OF fl this] show ?thesis
    using d e Export by (auto simp: dispatch_def Let_def leave_def world_kept_def kept_def split: if_splits)
next
  case (Compact s t)
  obtain r1 l1 k1 d1 kt dt where
    e: "cmd_compact (ho_flock h) (ho_env h) (ho_env' h) (ho_crc h) (ho_pid h) (ho_fd h) (ho_fdt h) t (s = t)
      (cli_json c) (wd_locks wd s) (wd_dirs wd s) (wd_locks wd t) (wd_dirs wd t) = ((r1, l1, k1, d1), kt, dt)"
    by (metis prod_cases4 surj_pair)
  from cmd_compact_kept [OF fl this] show ?thesis
    using d e Compact by (auto simp: dispatch_def Let_def leave_def world_kept_def kept_def split: if_splits)
next
  case (Scan s args)
  obtain r1 l1 k1 d1 where e: "cmd_scan (ho_flock h) (ho_env h) (ho_crc h) (ho_b64 h) (ho_pid h) (ho_fd h) args
      (cli_json c) (wd_locks wd s) (wd_dirs wd s) = (r1, l1, k1, d1)" by (metis prod_cases4)
  with cmd_scan_kept [OF fl e] show ?thesis using d Scan leave_kept by (fastforce simp: dispatch_def Let_def)
next
  case (Get s args)
  obtain r1 l1 k1 d1 where e: "cmd_get (ho_flock h) (ho_env h) (ho_crc h) (ho_b64 h) (ho_b64_decode h) (ho_pid h)
      (ho_fd h) args (cli_json c) (wd_locks wd s) (wd_dirs wd s) = (r1, l1, k1, d1)" by (metis prod_cases4)
  with cmd_get_kept [OF fl e] show ?thesis using d Get leave_kept by (fastforce simp: dispatch_def Let_def)
next
  case (Report s)
  obtain r1 l1 k1 d1 where e: "cmd_report (ho_flock h) (ho_env h) (ho_crc h) (ho_pid h) (ho_fd h)
      (cli_json c) (wd_locks wd s) (wd_dirs wd s) = (r1, l1, k1, d1)" by (metis prod_cases4)
  with cmd_report_kept [OF fl e] show ?thesis using d Report leave_kept by (fastforce simp: dispatch_def Let_def)
next
  case (Verify s)
  obtain r1 l1 k1 d1 where e: "cmd_verify (ho_flock h) (ho_env h) (ho_crc h) (ho_pid h) (ho_fd h)
      (cli_json c) (wd_locks wd s) (wd_dirs wd s) = (r1, l1, k1, d1)" by (metis prod_cases4)
  with cmd_verify_kept [OF fl e] show ?thesis using d Verify leave_kept by (fastforce simp: dispatch_def Let_def)
next
  case (Dump s args)
  obtain r1 l1 k1 d1 where e: "cmd_dump (ho_flock h) (ho_env h) (ho_crc h) (ho_b64 h) (ho_pid h) (ho_fd h) args
      (cli_json c) (wd_locks wd s) (wd_dirs wd s) = (r1, l1, k1, d1)" by (metis prod_cases4)
  with cmd_dump_kept [OF fl e] show ?thesis using d Dump leave_kept by (fastforce simp: dispatch_def Let_def)
next
  case (Check s)
  obtain r1 l1 k1 d1 where e: "cmd_check (ho_flock h) (ho_env h) (ho_crc h) (ho_pid h) (ho_fd h)
      (cli_json c) (wd_locks wd s) (wd_dirs wd s) = (r1, l1, k1, d1)" by (metis prod_cases4)
  with cmd_check_kept [OF fl e] show ?thesis using d Check leave_kept by (fastforce simp: dispatch_def Let_def)
qed

end
