(* ===== verification/Example_Store.thy ===== *)
theory Example_Store
  imports Durability Cli_Correct Torn_Tail Cli_Main_Correct
begin

text \<open>
  Concrete instances of the parameters, and concrete stores, on which the theorems of
  the root theory are applied: an \<open>flock\<close> that is the set of its holders, a checksum,
  and a store of one segment.
\<close>

definition ex_flock :: "nat set flock" where
  "ex_flock = \<lparr>fl_try_lock_exclusive = (\<lambda>k fd. if k = {} then Some {fd} else None),
     fl_unlock = (\<lambda>k fd. k - {fd})\<rparr>"

lemma ex_flock_laws: "flock_laws ex_flock id"
  by (auto simp: flock_laws_def ex_flock_def)

lemma ex_flock_try: "fl_try_lock_exclusive ex_flock {} fd = Some {fd}"
  by (simp add: ex_flock_def)

definition ex_crc :: "bytes \<Rightarrow> u32" where
  "ex_crc bs = foldl (\<lambda>c b. 31 * c + ucast b) 7 bs"

lemma all_io_all_works [simp]: "all_io all_works"
  by (simp add: all_io_def)

text \<open>A directory with one segment.\<close>

definition one_segment :: "bytes \<Rightarrow> dir" where
  "one_segment bs = [(Utf8 (segment_name 1), RegFile bs)]"

lemma one_segment_ok [simp]: "dir_ok (one_segment bs)"
  by (simp add: one_segment_def dir_ok_def)

lemma one_segment_openable [simp]: "openable (one_segment bs)"
  by (simp add: one_segment_def openable_def)

lemma one_segment_content [simp]:
  "seg_content (one_segment bs) i = (if i = 1 then Some bs else None)"
  by (auto simp: one_segment_def seg_content_def file_content_def)

lemma one_segment_ids [simp]: "seg_ids (one_segment bs) = [1]"
proof (rule sorted_distinct_set_unique)
  show "set (seg_ids (one_segment bs)) = set [1]" by (auto simp: set_seg_ids)
qed (simp_all add: seg_ids_sorted seg_ids_distinct)

lemma one_segment_stream:
  assumes "list_all frame_ok fs" "parse_frame crc t = None"
  shows "log_records crc (one_segment (stream crc fs @ t)) = place 1 0 fs"
    "seg_tail crc (one_segment (stream crc fs @ t)) 1 = t"
    "seg_frames crc (one_segment (stream crc fs @ t)) 1 = fs"
  using seg_splitI [of "one_segment (stream crc fs @ t)" 1 crc fs t] assms
  by (simp_all add: log_records_def seg_records_def)

text \<open>One \<open>Put\<close> of key 1 and value 2 3, and the store that holds it.\<close>

definition ex_frame :: frame where
  "ex_frame = \<lparr>fr_type = Put, fr_txid = 1, fr_key = [1], fr_payload = [2, 3]\<rparr>"

lemma ex_frame_fields [simp]:
  "fr_type ex_frame = Put" "fr_txid ex_frame = 1" "fr_key ex_frame = [1]" "fr_payload ex_frame = [2, 3]"
  by (simp_all add: ex_frame_def)

lemma ex_frame_ok [simp]: "frame_ok ex_frame"
  by (simp add: frame_ok_def ex_frame_def wire_consts)

lemma ex_frame_len [simp]: "wire_len ex_frame = 31"
  by (simp add: wire_len_def ex_frame_def record_wire_size_def wire_consts)

definition ex_dir :: dir where "ex_dir = one_segment (stream ex_crc [ex_frame])"

lemma ex_dir_facts [simp]:
  "dir_ok ex_dir" "openable ex_dir" "seg_ids ex_dir = [1]"
  "log_records ex_crc ex_dir = [located 1 0 ex_frame]"
  "seg_tail ex_crc ex_dir 1 = []" "seg_tail ex_crc ex_dir (Suc 0) = []" "recoverable ex_crc ex_dir"
proof -
  have f: "list_all frame_ok [ex_frame]" by simp
  note S = one_segment_stream [OF f parse_frame_Nil [of ex_crc], unfolded append_Nil2, folded ex_dir_def]
  show "dir_ok ex_dir" "openable ex_dir" "seg_ids ex_dir = [1]" by (simp_all add: ex_dir_def)
  then show "recoverable ex_crc ex_dir" using S(2) by (simp add: recoverable_def)
  show "log_records ex_crc ex_dir = [located 1 0 ex_frame]" using S(1) by simp
  show "seg_tail ex_crc ex_dir 1 = []" "seg_tail ex_crc ex_dir (Suc 0) = []" using S(2) by simp_all
qed

definition ex_log :: record_log where "ex_log = opened_log ex_crc 5 ex_dir"

lemma ex_log_inv: "rl_inv ex_crc ex_log ex_dir"
  unfolding ex_log_def by (rule opened_inv) (simp_all add: located_def ex_frame_def)

lemma ex_ready: "store_ready ex_flock all_works 5 {} {5} ex_dir"
  by (simp add: store_ready_def ex_flock_try)

lemma ex_contents: "contents ex_crc ex_dir = [[1] \<mapsto> [2, 3]]"
  by (simp add: contents_def view_def live_def live_step_def located_def ex_frame_def fun_eq_iff)

lemma ex_log_fields:
  "rl_active_id ex_log = 1" "rl_active_size ex_log = 31" "rl_next_txid ex_log = 2" "rl_poisoned ex_log = None"
  "rl_lock ex_log = 5"
proof -
  have b: "seg_bytes ex_dir 1 = wire ex_crc ex_frame" by (simp add: ex_dir_def seg_bytes_def)
  note I = rl_invD [OF ex_log_inv]
  show a: "rl_active_id ex_log = 1" using I(3) by simp
  show "rl_active_size ex_log = 31" using I(5) b by (simp add: a [unfolded One_nat_def] length_wire)
  show "rl_poisoned ex_log = None" by (rule I(7))
  have "seg_records ex_crc ex_dir (Suc 0) = [located 1 0 ex_frame]"
    using ex_dir_facts(4) by (simp add: log_records_def)
  then show "rl_next_txid ex_log = 2"
    by (simp add: ex_log_def opened_log_def Let_def scan_result_def empty_scan_def checked_succ_def
        located_def ex_frame_def)
  show "rl_lock ex_log = 5" by (simp add: ex_log_def opened_log_def Let_def)
qed

lemma ex_bytes: "length (seg_bytes ex_dir 1) = 31" "length (seg_bytes ex_dir (Suc 0)) = 31"
  by (simp_all add: ex_dir_def seg_bytes_def length_wire)

text \<open>A second, \<open>Raw\<close> record is appended.\<close>

lemma ex_append:
  "\<exists>log1 d1. rl_append_record all_works ex_crc ex_log ex_dir Raw [] [9] =
      (Inr \<lparr>ref_segment = 1, ref_offset = 31, ref_len = 29\<rparr>, log1, d1)"
proof -
  let ?f = "append_frame ex_log Raw [] [9]"
  have f: "frame_ok ?f" "wire_len ?f = 29"
    by (simp_all add: frame_ok_def append_frame_def wire_consts wire_len_def record_wire_size_def)
  have t: "checked_succ (rl_next_txid ex_log) = Some 3" by (simp add: ex_log_fields checked_succ_def)
  have sz: "rl_active_size ex_log + wire_len ?f < 2 ^ 64" by (simp add: ex_log_fields f(2))
  from append_record_ok(1) [OF ex_log_inv f(1) all_works_works sz t] show ?thesis
    by (intro exI) (auto simp: ref_of_record_def located_def append_frame_def ex_log_fields
        wire_len_def record_wire_size_def wire_consts)
qed

text \<open>The key-value handle on the example store.\<close>

definition ex_dw :: data_wal where
  "ex_dw = \<lparr>dw_log = ex_log, dw_map = [([1], \<lparr>ref_segment = 1, ref_offset = 0, ref_len = 31\<rparr>)],
     dw_pool = with_capacity DEFAULT_CAPACITY\<rparr>"

lemma ex_dw_log [simp]: "dw_log ex_dw = ex_log"
  by (simp add: ex_dw_def)

lemma ex_dw_inv: "dw_inv ex_crc ex_dw ex_dir"
  by (simp add: dw_inv_def kd_inv_def ex_log_inv ex_dw_def keydir_ok_def live_def live_step_def
      located_def ref_of_record_def fun_eq_iff)

lemma ex_room: "n \<le> 1000 \<Longrightarrow> m \<le> 1000 \<Longrightarrow> room ex_log n m"
  by (simp add: room_def ex_log_fields)

text \<open>An operating system whose writes to segment 1 stop after five bytes.\<close>

definition ex_full_disk :: os_env where
  "ex_full_disk = \<lparr>works = (\<lambda>c. c \<noteq> WriteAll 1), written = 5, pid_left = [], node_len = (\<lambda>_. 0)\<rparr>"

text \<open>An append that this disk tears: five bytes of the frame arrive.\<close>

lemma ex_torn_append:
  "\<exists>log1 d1. rl_append_record ex_full_disk ex_crc ex_log ex_dir Put [1] [9] = (Inl (Io (WriteAll 1)), log1, d1)
    \<and> log_records ex_crc d1 = log_records ex_crc ex_dir \<and> length (seg_bytes d1 1) = 36
    \<and> rl_poisoned log1 \<noteq> None"
proof -
  let ?f = "append_frame ex_log Put [1] [9]"
  have f: "frame_ok ?f" "written ex_full_disk < wire_len ?f"
    by (simp_all add: frame_ok_def append_frame_def wire_consts wire_len_def record_wire_size_def ex_full_disk_def)
  have io: "\<not> works ex_full_disk (WriteAll (rl_active_id ex_log))" by (simp add: ex_full_disk_def ex_log_fields)
  note A = append_record_write_failed [OF ex_log_inv f(1) io f(2)]
  have "length (seg_bytes (append_file ex_dir (segment_name (rl_active_id ex_log))
      (take (written ex_full_disk) (wire ex_crc ?f))) 1) = 36"
    using seg_bytes_append [of ex_dir 1] f(2) ex_bytes
    by (simp add: ex_log_fields length_wire ex_dir_def ex_full_disk_def)
  with A(1,2) show ?thesis by (auto simp: ex_log_fields)
qed

text \<open>Hex in place of Base64, and a JSON row.\<close>

definition ex_unhex :: "string \<Rightarrow> bytes option" where
  "ex_unhex s = (case decode_hex (map of_char s) of Inr bs \<Rightarrow> Some bs | Inl _ \<Rightarrow> None)"

definition ex_row :: "string \<Rightarrow> string \<Rightarrow> string" where
  "ex_row a b = ''{\"key_b64\":\"'' @ a @ ''\",\"value_b64\":\"'' @ b @ ''\"}''"

definition ex_quoted :: "string \<Rightarrow> string \<times> string" where
  "ex_quoted s = (takeWhile (\<lambda>c. c \<noteq> CHR 0x22) s, tl (dropWhile (\<lambda>c. c \<noteq> CHR 0x22) s))"

definition ex_parse_row :: "string \<Rightarrow> (string \<times> string) option" where
  "ex_parse_row s =
     (let (a, rest) = ex_quoted (drop (length ''{\"key_b64\":\"'') s);
          (b, rest') = ex_quoted (drop (length '',\"value_b64\":\"'') rest)
      in if rest' = ''}'' then Some (a, b) else None)"

lemma ex_quoted_simp: "CHR 0x22 \<notin> set a \<Longrightarrow> ex_quoted (a @ CHR 0x22 # rest) = (a, rest)"
  by (induction a) (auto simp: ex_quoted_def)

lemma ex_row_laws:
  "ex_unhex (to_hex bs) = Some bs"
  "ex_parse_row (ex_row (to_hex a) (to_hex b)) = Some (to_hex a, to_hex b)"
  "CHR 0x0A \<notin> set (ex_row (to_hex a) (to_hex b))"
proof -
  have h: "CHR 0x22 \<notin> set (to_hex x)" "CHR 0x0A \<notin> set (to_hex x)" for x
    using to_hex_chars [of x] by (auto simp: HEX_def)
  show "ex_unhex (to_hex bs) = Some bs" by (simp add: ex_unhex_def decode_hex_to_hex)
  show "ex_parse_row (ex_row (to_hex a) (to_hex b)) = Some (to_hex a, to_hex b)"
    using h by (simp add: ex_parse_row_def ex_row_def ex_quoted_simp)
  show "CHR 0x0A \<notin> set (ex_row (to_hex a) (to_hex b))"
    using h by (simp add: ex_row_def)
qed

text \<open>A store whose last segment has the largest id that fits a file name.\<close>

definition ex_wide :: dir where
  "ex_wide = [(Utf8 (segment_name 99999999), RegFile [])]"

lemma ex_wide_facts:
  "dir_ok ex_wide" "seg_content ex_wide i = (if i = 99999999 then Some [] else None)"
  "seg_ids ex_wide = [99999999]" "log_records crc ex_wide = []"
proof -
  show ok: "dir_ok ex_wide" by (simp add: ex_wide_def dir_ok_def)
  show c: "seg_content ex_wide i = (if i = 99999999 then Some [] else None)" for i
    by (auto simp: ex_wide_def seg_content_def file_content_def)
  show ids: "seg_ids ex_wide = [99999999]"
    by (rule seg_ids_eqI [OF ok]) (auto simp: c)
  show "log_records crc ex_wide = []"
    using seg_splitI(1) [of ex_wide 99999999 crc "[]" "[]"] by (simp add: log_records_def ids c seg_records_def)
qed

lemma ex_wide_inv: "rl_inv ex_crc (opened_log ex_crc 5 ex_wide) ex_wide"
  using seg_splitI(2) [of ex_wide 99999999 ex_crc "[]" "[]"]
  by (intro opened_inv) (simp_all add: ex_wide_facts)

text \<open>The first \<open>n\<close> bytes of a frame with a long value, left by a crash in an empty segment.\<close>

definition ex_long :: frame where
  "ex_long = \<lparr>fr_type = Put, fr_txid = 1, fr_key = [1], fr_payload = replicate 200 0\<rparr>"

definition ex_torn :: "nat \<Rightarrow> dir" where
  "ex_torn n = one_segment (take n (wire ex_crc ex_long))"

lemma ex_long_ok: "frame_ok ex_long" "wire_len ex_long = 229"
  by (simp_all add: ex_long_def frame_ok_def wire_consts wire_len_def record_wire_size_def)

lemma ex_torn_facts:
  assumes "0 < n" "n < 229"
  shows "seg_tail ex_crc (ex_torn n) 1 = take n (wire ex_crc ex_long)"
    "log_records ex_crc (ex_torn n) = []" "recoverable ex_crc (ex_torn n)"
    "store_ready ex_flock all_works 5 {} {5} (ex_torn n)"
proof -
  have p: "parse_frame ex_crc (take n (wire ex_crc ex_long)) = None"
    using assms ex_long_ok by (intro parse_torn) auto
  note S = one_segment_stream [of "[]" ex_crc, OF _ p, simplified, folded ex_torn_def]
  show t: "seg_tail ex_crc (ex_torn n) 1 = take n (wire ex_crc ex_long)"
    "log_records ex_crc (ex_torn n) = []" using S by simp_all
  show "recoverable ex_crc (ex_torn n)"
    using assms ex_long_ok tail_of_torn [of ex_long n ex_crc ex_crc] t(1)
    by (simp add: ex_torn_def recoverable_def recoverable_ids_iff)
  show "store_ready ex_flock all_works 5 {} {5} (ex_torn n)"
    by (simp add: store_ready_def ex_flock_try ex_torn_def)
qed

text \<open>A machine with one store, at the path \<open>s\<close>, and what the command line is run with.\<close>

definition ex_host :: "nat set host" where
  "ex_host = \<lparr>ho_flock = ex_flock, ho_env = all_works, ho_env' = all_works, ho_crc = ex_crc, ho_b64 = to_hex,
     ho_b64_decode = Some, ho_json_row = ex_row, ho_pid = 0, ho_fd = 5, ho_fdt = 6, ho_has_parent = (\<lambda>p. False)\<rparr>"

definition ex_world :: "nat set world" where
  "ex_world = \<lparr>wd_dirs = [''s'' \<mapsto> ex_dir], wd_locks = (\<lambda>p. {}), wd_files = Map.empty\<rparr>"

end
