(* ===== verification/Messages.thy ===== *)
theory Messages
  imports Segments Wire_Format
begin

text \<open>
  \<open>impl Display for DecodeError\<close> of \<open>format.rs\<close>: the text of a hard decode error, as
  \<open>open\<close>, \<open>scan\<close> and the command line report it.  \<open>dec_digits\<close> prints an unsigned
  integer; \<open>{:?}\<close> of a byte array prints a list of numbers.  The text determines the
  error, so what is printed says exactly which check a frame failed, with which value.
\<close>

fun separated :: "string \<Rightarrow> string list \<Rightarrow> string" where
  "separated sep [] = []"
| "separated sep [x] = x"
| "separated sep (x # y # xs) = x @ sep @ separated sep (y # xs)"

text \<open>\<open>{:?}\<close> on an array of bytes.\<close>

definition debug_bytes :: "bytes \<Rightarrow> string" where
  "debug_bytes bs = ''['' @ separated '', '' (map (\<lambda>b. dec_digits (unat b)) bs) @ '']''"

fun decode_error_message :: "decode_error \<Rightarrow> string" where
  "decode_error_message (BadMagic found) =
     ''datawal: bad magic, expected DWAL, got '' @ debug_bytes found"
| "decode_error_message (UnknownVersion found) =
     ''datawal: unknown wire version '' @ dec_digits (unat found)
     @ '' (this build supports '' @ dec_digits (unat WIRE_VERSION) @ '')''"
| "decode_error_message (UnknownRecordType found) =
     ''datawal: unknown record_type byte '' @ dec_digits (unat found)"
| "decode_error_message (ReservedFlagsSet found) =
     ''datawal: reserved flags byte must be 0, got '' @ dec_digits (unat found)"
| "decode_error_message (KeyTooLarge found) =
     ''datawal: key_len '' @ dec_digits (unat found) @ '' exceeds MAX_KEY_LEN '' @ dec_digits MAX_KEY_LEN"
| "decode_error_message (PayloadTooLarge found) =
     ''datawal: payload_len '' @ dec_digits (unat found) @ '' exceeds MAX_PAYLOAD_LEN '' @ dec_digits MAX_PAYLOAD_LEN"

section \<open>Numbers and lists of numbers are printed injectively\<close>

lemma dec_digits_inject [simp]: "dec_digits m = dec_digits n \<longleftrightarrow> m = n"
  by (metis dec_val_dec_digits)

lemma dec_digits_not_Nil [simp]: "dec_digits n \<noteq> []"
  by (subst dec_digits.simps) simp

lemma dec_digits_are_digits: "c \<in> set (dec_digits n) \<Longrightarrow> is_ascii_digit c"
proof (induction n rule: dec_digits.induct)
  case (1 n)
  have d: "k < 10 \<Longrightarrow> is_ascii_digit (digit_char k)" for k :: nat
    by (simp add: is_ascii_digit_def digit_char_def)
  show ?case
  proof (cases "n < 10")
    case True
    with 1 d show ?thesis by (simp add: dec_digits.simps [of n])
  next
    case False
    with 1 d show ?thesis by (subst (asm) dec_digits.simps) auto
  qed
qed

lemma not_digit [simp]: "CHR '','' \<notin> set (dec_digits n)" "CHR '']'' \<notin> set (dec_digits n)" "CHR '' '' \<notin> set (dec_digits n)"
  using dec_digits_are_digits [of "CHR '',''" n] dec_digits_are_digits [of "CHR '']''" n]
    dec_digits_are_digits [of "CHR '' ''" n]
  by (auto simp: is_ascii_digit_def)

text \<open>A word ends at the first character it cannot contain.\<close>

lemma word_end:
  "c \<notin> set xs \<Longrightarrow> d \<notin> set xs \<Longrightarrow> c \<notin> set ys \<Longrightarrow> d \<notin> set ys \<Longrightarrow>
   xs @ c # r = ys @ d # s \<longleftrightarrow> xs = ys \<and> c = d \<and> r = s"
proof (induction xs arbitrary: ys)
  case Nil
  then show ?case by (cases ys) auto
next
  case (Cons x xs)
  then show ?case by (cases ys) auto
qed

definition words :: "string list \<Rightarrow> bool" where
  "words xs \<longleftrightarrow> (\<forall>x\<in>set xs. x \<noteq> [] \<and> CHR '','' \<notin> set x \<and> CHR '']'' \<notin> set x)"

lemma separated_inject:
  "words xs \<Longrightarrow> words ys \<Longrightarrow> separated '', '' xs @ '']'' = separated '', '' ys @ '']'' \<Longrightarrow> xs = ys"
proof (induction xs arbitrary: ys rule: induct_list012)
  case 1
  then show ?case by (cases ys rule: remdups_adj.cases) (auto simp: words_def Cons_eq_append_conv)
next
  case (2 x)
  then show ?case by (cases ys rule: remdups_adj.cases) (auto simp: words_def word_end Cons_eq_append_conv)
next
  case (3 x y xs)
  show ?case
  proof (cases ys rule: remdups_adj.cases)
    case (3 x' y' ys')
    with "3.prems" "3.IH"(2) [of "y' # ys'"] show ?thesis by (auto simp: words_def word_end)
  qed (use "3.prems" in \<open>auto simp: words_def word_end append_eq_Cons_conv\<close>)
qed

lemma debug_bytes_inject [simp]: "debug_bytes bs = debug_bytes cs \<longleftrightarrow> bs = cs"
proof
  let ?w = "map (\<lambda>b :: u8. dec_digits (unat b))"
  assume "debug_bytes bs = debug_bytes cs"
  then have "?w bs = ?w cs" by (intro separated_inject) (auto simp: debug_bytes_def words_def)
  then show "bs = cs" by (rule map_injective) (auto intro!: injI simp: word_unat_eq_iff)
qed simp

end
