(* ===== verification/Header_Errors.thy ===== *)
theory Header_Errors
  imports Frames "HOL-Library.Sublist"
begin

text \<open>
  The hard errors of \<open>decode_next\<close>, described by the encoder: which bytes can stand at
  the start of an encoded record, and the field of the header in which an error lies.
\<close>

definition record_start :: "(bytes \<Rightarrow> u32) \<Rightarrow> bytes \<Rightarrow> bool" where
  "record_start crc bs \<longleftrightarrow>
     (\<exists>rt txid key payload enc. encode_record crc rt txid key payload = Inr enc \<and> prefix bs enc)"

text \<open>The place of the field in the header, from byte to byte, and the bytes found there.\<close>

fun error_field :: "decode_error \<Rightarrow> nat \<times> nat \<times> bytes" where
  "error_field (BadMagic m) = (0, 4, m)"
| "error_field (UnknownVersion v) = (4, 6, le_bytes 2 v)"
| "error_field (UnknownRecordType b) = (6, 7, [b])"
| "error_field (ReservedFlagsSet b) = (7, 8, [b])"
| "error_field (KeyTooLarge n) = (16, 20, le_bytes 4 n)"
| "error_field (PayloadTooLarge n) = (20, 24, le_bytes 4 n)"

section \<open>The starts of records\<close>

lemma record_start_wire: "record_start crc bs \<longleftrightarrow> (\<exists>f. frame_ok f \<and> prefix bs (wire crc f))"
  by (auto simp: record_start_def encode_record_Inr) (metis frame.surjective old.unit.exhaust)

lemma record_start_append: "record_start crc (xs @ ys) \<Longrightarrow> record_start crc xs"
  unfolding record_start_def by (meson append_prefixD)

lemma prefix_field: "length xs = length xs' \<Longrightarrow> prefix (xs @ ys) (xs' @ ys') \<longleftrightarrow> xs = xs' \<and> prefix ys ys'"
  by (auto simp: prefix_def)

lemma prefix_field0: "length xs = length xs' \<Longrightarrow> prefix xs (xs' @ ys') \<longleftrightarrow> xs = xs'"
  using prefix_field [of xs xs' "[]"] by simp

lemma wire_fields:
  "wire crc f = MAGIC @ le_bytes 2 WIRE_VERSION @ as_byte (fr_type f) # 0 # le_bytes 8 (fr_txid f)
     @ le_bytes 4 (of_nat (length (fr_key f)) :: u32) @ le_bytes 4 (of_nat (length (fr_payload f)) :: u32)
     @ fr_key f @ fr_payload f @ le_bytes 4 (crc (frame_body f))"
  by (simp add: wire_def frame_body_def frame_header_def)

lemma as_byte_range: "b \<le> 2 \<longleftrightarrow> (\<exists>t. b = as_byte t)"
  using from_byte_le_2 [of b] by (auto simp: from_byte_Inr)

text \<open>A header with valid fields starts a record, whose key and payload have the given lengths.\<close>

lemma header_start:
  assumes "length x = 8" "length kl = 4" "length pl = 4" "t \<le> 2"
    and "unat (le_word kl :: u32) \<le> MAX_KEY_LEN" "unat (le_word pl :: u32) \<le> MAX_PAYLOAD_LEN"
  shows "record_start crc (MAGIC @ le_bytes 2 WIRE_VERSION @ t # 0 # x @ kl @ pl)"
proof -
  obtain rt where rt: "t = as_byte rt" using assms(4) as_byte_range by blast
  define f where "f = \<lparr>fr_type = rt, fr_txid = le_word x, fr_key = replicate (unat (le_word kl :: u32)) 0,
    fr_payload = replicate (unat (le_word pl :: u32)) 0\<rparr>"
  have b: "le_bytes 8 (le_word x :: u64) = x" "le_bytes 4 (le_word kl :: u32) = kl" "le_bytes 4 (le_word pl :: u32) = pl"
    using le_bytes_le_word [where 'a = 64 and bs = x] le_bytes_le_word [where 'a = 32 and bs = kl]
      le_bytes_le_word [where 'a = 32 and bs = pl] assms(1-3) by simp_all
  have "prefix (MAGIC @ le_bytes 2 WIRE_VERSION @ t # 0 # x @ kl @ pl) (wire crc f)"
    unfolding wire_fields by (simp add: f_def rt b)
  moreover have "frame_ok f" using assms(5,6) by (simp add: f_def frame_ok_def)
  ultimately show ?thesis unfolding record_start_wire by blast
qed

lemma length_MAGIC [simp]: "length MAGIC = 4"
  by (simp add: MAGIC_def)

lemma record_starts:
  assumes "length m = 4" "length v = 2" "length x = 8" "length kl = 4" "length pl = 4"
  shows "record_start crc m \<longleftrightarrow> m = MAGIC"
    "record_start crc (m @ v) \<longleftrightarrow> m = MAGIC \<and> v = le_bytes 2 WIRE_VERSION"
    "record_start crc (m @ v @ [t]) \<longleftrightarrow> m = MAGIC \<and> v = le_bytes 2 WIRE_VERSION \<and> t \<le> 2"
    "record_start crc (m @ v @ [t, g]) \<longleftrightarrow> m = MAGIC \<and> v = le_bytes 2 WIRE_VERSION \<and> t \<le> 2 \<and> g = 0"
    "record_start crc (m @ v @ t # g # x) \<longleftrightarrow> m = MAGIC \<and> v = le_bytes 2 WIRE_VERSION \<and> t \<le> 2 \<and> g = 0"
    "record_start crc (m @ v @ t # g # x @ kl) \<longleftrightarrow> m = MAGIC \<and> v = le_bytes 2 WIRE_VERSION \<and> t \<le> 2 \<and> g = 0
       \<and> unat (le_word kl :: u32) \<le> MAX_KEY_LEN"
    "record_start crc (m @ v @ t # g # x @ kl @ pl) \<longleftrightarrow> m = MAGIC \<and> v = le_bytes 2 WIRE_VERSION \<and> t \<le> 2 \<and> g = 0
       \<and> unat (le_word kl :: u32) \<le> MAX_KEY_LEN \<and> unat (le_word pl :: u32) \<le> MAX_PAYLOAD_LEN"
proof -
  have z: "unat (le_word (replicate 4 0) :: u32) = 0" by code_simp
  note W = record_start_wire wire_fields prefix_field prefix_field0 frame_ok_def assms
  note H = header_start [of _ _ _ _ crc]
  have 7: "record_start crc (m @ v @ t # g # x @ kl @ pl) \<Longrightarrow> m = MAGIC \<and> v = le_bytes 2 WIRE_VERSION \<and> t \<le> 2 \<and> g = 0
       \<and> unat (le_word kl :: u32) \<le> MAX_KEY_LEN \<and> unat (le_word pl :: u32) \<le> MAX_PAYLOAD_LEN"
    by (auto simp: W unat_len_u32)
  have 6: "record_start crc (m @ v @ t # g # x @ kl) \<Longrightarrow> m = MAGIC \<and> v = le_bytes 2 WIRE_VERSION \<and> t \<le> 2 \<and> g = 0
       \<and> unat (le_word kl :: u32) \<le> MAX_KEY_LEN"
    by (auto simp: W unat_len_u32)
  have 4: "record_start crc (m @ v @ [t, g]) \<Longrightarrow> m = MAGIC \<and> v = le_bytes 2 WIRE_VERSION \<and> t \<le> 2 \<and> g = 0"
    by (auto simp: W)
  have 3: "record_start crc (m @ v @ [t]) \<Longrightarrow> m = MAGIC \<and> v = le_bytes 2 WIRE_VERSION \<and> t \<le> 2"
    by (auto simp: W)
  show "record_start crc (m @ v @ t # g # x @ kl @ pl) \<longleftrightarrow> m = MAGIC \<and> v = le_bytes 2 WIRE_VERSION \<and> t \<le> 2 \<and> g = 0
       \<and> unat (le_word kl :: u32) \<le> MAX_KEY_LEN \<and> unat (le_word pl :: u32) \<le> MAX_PAYLOAD_LEN"
    using 7 H assms by blast
  show "record_start crc (m @ v @ t # g # x @ kl) \<longleftrightarrow> m = MAGIC \<and> v = le_bytes 2 WIRE_VERSION \<and> t \<le> 2 \<and> g = 0
       \<and> unat (le_word kl :: u32) \<le> MAX_KEY_LEN"
    using 6 H [of x kl "replicate 4 0" t] record_start_append [of crc "m @ v @ t # g # x @ kl" "replicate 4 0"] assms z
    by auto
  show "record_start crc (m @ v @ t # g # x) \<longleftrightarrow> m = MAGIC \<and> v = le_bytes 2 WIRE_VERSION \<and> t \<le> 2 \<and> g = 0"
    using 4 H [of x "replicate 4 0" "replicate 4 0" t] record_start_append [of crc "m @ v @ t # g # x" "replicate 4 0 @ replicate 4 0"]
      record_start_append [of crc "m @ v @ [t, g]" x] assms z
    by auto
  show "record_start crc (m @ v @ [t, g]) \<longleftrightarrow> m = MAGIC \<and> v = le_bytes 2 WIRE_VERSION \<and> t \<le> 2 \<and> g = 0"
    using 4 H [of x "replicate 4 0" "replicate 4 0" t] record_start_append [of crc "m @ v @ [t, g]" "x @ replicate 4 0 @ replicate 4 0"] assms z
    by auto
  show "record_start crc (m @ v @ [t]) \<longleftrightarrow> m = MAGIC \<and> v = le_bytes 2 WIRE_VERSION \<and> t \<le> 2"
    using 3 H [of x "replicate 4 0" "replicate 4 0" t] record_start_append [of crc "m @ v @ [t]" "0 # x @ replicate 4 0 @ replicate 4 0"] assms z
    by auto
  have s: "record_start crc (MAGIC @ le_bytes 2 WIRE_VERSION @ 0 # 0 # x @ replicate 4 0 @ replicate 4 0)"
    using H [of x "replicate 4 0" "replicate 4 0" 0] assms z by simp
  then show "record_start crc (m @ v) \<longleftrightarrow> m = MAGIC \<and> v = le_bytes 2 WIRE_VERSION"
    using record_start_append [of crc "MAGIC @ le_bytes 2 WIRE_VERSION"] by (auto simp: W)
  from s show "record_start crc m \<longleftrightarrow> m = MAGIC"
    using record_start_append [of crc MAGIC] by (auto simp: W)
qed

section \<open>The field at fault\<close>

text \<open>A header, cut into its fields.\<close>

lemma header_cut:
  fixes h :: bytes
  assumes "length h = 24"
  obtains m v t g x kl pl where "h = m @ v @ t # g # x @ kl @ pl"
    "length m = 4" "length v = 2" "length x = 8" "length kl = 4" "length pl = 4"
proof (rule that)
  have e: "h ! i # drop (Suc i) h = drop i h" if "i < 24" for i
    using Cons_nth_drop_Suc [of i h] that assms by simp
  show "h = slice 0 4 h @ slice 4 6 h @ h ! 6 # h ! 7 # slice 8 16 h @ slice 16 20 h @ slice 20 24 h"
    using e [of 6] e [of 7] assms
      append_take_drop_id [of 4 h] append_take_drop_id [of 2 "drop 4 h"]
      append_take_drop_id [of 8 "drop 8 h"] append_take_drop_id [of 4 "drop 16 h"]
    by (simp add: slice_def)
qed (simp_all add: assms)

lemma verdict_field:
  assumes "length h = 24"
  shows "header_verdict h = Some e \<longleftrightarrow> (case error_field e of (a, b, found) \<Rightarrow>
      slice a b h = found \<and> record_start crc (take a h) \<and> \<not> record_start crc (take b h))"
proof -
  obtain m v t g x kl pl where h: "h = m @ v @ t # g # x @ kl @ pl"
    and l: "length m = 4" "length v = 2" "length x = 8" "length kl = 4" "length pl = 4"
    using header_cut [OF assms] .
  have tk: "take 4 h = m" "take 6 h = m @ v" "take 7 h = m @ v @ [t]" "take 8 h = m @ v @ [t, g]"
    "take 16 h = m @ v @ t # g # x" "take 20 h = m @ v @ t # g # x @ kl" "take 24 h = m @ v @ t # g # x @ kl @ pl"
    by (simp_all add: h l)
  have sl: "slice 0 4 h = m" "slice 4 6 h = v" "slice 6 7 h = [t]" "slice 7 8 h = [g]" "slice 16 20 h = kl" "slice 20 24 h = pl"
    "h ! 6 = t" "h ! 7 = g"
    by (simp_all add: h l slice_def nth_append)
  have w: "le_word v = WIRE_VERSION \<longleftrightarrow> v = le_bytes 2 WIRE_VERSION" "le_word v = z \<longleftrightarrow> v = le_bytes 2 z"
    "le_word kl = n \<longleftrightarrow> kl = le_bytes 4 n" "le_word pl = n \<longleftrightarrow> pl = le_bytes 4 n" for z :: u16 and n :: u32
    using le_bytes_le_word [where 'a = 16 and bs = v] le_bytes_le_word [where 'a = 32 and bs = kl]
      le_bytes_le_word [where 'a = 32 and bs = pl] l by auto
  have nil: "record_start crc []"
    using record_starts(1) [of MAGIC v x kl pl crc] l record_start_append [of crc "[]" MAGIC] by simp
  note R = record_starts [OF l, of crc]
  show ?thesis
    by (cases e) (auto simp: tk sl R nil header_verdict_def w)
qed

text \<open>The error of \<open>decode_next\<close>, at any offset.\<close>

lemma decode_next_error:
  "decode_next crc buf off = Inl e \<longleftrightarrow> off + 24 \<le> length buf \<and> (case error_field e of (a, b, found) \<Rightarrow>
      slice (off + a) (off + b) buf = found
      \<and> record_start crc (slice off (off + a) buf) \<and> \<not> record_start crc (slice off (off + b) buf))"
proof (cases "off + 24 \<le> length buf")
  case True
  let ?h = "take 24 (drop off buf)"
  obtain a b found where f: "error_field e = (a, b, found)" and le: "a \<le> b" "b \<le> 24" by (cases e) simp_all
  have "slice a b ?h = slice (off + a) (off + b) buf" "take a ?h = slice off (off + a) buf" "take b ?h = slice off (off + b) buf"
    using le by (simp_all add: slice_def take_drop min_def add.commute)
  moreover have "24 \<le> length buf - off" using True by simp
  ultimately show ?thesis
    using True verdict_field [of ?h e crc] by (simp add: f decode_next_shift [of off buf] decode_next_Inl)
next
  case False
  then show ?thesis by (simp add: decode_next_def HEADER_LEN_def)
qed

lemma decode_next_refuses:
  "(\<exists>e. decode_next crc buf off = Inl e) \<longleftrightarrow> off + 24 \<le> length buf \<and> \<not> record_start crc (slice off (off + 24) buf)"
proof (cases "off + 24 \<le> length buf")
  case True
  let ?h = "take 24 (drop off buf)"
  have len: "length ?h = 24" using True by simp
  obtain m v t g x kl pl where h: "?h = m @ v @ t # g # x @ kl @ pl"
    and l: "length m = 4" "length v = 2" "length x = 8" "length kl = 4" "length pl = 4"
    using header_cut [OF len] .
  have "header_verdict ?h = None \<longleftrightarrow> record_start crc ?h"
    using record_starts(7) [OF l, of crc t g] le_bytes_le_word [where 'a = 16 and bs = v] l
    unfolding h by (auto simp: header_verdict_def slice_def nth_append)
  with True show ?thesis by (auto simp: decode_next_shift [of off buf] decode_next_Inl slice_def)
next
  case False
  then show ?thesis by (simp add: decode_next_def HEADER_LEN_def)
qed

end
