(* ===== verification/Format_Properties.thy ===== *)
theory Format_Properties
  imports Example_Store Messages Header_Errors
begin

text \<open>
  Properties of the wire format (\<open>format.rs\<close>), the segment files (\<open>segment.rs\<close>) and
  the two scanning paths (\<open>scan_segment\<close>/\<open>scan_all\<close> and \<open>RecordIter\<close> of
  \<open>record_log.rs\<close>), each with the instance it is tried on.
\<close>

section \<open>The wire format\<close>

text \<open>
  C7.  Round trip: whatever \<open>encode_record\<close> accepts, \<open>decode_next\<close> reads back at any
  position of any buffer, and consumes exactly the bytes that were encoded.
\<close>

theorem decode_encode_roundtrip:
  assumes "encode_record crc rt txid key payload = Inr bs"
  shows "decode_next crc (pre @ bs @ rest) (length pre) = Inr (DOk rt txid key payload (length bs))"
proof -
  from assms obtain f where f: "frame_ok f" "bs = wire crc f"
    "f = \<lparr>fr_type = rt, fr_txid = txid, fr_key = key, fr_payload = payload\<rparr>"
    by (auto simp: encode_record_Inr)
  have "decode_next crc (pre @ bs @ rest) (length pre) = decode_next crc (wire crc f @ rest) 0"
    by (simp add: f(2))
  also have "\<dots> = Inr (DOk rt txid key payload (length bs))"
    using decode_wire [OF f(1), of crc rest] by (simp add: f(2) length_wire) (simp add: f(3))
  finally show ?thesis .
qed

theorem decode_encode_roundtrip_witness:
  "\<exists>bs. encode_record ex_crc Put 1 [1] [2, 3] = Inr bs \<and>
    decode_next ex_crc ([0, 0] @ bs @ [7]) 2 = Inr (DOk Put 1 [1] [2, 3] (length bs))"
proof -
  have e: "encode_record ex_crc Put 1 [1] [2, 3] = Inr (wire ex_crc ex_frame)"
    by (simp add: encode_record_wire ex_frame_def wire_consts)
  from decode_encode_roundtrip [OF e, of "[0, 0]" "[7]"] e show ?thesis
    by (simp add: numeral_2_eq_2)
qed

text \<open>
  C20.  Decoding is canonical: bytes that decode to a record are the encoding of that
  record, lie inside the buffer, and hold a key and a payload within the limits.
\<close>

theorem decoded_is_encoded:
  assumes "decode_next crc buf off = Inr (DOk rt txid key payload n)"
  shows "off + n \<le> length buf \<and> encode_record crc rt txid key payload = Inr (slice off (off + n) buf)"
proof -
  have n: "off + n \<le> length buf" using decode_next_progress [OF assms] by simp
  then have "decode_next crc (drop off buf) 0 = Inr (DOk rt txid key payload n)"
    using assms decode_next_shift [of off buf crc] by simp
  note C = decode_canonical [OF this]
  let ?f = "\<lparr>fr_type = rt, fr_txid = txid, fr_key = key, fr_payload = payload\<rparr>"
  have "slice off (off + n) buf = take n (drop off buf)" by (simp add: slice_def)
  also have "\<dots> = wire crc ?f" using arg_cong [OF C(3), of "take n"] C(2) by (simp add: length_wire)
  finally show ?thesis using n C(1) by (auto simp: encode_record_Inr)
qed

theorem decoded_is_encoded_witness:
  "encode_record ex_crc Put 1 [1] [2, 3] = Inr (slice 1 32 ([0] @ wire ex_crc ex_frame @ [7]))"
proof -
  have "decode_next ex_crc ([0] @ wire ex_crc ex_frame @ [7]) (length [0 :: u8]) = Inr (DOk Put 1 [1] [2, 3] 31)"
    unfolding decode_next_append using decode_wire [of ex_frame ex_crc "[7]"] by simp
  from decoded_is_encoded [OF this] show ?thesis by simp
qed

text \<open>
  A frame cut short anywhere is reported as truncated, with the bytes available and
  a need beyond them; it is never taken for a record and never a hard error.
\<close>

theorem torn_frame_truncated:
  assumes "encode_record crc rt txid key payload = Inr bs" and "n < length bs"
  shows "\<exists>needed. decode_next crc (pre @ take n bs) (length pre) = Inr (Truncated n needed) \<and> n < needed"
proof -
  from assms(1) obtain f where f: "frame_ok f" "bs = wire crc f" by (auto simp: encode_record_Inr)
  then show ?thesis
    using decode_truncated [OF f(1), of n crc crc] assms(2) wire_len_ge [of f] by (auto simp: length_wire)
qed

theorem torn_frame_truncated_witness:
  "\<exists>bs needed. encode_record ex_crc Put 1 [1] [2, 3] = Inr bs
    \<and> decode_next ex_crc ([5] @ take 30 bs) 1 = Inr (Truncated 30 needed) \<and> 30 < needed"
proof -
  have e: "encode_record ex_crc Put 1 [1] [2, 3] = Inr (wire ex_crc ex_frame)"
    by (simp add: encode_record_wire ex_frame_def wire_consts)
  have "30 < length (wire ex_crc ex_frame)" by (simp add: length_wire)
  from torn_frame_truncated [OF e this, of "[5]"] e show ?thesis by auto
qed

text \<open>
  C21.  Damage to key or payload: if the checksum tells the damaged bytes from the
  original, \<open>decode_next\<close> reports a CRC mismatch over the whole frame.
\<close>

theorem damaged_frame_crc_mismatch:
  assumes "frame_ok f" and "length body = length (fr_key f) + length (fr_payload f)"
    and "crc (frame_header f @ body) \<noteq> crc (frame_body f)"
  shows "decode_next crc (frame_header f @ body @ drop (24 + length body) (wire crc f) @ rest) 0
    = Inr (CrcMismatch (wire_len f))"
proof -
  let ?tr = "drop (24 + length body) (wire crc f)"
  have t: "?tr = le_bytes 4 (crc (frame_body f))"
    using assms(2) by (simp add: wire_def frame_body_def)
  then have "crc (frame_header f @ body) \<noteq> le_word ?tr" "length ?tr = 4"
    using assms(3) by simp_all
  with decode_corrupt_body [of f body crc ?tr rest] assms(1,2) show ?thesis by blast
qed

theorem damaged_frame_crc_mismatch_witness:
  "decode_next (\<lambda>bs. of_nat (sum_list (map unat bs)))
     (frame_header ex_frame @ [1, 2, 4] @ drop 27 (wire (\<lambda>bs. of_nat (sum_list (map unat bs))) ex_frame)) 0
   = Inr (CrcMismatch 31)"
proof -
  let ?crc = "\<lambda>bs :: bytes. of_nat (sum_list (map unat bs)) :: u32"
  have "?crc (frame_header ex_frame @ [1, 2, 4]) \<noteq> ?crc (frame_body ex_frame)"
    by (simp add: frame_body_def)
  with damaged_frame_crc_mismatch [of ex_frame "[1, 2, 4]" ?crc "[]"] show ?thesis by simp
qed

text \<open>
  C22.  The hard errors, at any offset of any buffer: \<open>decode_next\<close> fails exactly when a
  header's length of bytes is there that no encoded record starts with, and it reports the
  first field with which the bytes cease to be the start of some encoded record, together
  with what it found in that field.
\<close>

theorem hard_error_at_first_bad_field:
  "((\<exists>e. decode_next crc buf off = Inl e) \<longleftrightarrow>
      off + HEADER_LEN \<le> length buf \<and> \<not> record_start crc (slice off (off + HEADER_LEN) buf))
   \<and> (decode_next crc buf off = Inl e \<longleftrightarrow>
      off + HEADER_LEN \<le> length buf \<and> (case error_field e of (first, behind, found) \<Rightarrow>
        slice (off + first) (off + behind) buf = found
        \<and> record_start crc (slice off (off + first) buf) \<and> \<not> record_start crc (slice off (off + behind) buf)))"
  using decode_next_refuses [of crc buf off] decode_next_error [of crc buf off e] by (simp add: HEADER_LEN_def)

section \<open>Segments\<close>

text \<open>
  File names: \<open>parse_segment_filename\<close> accepts exactly the names that
  \<open>segment_path\<close> gives to ids below 100000000, and returns that id.
\<close>

theorem segment_name_roundtrip:
  "parse_segment_filename name = Some sid \<longleftrightarrow> sid < 10 ^ 8 \<and> name = segment_name sid"
  by (rule parse_segment_filename_Some)

text \<open>
  C26.  Discovery: the listing of a directory is sorted, has no duplicates, and consists
  of exactly the ids whose segment file is a regular file there, whatever else the
  directory holds; the active segment is the largest, and rotation takes the next id.
\<close>

theorem listing_complete:
  assumes "dir_ok d" and "list_segment_ids env d = Inr ids"
  shows "sorted ids \<and> distinct ids
    \<and> set ids = {sid. sid < 10 ^ 8 \<and> file_content d (segment_name sid) \<noteq> None}
    \<and> active_segment_id env d = Inr (if ids = [] then None else Some (Max (set ids)))
    \<and> next_segment_id ids = Inr (if ids = [] then 1 else Max (set ids) + 1)"
proof -
  have ids: "ids = seg_ids d" using assms(2) by (simp add: list_segment_ids_Inr)
  have m: "Max (set ids) = last ids" if "ids \<noteq> []"
    using that sorted_le_last [of ids] by (intro Max_eqI) (auto simp: ids)
  have l: "last ids + 1 < 2 ^ 32" if "ids \<noteq> []"
    using that seg_ids_less [of "last ids" d] by (simp add: ids)
  have "next_segment_id ids = Inr (if ids = [] then 1 else Max (set ids) + 1)"
    using m l by (simp add: next_segment_id_def checked_add_u32_def)
  moreover have "active_segment_id env d = Inr (if ids = [] then None else Some (Max (set ids)))"
    using m assms(2) by (simp add: active_segment_id_def)
  ultimately show ?thesis
    using assms(1) by (simp add: ids set_seg_ids flip: seg_content_def)
qed

theorem listing_complete_witness:
  "active_segment_id all_works [(Utf8 ''notes'', RegFile []), (Utf8 (segment_name 7), OtherNode),
     (Utf8 (segment_name 1), RegFile [])] = Inr (Some 1)"
proof -
  let ?d = "[(Utf8 ''notes'', RegFile []), (Utf8 (segment_name 7), OtherNode), (Utf8 (segment_name 1), RegFile [])]"
  have n: "segment_name sid \<noteq> ''notes''" for sid
    by (auto simp: segment_name_def SEGMENT_EXT_def dest!: arg_cong [of _ _ last])
  have ok: "dir_ok ?d" by (simp add: dir_ok_def n n [symmetric])
  obtain ids where l: "list_segment_ids all_works ?d = Inr ids" by (simp add: list_segment_ids_def)
  have f: "file_content ?d (segment_name sid) \<noteq> None \<longleftrightarrow> sid = 1" for sid
    by (simp add: file_content_def n)
  note C = listing_complete [OF ok l, unfolded f]
  have S: "set ids = {sid. sid < 10 ^ 8 \<and> sid = 1}" by (rule C [THEN conjunct2, THEN conjunct2, THEN conjunct1])
  have "(1::nat) < 10 ^ 8" by simp
  then have "set ids = {1}" unfolding S by blast
  then have "ids \<noteq> []" "Max (set ids) = 1" by (metis empty_set insert_not_empty, simp)
  with C [THEN conjunct2, THEN conjunct2, THEN conjunct2, THEN conjunct1] show ?thesis by presburger
qed

section \<open>Scanning\<close>

text \<open>
  C8.  \<open>scan_segment\<close> computes the longest valid prefix: every buffer is, in exactly one
  way, a run of encoded frames followed by bytes that start no frame; the loop returns
  those frames at their offsets, and what it does at the end is decided by the first
  frame header of the rest alone.
\<close>

theorem scan_longest_valid_prefix:
  assumes "list_all frame_ok fs" and "parse_frame crc t = None" and "buf = stream crc fs @ t"
  shows "scan_loop crc sid is_last buf 0 out =
      end_scan sid is_last (length buf) (length (stream crc fs)) (tail_of crc t)
        (fold push_record (place sid 0 fs) out)
    \<and> (\<forall>gs u. list_all frame_ok gs \<and> parse_frame crc u = None \<and> buf = stream crc gs @ u \<longrightarrow> gs = fs \<and> u = t)"
proof -
  have s: "split_frames crc buf = (fs, t)" using assms by (simp add: split_frames_iff)
  moreover have "length buf - length t = length (stream crc fs)" using assms(3) by simp
  ultimately have "scan_loop crc sid is_last buf 0 out =
      end_scan sid is_last (length buf) (length (stream crc fs)) (tail_of crc t)
        (fold push_record (place sid 0 fs) out)"
    by (simp add: scan_loop_eq segment_spec_def)
  then show ?thesis using s split_frames_iff [of crc buf] by (metis prod.inject)
qed

theorem scan_longest_valid_prefix_witness:
  "scan_loop ex_crc 1 True (wire ex_crc ex_frame @ [0x44]) 0 empty_scan =
     Inr (stop_at_tail 1 32 31 (push_record (located 1 0 ex_frame) empty_scan))"
proof -
  have t: "parse_frame ex_crc [0x44] = None" "tail_of ex_crc [0x44] = ShortTail"
    by (code_simp, code_simp)
  from scan_longest_valid_prefix [of "[ex_frame]" ex_crc "[0x44]" "wire ex_crc ex_frame @ [0x44]" 1 True empty_scan] t
  show ?thesis by (simp add: end_scan_def length_wire)
qed

text \<open>
  C9.  The lazy iterator is the eager scan: draining a fresh \<open>RecordIter\<close> yields exactly
  the records of \<open>scan_all\<close>, ends with the same report, and fails when it fails, with the
  error as the last item.
\<close>

theorem lazy_scan_is_eager:
  "case scan_all env crc d ids of
     Inr si \<Rightarrow> \<exists>it. drain env crc d (iter_new ids) = (map Inr (si_records si), it)
       \<and> iter_recovery_report it = into_public si \<and> it_done it
   | Inl e \<Rightarrow> \<exists>rs. fst (drain env crc d (iter_new ids)) = map Inr rs @ [Inl e]"
  by (rule drain_scan_all)

text \<open>
  C27.  Termination and fusing: in whatever state and with whatever files it is called,
  \<open>next\<close> returns; an item comes with a state smaller in a well-founded order, so only
  finitely many are produced; and after \<open>None\<close> or an error item it returns \<open>None\<close> for
  ever.
\<close>

theorem iterator_ends_and_is_fused:
  assumes "iter_next env crc d it = (x, it')"
  shows "wf iter_less \<and> (x \<noteq> None \<longrightarrow> (it', it) \<in> iter_less)
    \<and> (x = None \<or> (\<exists>e. x = Some (Inl e)) \<longrightarrow>
        (\<forall>env' crc' d'. iter_next env' crc' d' it' = (None, it') \<and> drain env' crc' d' it' = ([], it')))"
  using iter_next_less iter_next_fused [OF assms] iter_next_done drain_done iter_less_wf assms by auto

theorem iterator_ends_and_is_fused_witness:
  "\<exists>it. iter_next all_works ex_crc [] (iter_new [1]) = (Some (Inl (Io (OpenRead 1))), it)
     \<and> iter_next all_works ex_crc ex_dir it = (None, it)"
proof -
  obtain it where n: "iter_next all_works ex_crc [] (iter_new [1]) = (Some (Inl (Io (OpenRead 1))), it)"
    by (simp add: iter_next.simps iter_new_def ensure_loaded_def file_content_def)
  from iterator_ends_and_is_fused [OF n] n show ?thesis by blast
qed

section \<open>The file pool\<close>

text \<open>
  C29.  The pool is a least-recently-used cache: after any sequence of reads of existing
  segments it holds the last \<open>capacity\<close> distinct ones, in the order of their last use.
  With capacity 0, which \<open>fd_pool.rs\<close> documents as no caching at all, it holds one.
\<close>

theorem pool_is_lru:
  assumes "all_io env" and "\<forall>sid\<in>set ids. file_content d (segment_name sid) \<noteq> None"
  shows "map fst (fp_entries (touch_all env d (with_capacity c) ids)) = rev (take (max 1 c) (recency ids))"
  using touch_recent [OF assms(1)] assms(2) by (simp add: seg_content_def)

theorem pool_is_lru_witness:
  "map fst (fp_entries (touch_all all_works (map (\<lambda>i. (Utf8 (segment_name i), RegFile [])) [1, 2, 3])
     (with_capacity 2) [1, 2, 1, 3])) = [1, 3]"
proof -
  let ?d = "map (\<lambda>i. (Utf8 (segment_name i), RegFile [])) [1, 2, 3]"
  have "\<forall>sid\<in>set [1, 2, 1, 3]. file_content ?d (segment_name sid) \<noteq> None"
    by (simp add: file_content_def)
  from pool_is_lru [OF all_io_all_works this, of 2] show ?thesis
    by (simp add: recency_def)
qed

text \<open>
  Reads through the pool: they keep its invariant; a successful one returned the
  bytes of the segment file, whatever the pool held before; and one inside the file
  succeeds when the system calls do.
\<close>

theorem pool_reads_file_bytes:
  assumes "pool_inv p" and "read_at env d p sid off len = (res, p')"
  shows "pool_inv p'
    \<and> (\<forall>bs. res = Inr bs \<longrightarrow> (\<exists>c. file_content d (segment_name sid) = Some c \<and> bs = slice off (off + len) c))
    \<and> (\<forall>c. all_io env \<and> file_content d (segment_name sid) = Some c \<and> off + len \<le> length c
         \<longrightarrow> res = Inr (slice off (off + len) c))"
  using read_at_inv [OF assms(1), of env d sid off len] assms(2) read_at_Inr [OF assms(1)]
    read_at_ok [OF assms(1), of d sid _ off len env]
  by (auto simp flip: seg_content_def)

theorem pool_reads_file_bytes_witness:
  "fst (read_at all_works (one_segment [5, 6, 7]) (with_capacity 0) 1 1 2) = Inr [6, 7]"
proof -
  obtain res p' where r: "read_at all_works (one_segment [5, 6, 7]) (with_capacity 0) 1 1 2 = (res, p')"
    by force
  have c: "file_content (one_segment [5, 6, 7]) (segment_name 1) = Some [5, 6, 7]"
    by (simp add: file_content_def one_segment_def)
  have "res = Inr (slice 1 (1 + 2) [5, 6, 7])"
    using pool_reads_file_bytes [OF with_capacity_inv r, THEN conjunct2, THEN conjunct2, THEN spec [of _ "[5, 6, 7]"]] c
    by simp
  with r show ?thesis by (simp add: slice_def)
qed

text \<open>
  C23.  Error texts: the text printed for a decode error determines the error, the check
  that failed and the value it found, so no two defects of a header look alike.
\<close>

theorem decode_error_messages_differ:
  "decode_error_message e = decode_error_message e' \<longleftrightarrow> e = e'"
  by (cases e; cases e') (auto simp: word_end word_unat_eq_iff)

end
