(* ===== verification/Power_Loss_Workload.thy ===== *)
theory Power_Loss_Workload
  imports Data_Wal_Correct
begin

text \<open>
  The producer of the power-loss harness,
  \<open>crates/datawal-core/examples/power_loss_workload.rs\<close>: the argument parser, the
  pseudo-random keys and values, and the loop of \<open>put\<close>/\<open>delete\<close>, \<open>fsync\<close> and one oracle
  line per operation.  Parameters: the JSON encoder of serde_json (\<open>json\<close>) and Base64
  (\<open>b64\<close>); the operating system met by operation \<open>seq\<close> (\<open>env seq\<close>); whether the
  wall-clock budget is spent when operation \<open>seq\<close> is about to start (\<open>time_up seq\<close>);
  what happens to the write of the oracle line of \<open>seq\<close> (\<open>oracle_io seq\<close>: \<open>None\<close> when
  it succeeds, \<open>Some n\<close> when it fails after \<open>n\<close> characters).  The oracle file is its text.
\<close>

definition DEFAULT_KEY_LEN :: nat where "DEFAULT_KEY_LEN = 16"
definition DEFAULT_VALUE_LEN :: nat where "DEFAULT_VALUE_LEN = 96"
definition DELETE_EVERY :: u64 where "DELETE_EVERY = 23"
definition FSYNC_BATCH :: u64 where "FSYNC_BATCH = 1"

section \<open>Arguments\<close>

text \<open>\<open>str::parse\<close> to a 64-bit unsigned integer: an optional plus sign, then digits.\<close>

definition parse_u64 :: "string \<Rightarrow> nat option" where
  "parse_u64 s =
     (let t = (if s \<noteq> [] \<and> hd s = CHR ''+'' then tl s else s) in
      if t = [] \<or> \<not> list_all is_ascii_digit t then None
      else if dec_val t < 2 ^ 64 then Some (dec_val t) else None)"

datatype arg_error =
    RequiresValue string | BadNumber string | UnknownArg string | MissingArg string
  | NoBudget | KeyLenRange nat | ValueLenRange nat

record workload_cli =
  wc_work_dir :: string
  wc_oracle :: string
  wc_seed :: u64
  wc_ops :: u64
  wc_duration :: u64
  wc_key_len :: nat
  wc_value_len :: nat

record workload_args =
  wa_work_dir :: "string option"
  wa_oracle :: "string option"
  wa_seed :: nat
  wa_ops :: nat
  wa_duration :: nat
  wa_key_len :: nat
  wa_value_len :: nat

definition workload_args_init :: workload_args where
  "workload_args_init = \<lparr>wa_work_dir = None, wa_oracle = None, wa_seed = 1, wa_ops = 0,
     wa_duration = 0, wa_key_len = DEFAULT_KEY_LEN, wa_value_len = DEFAULT_VALUE_LEN\<rparr>"

definition number :: "string \<Rightarrow> string \<Rightarrow> (nat \<Rightarrow> 'a) \<Rightarrow> arg_error + 'a" where
  "number arg v f = (case parse_u64 v of Some n \<Rightarrow> Inr (f n) | None \<Rightarrow> Inl (BadNumber arg))"

definition workload_set_arg ::
  "string \<Rightarrow> string \<Rightarrow> workload_args \<Rightarrow> arg_error + workload_args" where
  "workload_set_arg arg v a =
     (if arg = ''--work-dir'' then Inr (a\<lparr>wa_work_dir := Some v\<rparr>)
      else if arg = ''--oracle'' then Inr (a\<lparr>wa_oracle := Some v\<rparr>)
      else if arg = ''--seed'' then number arg v (\<lambda>n. a\<lparr>wa_seed := n\<rparr>)
      else if arg = ''--ops'' then number arg v (\<lambda>n. a\<lparr>wa_ops := n\<rparr>)
      else if arg = ''--duration'' then number arg v (\<lambda>n. a\<lparr>wa_duration := n\<rparr>)
      else if arg = ''--key-len'' then number arg v (\<lambda>n. a\<lparr>wa_key_len := n\<rparr>)
      else number arg v (\<lambda>n. a\<lparr>wa_value_len := n\<rparr>))"

fun workload_args_loop :: "string list \<Rightarrow> workload_args \<Rightarrow> arg_error + workload_args" where
  "workload_args_loop [] a = Inr a"
| "workload_args_loop [arg] a =
     (if arg \<in> set [''--work-dir'', ''--oracle'', ''--seed'', ''--ops'', ''--duration'', ''--key-len'', ''--value-len'']
      then Inl (RequiresValue arg) else Inl (UnknownArg arg))"
| "workload_args_loop (arg # v # rest) a =
     (if arg \<in> set [''--work-dir'', ''--oracle'', ''--seed'', ''--ops'', ''--duration'', ''--key-len'', ''--value-len'']
      then (case workload_set_arg arg v a of Inl e \<Rightarrow> Inl e | Inr a' \<Rightarrow> workload_args_loop rest a')
      else Inl (UnknownArg arg))"

definition workload_parse_args :: "string list \<Rightarrow> arg_error + workload_cli" where
  "workload_parse_args args =
     (case workload_args_loop args workload_args_init of
        Inl e \<Rightarrow> Inl e
      | Inr a \<Rightarrow>
          (case wa_work_dir a of
             None \<Rightarrow> Inl (MissingArg ''--work-dir is required'')
           | Some work_dir \<Rightarrow>
               (case wa_oracle a of
                  None \<Rightarrow> Inl (MissingArg ''--oracle is required'')
                | Some oracle \<Rightarrow>
                    if wa_ops a = 0 \<and> wa_duration a = 0 then Inl NoBudget
                    else if \<not> (1 \<le> wa_key_len a \<and> wa_key_len a \<le> 512) then Inl (KeyLenRange (wa_key_len a))
                    else if \<not> (1 \<le> wa_value_len a \<and> wa_value_len a \<le> 65536)
                      then Inl (ValueLenRange (wa_value_len a))
                    else Inr \<lparr>wc_work_dir = work_dir, wc_oracle = oracle, wc_seed = of_nat (wa_seed a),
                           wc_ops = of_nat (wa_ops a), wc_duration = of_nat (wa_duration a),
                           wc_key_len = wa_key_len a, wc_value_len = wa_value_len a\<rparr>)))"

section \<open>Pseudo-random keys and values\<close>

text \<open>\<open>SplitMix64\<close> is its state.\<close>

definition splitmix_new :: "u64 \<Rightarrow> u64" where
  "splitmix_new seed = seed + 0x9E3779B97F4A7C15"

definition next_u64 :: "u64 \<Rightarrow> u64 \<times> u64" where
  "next_u64 s =
     (let z = s + 0x9E3779B97F4A7C15;
          z1 = (z XOR drop_bit 30 z) * 0xBF58476D1CE4E5B9;
          z2 = (z1 XOR drop_bit 27 z1) * 0x94D049BB133111EB
      in (z2 XOR drop_bit 31 z2, z))"

text \<open>\<open>fill\<close> on a buffer with \<open>n\<close> bytes left to fill.\<close>

function fill :: "nat \<Rightarrow> u64 \<Rightarrow> bytes \<times> u64" where
  "fill n s =
     (if n = 0 then ([], s)
      else
        let (v, s') = next_u64 s; chunk = le_bytes 8 v; k = min n 8;
            (rest, s'') = fill (n - k) s'
        in (take k chunk @ rest, s''))"
  by pat_completeness auto
termination
  by (relation "measure fst") auto

declare fill.simps [simp del]

lemma length_fill: "length (fst (fill n s)) = n"
proof (induction n arbitrary: s rule: less_induct)
  case (less n)
  show ?case
  proof (cases "n = 0")
    case False
    then have "length (fst (fill (n - min n 8) s')) = n - min n 8" for s'
      by (intro less) simp
    with False show ?thesis
      by (subst fill.simps) (simp add: Let_def split: prod.splits, metis fst_conv min.commute le_add_diff_inverse min.cobounded1)
  qed (simp add: fill.simps)
qed

definition key_for :: "u64 \<Rightarrow> u64 \<Rightarrow> nat \<Rightarrow> bytes" where
  "key_for seed op key_len =
     (let key_id = (op * 0x100000001B3) AND 0xFFF
      in fst (fill key_len (splitmix_new (seed XOR key_id))))"

definition value_for :: "u64 \<Rightarrow> u64 \<Rightarrow> nat \<Rightarrow> bytes" where
  "value_for seed op value_len =
     fst (fill value_len (splitmix_new (seed XOR op XOR 0xDEADBEEFCAFEBABE)))"

section \<open>The oracle\<close>

datatype oracle_line = OPut u64 string string | ODel u64 string

datatype workload_error = Wal error | OracleWrite | OracleOpen | CreateWorkDir

definition write_oracle_line ::
  "nat option \<Rightarrow> (oracle_line \<Rightarrow> string) \<Rightarrow> string \<Rightarrow> oracle_line \<Rightarrow> (workload_error + unit) \<times> string" where
  "write_oracle_line io json oracle line =
     (let buf = json line @ ''\<newline>'' in
      case io of
        Some n \<Rightarrow> (Inl OracleWrite, oracle @ take n buf)
      | None \<Rightarrow> (Inr (), oracle @ buf))"

section \<open>The loop\<close>

record workload_state =
  ws_seq :: u64
  ws_puts :: nat
  ws_dels :: nat
  ws_log :: data_wal
  ws_dir :: dir
  ws_oracle :: string

text \<open>One iteration after the budget checks.\<close>

definition workload_op ::
  "(u64 \<Rightarrow> os_env) \<Rightarrow> (u64 \<Rightarrow> nat option) \<Rightarrow> (bytes \<Rightarrow> u32) \<Rightarrow> (bytes \<Rightarrow> string) \<Rightarrow> (oracle_line \<Rightarrow> string)
   \<Rightarrow> workload_cli \<Rightarrow> workload_state \<Rightarrow> (workload_error + unit) \<times> workload_state" where
  "workload_op env oracle_io crc b64 json cli s =
     (let seq = ws_seq s; do_delete = (seq mod DELETE_EVERY = DELETE_EVERY - 1);
          key = key_for (wc_seed cli) seq (wc_key_len cli) in
      if do_delete then
        (case dw_delete (env seq) crc (ws_log s) (ws_dir s) key of
           (Inl e, w1, d1) \<Rightarrow> (Inl (Wal e), s\<lparr>ws_log := w1, ws_dir := d1\<rparr>)
         | (Inr _, w1, d1) \<Rightarrow>
             let s1 = s\<lparr>ws_log := w1, ws_dir := d1\<rparr> in
             if seq mod FSYNC_BATCH = 0 then
               (case dw_fsync (env seq) w1 of
                  (Inl e, w2) \<Rightarrow> (Inl (Wal e), s1\<lparr>ws_log := w2\<rparr>)
                | (Inr _, w2) \<Rightarrow>
                    (case write_oracle_line (oracle_io seq) json (ws_oracle s) (ODel seq (b64 key)) of
                       (Inl e, o1) \<Rightarrow> (Inl e, s1\<lparr>ws_log := w2, ws_oracle := o1\<rparr>)
                     | (Inr _, o1) \<Rightarrow>
                         (Inr (), s1\<lparr>ws_log := w2, ws_oracle := o1, ws_dels := ws_dels s + 1, ws_seq := seq + 1\<rparr>)))
             else (Inr (), s1\<lparr>ws_seq := seq + 1\<rparr>))
      else
        let value = value_for (wc_seed cli) seq (wc_value_len cli) in
        (case dw_put (env seq) crc (ws_log s) (ws_dir s) key value of
           (Inl e, w1, d1) \<Rightarrow> (Inl (Wal e), s\<lparr>ws_log := w1, ws_dir := d1\<rparr>)
         | (Inr _, w1, d1) \<Rightarrow>
             let s1 = s\<lparr>ws_log := w1, ws_dir := d1\<rparr> in
             if seq mod FSYNC_BATCH = 0 then
               (case dw_fsync (env seq) w1 of
                  (Inl e, w2) \<Rightarrow> (Inl (Wal e), s1\<lparr>ws_log := w2\<rparr>)
                | (Inr _, w2) \<Rightarrow>
                    (case write_oracle_line (oracle_io seq) json (ws_oracle s) (OPut seq (b64 key) (b64 value)) of
                       (Inl e, o1) \<Rightarrow> (Inl e, s1\<lparr>ws_log := w2, ws_oracle := o1\<rparr>)
                     | (Inr _, o1) \<Rightarrow>
                         (Inr (), s1\<lparr>ws_log := w2, ws_oracle := o1, ws_puts := ws_puts s + 1, ws_seq := seq + 1\<rparr>)))
             else (Inr (), s1\<lparr>ws_seq := seq + 1\<rparr>)))"

lemma workload_op_seq:
  "workload_op env oracle_io crc b64 json cli s = (Inr u, s') \<Longrightarrow> ws_seq s' = ws_seq s + 1"
  by (auto simp: workload_op_def Let_def split: if_splits prod.splits sum.splits)

lemma seq_progress:
  fixes s b :: u64
  assumes "\<not> b \<le> s"
  shows "unat b - unat (s + 1) < unat b - unat s"
proof -
  have "s < b" using assms by simp
  then have "s \<noteq> - 1" by (metis not_less_iff_gr_or_eq word_order.extremum_strict)
  then have "checked_succ s = Some (s + 1)" by (simp add: checked_succ_def)
  from checked_succ_Some [OF this] \<open>s < b\<close> show ?thesis
    by (simp add: word_less_nat_alt)
qed

function workload_loop ::
  "(u64 \<Rightarrow> os_env) \<Rightarrow> (u64 \<Rightarrow> bool) \<Rightarrow> (u64 \<Rightarrow> nat option) \<Rightarrow> (bytes \<Rightarrow> u32) \<Rightarrow> (bytes \<Rightarrow> string)
   \<Rightarrow> (oracle_line \<Rightarrow> string) \<Rightarrow> workload_cli \<Rightarrow> u64 \<Rightarrow> workload_state \<Rightarrow> (workload_error + unit) \<times> workload_state" where
  "workload_loop env time_up oracle_io crc b64 json cli budget s =
     (if budget \<le> ws_seq s then (Inr (), s)
      else if wc_duration cli \<noteq> 0 \<and> time_up (ws_seq s) then (Inr (), s)
      else case workload_op env oracle_io crc b64 json cli s of
        (Inl e, s') \<Rightarrow> (Inl e, s')
      | (Inr _, s') \<Rightarrow> workload_loop env time_up oracle_io crc b64 json cli budget s')"
  by pat_completeness auto

termination
  by (relation "measure (\<lambda>(env, time_up, oracle_io, crc, b64, json, cli, budget, s). unat budget - unat (ws_seq s))")
    (auto dest!: workload_op_seq [OF sym] intro: seq_progress)

declare workload_loop.simps [simp del]

text \<open>
  \<open>run\<close>: \<open>created\<close>, \<open>opened\<close> and \<open>oracle_synced\<close> say whether the directories could be made,
  the oracle file created, and the oracle synced at the end.  The result is that of \<open>run\<close>, and what it left: the
  store and the oracle.
\<close>

definition workload_run ::
  "'k flock \<Rightarrow> os_env \<Rightarrow> (u64 \<Rightarrow> os_env) \<Rightarrow> os_env \<Rightarrow> (u64 \<Rightarrow> bool) \<Rightarrow> (u64 \<Rightarrow> nat option) \<Rightarrow> bool \<Rightarrow> bool \<Rightarrow> bool
   \<Rightarrow> (bytes \<Rightarrow> u32) \<Rightarrow> (bytes \<Rightarrow> string) \<Rightarrow> (oracle_line \<Rightarrow> string) \<Rightarrow> nat \<Rightarrow> nat \<Rightarrow> workload_cli \<Rightarrow> 'k \<Rightarrow> dir option
   \<Rightarrow> (workload_error + unit) \<times> workload_state option" where
  "workload_run fl env0 env env' time_up oracle_io created opened oracle_synced crc b64 json pid fd cli k dopt =
     (if \<not> created then (Inl CreateWorkDir, None)
      else if \<not> opened then (Inl OracleOpen, None)
      else case dw_open fl env0 crc pid fd k dopt of
        (Inl e, _, _) \<Rightarrow> (Inl (Wal e), None)
      | (Inr w, _, d) \<Rightarrow>
          let budget = (if wc_ops cli = 0 then - 1 else wc_ops cli);
              s0 = \<lparr>ws_seq = 0, ws_puts = 0, ws_dels = 0, ws_log = w,
                    ws_dir = (case d of None \<Rightarrow> [] | Some d1 \<Rightarrow> d1), ws_oracle = []\<rparr> in
          (case workload_loop env time_up oracle_io crc b64 json cli budget s0 of
             (Inl e, s) \<Rightarrow> (Inl e, Some s)
           | (Inr _, s) \<Rightarrow>
               (case dw_fsync env' (ws_log s) of
                  (Inl e, w') \<Rightarrow> (Inl (Wal e), Some (s\<lparr>ws_log := w'\<rparr>))
                | (Inr _, w') \<Rightarrow>
                    (if oracle_synced then Inr () else Inl OracleWrite, Some (s\<lparr>ws_log := w'\<rparr>)))))"

definition workload_main ::
  "(arg_error + workload_cli) \<Rightarrow> (workload_cli \<Rightarrow> workload_error + unit) \<Rightarrow> nat" where
  "workload_main parsed run =
     (case parsed of
        Inl e \<Rightarrow> 2
      | Inr cli \<Rightarrow> (case run cli of Inr _ \<Rightarrow> 0 | Inl e \<Rightarrow> 1))"

end
