(* ===== verification/Power_Loss_Validate.thy ===== *)
theory Power_Loss_Validate
  imports Power_Loss_Workload Bytes_Render
begin

text \<open>
  The consumer of the power-loss harness,
  \<open>crates/datawal-core/examples/power_loss_validate.rs\<close>: it reads the oracle, reopens
  the store and compares.  Parameters: the JSON parser of serde_json (\<open>parse\<close>), Base64
  decoding (\<open>b64_dec\<close>), and the operating systems met by the two \<open>open\<close>s and the
  \<open>get\<close>s.  Oracle lines are ASCII.  The result of \<open>run\<close> carries the counters that it
  prints; a hash map is the list of its entries.
\<close>

section \<open>Arguments\<close>

record validate_cli =
  vc_work_dir :: string
  vc_oracle :: string
  vc_sample :: nat

record validate_args =
  va_work_dir :: "string option"
  va_oracle :: "string option"
  va_sample :: nat

fun validate_args_loop :: "string list \<Rightarrow> validate_args \<Rightarrow> arg_error + validate_args" where
  "validate_args_loop [] a = Inr a"
| "validate_args_loop [arg] a =
     (if arg \<in> set [''--work-dir'', ''--oracle'', ''--sample'']
      then Inl (RequiresValue arg) else Inl (UnknownArg arg))"
| "validate_args_loop (arg # v # rest) a =
     (if arg = ''--work-dir'' then validate_args_loop rest (a\<lparr>va_work_dir := Some v\<rparr>)
      else if arg = ''--oracle'' then validate_args_loop rest (a\<lparr>va_oracle := Some v\<rparr>)
      else if arg = ''--sample'' then
        (case parse_u64 v of
           None \<Rightarrow> Inl (BadNumber arg)
         | Some n \<Rightarrow> validate_args_loop rest (a\<lparr>va_sample := n\<rparr>))
      else Inl (UnknownArg arg))"

definition validate_parse_args :: "string list \<Rightarrow> arg_error + validate_cli" where
  "validate_parse_args args =
     (case validate_args_loop args \<lparr>va_work_dir = None, va_oracle = None, va_sample = 5\<rparr> of
        Inl e \<Rightarrow> Inl e
      | Inr a \<Rightarrow>
          (case va_work_dir a of
             None \<Rightarrow> Inl (MissingArg ''--work-dir is required'')
           | Some work_dir \<Rightarrow>
               (case va_oracle a of
                  None \<Rightarrow> Inl (MissingArg ''--oracle is required'')
                | Some oracle \<Rightarrow> Inr \<lparr>vc_work_dir = work_dir, vc_oracle = oracle, vc_sample = va_sample a\<rparr>)))"

section \<open>The oracle\<close>

datatype oracle_effect = Live bytes | Dead

record oracle_aggregate =
  oa_effect :: "(bytes \<times> oracle_effect) list"
  oa_last_seq :: u64
  oa_puts :: nat
  oa_dels :: nat

datatype mismatch = Mismatch nat nat nat string   \<comment> \<open>key length, expected, got, fingerprint\<close>

datatype validate_error =
    OracleUnreadable | OracleBadLine | OracleBadBase64
  | Store error
  | MidStreamErrors nat
  | ExtraKeys nat "(nat \<times> string) list"
  | PayloadMismatch nat "mismatch list"

text \<open>\<open>BufRead::lines\<close>: the line feed is dropped, and a carriage return before it.\<close>

definition chomp :: "string \<Rightarrow> string" where
  "chomp l = (if l \<noteq> [] \<and> last l = CHR 0x0D then butlast l else l)"

fun buf_lines :: "string \<Rightarrow> string \<Rightarrow> string list" where
  "buf_lines acc [] = (if acc = [] then [] else [acc])"
| "buf_lines acc (c # cs) =
     (if c = CHR 0x0A then chomp acc # buf_lines [] cs else buf_lines (acc @ [c]) cs)"

text \<open>\<open>line.trim().is_empty()\<close> on ASCII.\<close>

definition blank :: "string \<Rightarrow> bool" where
  "blank l \<longleftrightarrow> list_all (\<lambda>c. (9 \<le> (of_char c :: nat) \<and> (of_char c :: nat) \<le> 13) \<or> c = CHR '' '') l"

fun load_lines ::
  "(string \<Rightarrow> bytes option) \<Rightarrow> (string \<Rightarrow> oracle_line option) \<Rightarrow> string list \<Rightarrow> oracle_aggregate
   \<Rightarrow> validate_error + oracle_aggregate" where
  "load_lines b64_dec parse [] agg = Inr agg"
| "load_lines b64_dec parse (line # rest) agg =
     (if blank line then load_lines b64_dec parse rest agg
      else case parse line of
        None \<Rightarrow> Inl OracleBadLine
      | Some (OPut seq key payload) \<Rightarrow>
          (case b64_dec key of
             None \<Rightarrow> Inl OracleBadBase64
           | Some k \<Rightarrow>
               (case b64_dec payload of
                  None \<Rightarrow> Inl OracleBadBase64
                | Some v \<Rightarrow> load_lines b64_dec parse rest
                    (agg\<lparr>oa_effect := AList.update k (Live v) (oa_effect agg),
                         oa_last_seq := max (oa_last_seq agg) seq, oa_puts := oa_puts agg + 1\<rparr>)))
      | Some (ODel seq key) \<Rightarrow>
          (case b64_dec key of
             None \<Rightarrow> Inl OracleBadBase64
           | Some k \<Rightarrow> load_lines b64_dec parse rest
               (agg\<lparr>oa_effect := AList.update k Dead (oa_effect agg),
                    oa_last_seq := max (oa_last_seq agg) seq, oa_dels := oa_dels agg + 1\<rparr>)))"

definition load_oracle ::
  "(string \<Rightarrow> bytes option) \<Rightarrow> (string \<Rightarrow> oracle_line option) \<Rightarrow> string option \<Rightarrow> validate_error + oracle_aggregate" where
  "load_oracle b64_dec parse file =
     (case file of
        None \<Rightarrow> Inl OracleUnreadable
      | Some content \<Rightarrow> load_lines b64_dec parse (buf_lines [] content)
          \<lparr>oa_effect = [], oa_last_seq = 0, oa_puts = 0, oa_dels = 0\<rparr>)"

section \<open>Validation\<close>

text \<open>FNV-1a, printed as sixteen hex digits.\<close>

definition fnv1a :: "bytes \<Rightarrow> u64" where
  "fnv1a b = foldl (\<lambda>h byte. (h XOR ucast byte) * 0x100000001b3) 0xcbf29ce484222325 b"

definition short_fingerprint :: "bytes \<Rightarrow> string" where
  "short_fingerprint b = to_hex (rev (le_bytes 8 (fnv1a b)))"

definition oracle_live :: "(bytes \<times> oracle_effect) list \<Rightarrow> bytes list" where
  "oracle_live eff = map fst (filter (\<lambda>(k, e). e \<noteq> Dead) eff)"

text \<open>The loop over the oracle's live entries; the counters are survived and dropped.\<close>

fun compare_loop ::
  "os_env \<Rightarrow> (bytes \<Rightarrow> u32) \<Rightarrow> dir \<Rightarrow> nat \<Rightarrow> (bytes \<times> oracle_effect) list \<Rightarrow> data_wal
   \<Rightarrow> nat \<times> nat \<times> mismatch list \<Rightarrow> validate_error + (nat \<times> nat \<times> mismatch list)" where
  "compare_loop env crc d sample [] store acc = Inr acc"
| "compare_loop env crc d sample ((key, eff) # rest) store (survived, dropped, ms) =
     (case eff of
        Dead \<Rightarrow> compare_loop env crc d sample rest store (survived, dropped, ms)
      | Live expected \<Rightarrow>
          (case dw_get env crc store d key of
             (Inl e, _) \<Rightarrow> Inl (Store e)
           | (Inr (Some got), store') \<Rightarrow>
               if got \<noteq> expected then
                 compare_loop env crc d sample rest store' (survived, dropped,
                   (if length ms < sample
                    then ms @ [Mismatch (length key) (length expected) (length got) (short_fingerprint key)] else ms))
               else compare_loop env crc d sample rest store' (survived + 1, dropped, ms)
           | (Inr None, store') \<Rightarrow> compare_loop env crc d sample rest store' (survived, dropped + 1, ms)))"

record validate_summary =
  vs_observed_live :: nat
  vs_oracle_live :: nat
  vs_survived :: nat
  vs_dropped :: nat
  vs_oracle_dead :: nat

definition validate_store ::
  "os_env \<Rightarrow> (bytes \<Rightarrow> u32) \<Rightarrow> nat \<Rightarrow> (bytes \<times> oracle_effect) list \<Rightarrow> data_wal \<Rightarrow> dir
   \<Rightarrow> validate_error + validate_summary" where
  "validate_store env crc sample eff store d =
     (let observed = dw_keys store;
          live = oracle_live eff;
          extras = filter (\<lambda>k. k \<notin> set live) observed in
      if extras \<noteq> [] then
        Inl (ExtraKeys (length extras) (map (\<lambda>k. (length k, short_fingerprint k)) (take sample extras)))
      else case compare_loop env crc d sample eff store (0, 0, []) of
        Inl e \<Rightarrow> Inl e
      | Inr (survived, dropped, ms) \<Rightarrow>
          if ms \<noteq> [] then Inl (PayloadMismatch (length ms) ms)
          else Inr \<lparr>vs_observed_live = length observed, vs_oracle_live = length live,
                 vs_survived = survived, vs_dropped = dropped,
                 vs_oracle_dead = length (filter (\<lambda>(k, e). e = Dead) eff)\<rparr>)"

definition validate_run ::
  "'k flock \<Rightarrow> os_env \<Rightarrow> os_env \<Rightarrow> os_env \<Rightarrow> (bytes \<Rightarrow> u32) \<Rightarrow> (string \<Rightarrow> bytes option) \<Rightarrow> (string \<Rightarrow> oracle_line option)
   \<Rightarrow> nat \<Rightarrow> nat \<Rightarrow> nat \<Rightarrow> nat \<Rightarrow> 'k \<Rightarrow> dir option \<Rightarrow> string option \<Rightarrow> validate_error + validate_summary" where
  "validate_run fl env1 env2 env3 crc b64_dec parse pid fd fd2 sample k dopt oracle =
     (case load_oracle b64_dec parse oracle of
        Inl e \<Rightarrow> Inl e
      | Inr agg \<Rightarrow>
          (case rl_open fl env1 crc pid fd k dopt of
             (Inl e, _, _) \<Rightarrow> Inl (Store e)
           | (Inr rlog, k1, d1) \<Rightarrow>
               (case rl_recovery_report rlog of
                  Inl e \<Rightarrow> Inl (Store e)
                | Inr report \<Rightarrow>
                    if rr_mid_stream_errors report > 0 then Inl (MidStreamErrors (rr_mid_stream_errors report))
                    else
                      (case dw_open fl env2 crc pid fd2 (dir_lock_drop fl k1 (rl_lock rlog)) d1 of
                         (Inl e, _, _) \<Rightarrow> Inl (Store e)
                       | (Inr store, _, d2) \<Rightarrow>
                           validate_store env3 crc sample (oa_effect agg) store
                             (case d2 of None \<Rightarrow> [] | Some d \<Rightarrow> d)))))"

definition validate_main ::
  "(arg_error + validate_cli) \<Rightarrow> (validate_cli \<Rightarrow> validate_error + validate_summary) \<Rightarrow> nat" where
  "validate_main parsed run =
     (case parsed of
        Inl e \<Rightarrow> 2
      | Inr cli \<Rightarrow> (case run cli of Inr _ \<Rightarrow> 0 | Inl e \<Rightarrow> 1))"

end
