(* ===== verification/Power_Loss_Correct.thy ===== *)
theory Power_Loss_Correct
  imports Power_Loss_Validate Cli_Correct Durability
begin

text \<open>
  What the power-loss validator decides, and that the workload's oracle describes the
  store it leaves.
\<close>

section \<open>The validator\<close>

text \<open>The map an oracle claims to be durable.\<close>

definition oracle_map :: "(bytes \<times> oracle_effect) list \<Rightarrow> bytes \<rightharpoonup> bytes" where
  "oracle_map eff k = (case map_of eff k of Some (Live v) \<Rightarrow> Some v | _ \<Rightarrow> None)"

lemma oracle_map_simps [simp]:
  "oracle_map [] = Map.empty"
  "oracle_map (AList.update k (Live v) eff) = (oracle_map eff)(k \<mapsto> v)"
  "oracle_map (AList.update k Dead eff) = (oracle_map eff)(k := None)"
  by (auto simp: oracle_map_def update_conv' fun_eq_iff)

lemma live_entry:
  assumes "distinct (map fst eff)"
  shows "(k, Live v) \<in> set eff \<longleftrightarrow> oracle_map eff k = Some v"
  unfolding map_of_eq_Some_iff [OF assms, symmetric]
  by (simp add: oracle_map_def split: option.split oracle_effect.split)

lemma not_Dead: "e \<noteq> Dead \<longleftrightarrow> (\<exists>v. e = Live v)"
  by (cases e) simp_all

lemma set_oracle_live: "distinct (map fst eff) \<Longrightarrow> set (oracle_live eff) = dom (oracle_map eff)"
  by (force simp: oracle_live_def not_Dead live_entry dom_def)

text \<open>The entries that the loop counts as dropped, and those it finds different.\<close>

definition dropped_in :: "(bytes \<rightharpoonup> bytes) \<Rightarrow> (bytes \<times> oracle_effect) list \<Rightarrow> bytes list" where
  "dropped_in m eff = map fst (filter (\<lambda>(k, e). e \<noteq> Dead \<and> m k = None) eff)"

definition agrees :: "(bytes \<rightharpoonup> bytes) \<Rightarrow> (bytes \<times> oracle_effect) list \<Rightarrow> bool" where
  "agrees m eff \<longleftrightarrow> (\<forall>k v v'. (k, Live v) \<in> set eff \<longrightarrow> m k = Some v' \<longrightarrow> v' = v)"

lemma dropped_agrees_simps [simp]:
  "dropped_in m [] = []" "agrees m []"
  "dropped_in m ((k, e) # eff) = (if e \<noteq> Dead \<and> m k = None then [k] else []) @ dropped_in m eff"
  "agrees m ((k, e) # eff) \<longleftrightarrow> (\<forall>v v'. e = Live v \<longrightarrow> m k = Some v' \<longrightarrow> v' = v) \<and> agrees m eff"
  unfolding dropped_in_def agrees_def by (simp, simp, simp, fastforce)

lemma compare_loop_result:
  assumes "kd_inv crc store d" "all_io env"
  shows "\<exists>s' ms'. compare_loop env crc d sample eff store (s, dr, ms) =
      Inr (s', dr + length (dropped_in (contents crc d) eff), ms')
    \<and> (ms' = [] \<longleftrightarrow> ms = [] \<and> (sample = 0 \<or> agrees (contents crc d) eff))"
  using assms(1)
proof (induction eff arbitrary: store s dr ms)
  case (Cons x eff)
  obtain k e where x: "x = (k, e)" by force
  show ?case
  proof (cases e)
    case Dead
    then show ?thesis using Cons.IH [OF Cons.prems, of s dr ms] by (auto simp: x)
  next
    case (Live v)
    obtain p where g: "dw_get env crc store d k = (Inr (contents crc d k), store\<lparr>dw_pool := p\<rparr>)" "pool_inv p"
      using get_contents [OF Cons.prems assms(2), of k] by blast
    note IH = Cons.IH [OF kd_inv_pool [OF Cons.prems g(2)]]
    show ?thesis
    proof (cases "contents crc d k")
      case None
      then show ?thesis using IH [of s "dr + 1" ms] g(1) by (auto simp: x Live)
    next
      case (Some got)
      show ?thesis
      proof (cases "got = v")
        case True
        then show ?thesis using IH [of "s + 1" dr ms] g(1) Some by (auto simp: x Live)
      next
        case False
        let ?ms = "if length ms < sample
          then ms @ [Mismatch (length k) (length v) (length got) (short_fingerprint k)] else ms"
        have "?ms = [] \<longleftrightarrow> ms = [] \<and> sample = 0" by auto
        then show ?thesis using IH [of s dr ?ms] g(1) Some False by (auto simp: x Live)
      qed
    qed
  qed
qed auto

lemma validate_store_result:
  fixes sample :: nat
  assumes inv: "kd_inv crc store d" and io: "all_io env" and dist: "distinct (map fst eff)"
  defines "r \<equiv> validate_store env crc sample eff store d"
  shows "(\<exists>x. r = Inr x) \<longleftrightarrow> dom (contents crc d) \<subseteq> dom (oracle_map eff)
      \<and> (sample = 0 \<or> contents crc d \<subseteq>\<^sub>m oracle_map eff)"
    and "r = Inr x \<Longrightarrow> vs_dropped x = card (dom (oracle_map eff) - dom (contents crc d))"
proof -
  note K = keys_contents [OF inv]
  note L = set_oracle_live [OF dist]
  obtain s' ms' where C: "compare_loop env crc d sample eff store (0, 0, []) =
      Inr (s', length (dropped_in (contents crc d) eff), ms')"
    "ms' = [] \<longleftrightarrow> sample = 0 \<or> agrees (contents crc d) eff"
    using compare_loop_result [OF inv io, of sample eff 0 0 "[]"] by auto
  have e: "filter (\<lambda>k. k \<notin> set (oracle_live eff)) (dw_keys store) = [] \<longleftrightarrow>
      dom (contents crc d) \<subseteq> dom (oracle_map eff)"
    using K L by (auto simp: filter_empty_conv)
  note i = live_entry [OF dist]
  have a: "agrees (contents crc d) eff \<longleftrightarrow> contents crc d \<subseteq>\<^sub>m oracle_map eff"
    if "dom (contents crc d) \<subseteq> dom (oracle_map eff)"
    using that unfolding agrees_def i by (force simp: map_le_def dom_def)
  show "(\<exists>x. r = Inr x) \<longleftrightarrow> dom (contents crc d) \<subseteq> dom (oracle_map eff)
      \<and> (sample = 0 \<or> contents crc d \<subseteq>\<^sub>m oracle_map eff)"
    using e C a unfolding r_def validate_store_def Let_def by auto
  have "set (dropped_in (contents crc d) eff) = dom (oracle_map eff) - dom (contents crc d)"
    by (force simp: dropped_in_def dom_def not_Dead i)
  moreover have "distinct (dropped_in (contents crc d) eff)"
    using dist by (simp add: dropped_in_def distinct_map_filter)
  ultimately have "length (dropped_in (contents crc d) eff) = card (dom (oracle_map eff) - dom (contents crc d))"
    by (metis distinct_card)
  then show "r = Inr x \<Longrightarrow> vs_dropped x = card (dom (oracle_map eff) - dom (contents crc d))"
    using C unfolding r_def validate_store_def Let_def by (auto split: if_splits)
qed

section \<open>Running the validator\<close>

lemma load_lines_distinct:
  "load_lines b64_dec parse ls agg = Inr agg' \<Longrightarrow> distinct (map fst (oa_effect agg)) \<Longrightarrow>
   distinct (map fst (oa_effect agg'))"
  by (induction b64_dec parse ls agg rule: load_lines.induct)
    (auto simp: distinct_update split: if_splits option.splits oracle_line.splits)

lemma load_oracle_distinct: "load_oracle b64_dec parse file = Inr agg \<Longrightarrow> distinct (map fst (oa_effect agg))"
  by (auto simp: load_oracle_def split: option.splits dest: load_lines_distinct)

text \<open>Opening leaves a directory that can be opened.\<close>

lemma rl_open_openable:
  "rl_open fl env crc pid fd k (Some d) = (r, k', Some d') \<Longrightarrow> openable d \<Longrightarrow> openable d'"
  by (auto simp: rl_open_def dir_lock_acquire_def ensure_segment_def create_file_Some Let_def
      split: if_splits option.splits sum.splits prod.splits)

text \<open>A free lock can be taken, dropped and taken again.\<close>

lemma lock_twice:
  assumes "flock_laws fl holders" "holders k = {}"
  obtains k1 k2 where "fl_try_lock_exclusive fl k fd = Some k1"
    "fl_try_lock_exclusive fl (dir_lock_drop fl k1 fd) fd2 = Some k2"
proof -
  obtain k1 where k1: "fl_try_lock_exclusive fl k fd = Some k1" "holders k1 = {fd}"
    using assms by (metis flock_laws_def insert_is_Un not_Some_eq sup_bot.right_neutral insert_commute)
  then have "holders (dir_lock_drop fl k1 fd) = {}"
    using assms(1) by (simp add: dir_lock_drop_def flock_laws_def)
  then obtain k2 where "fl_try_lock_exclusive fl (dir_lock_drop fl k1 fd) fd2 = Some k2"
    using assms(1) by (metis flock_laws_def not_Some_eq)
  with that k1(1) show ?thesis by blast
qed

lemma validate_run_result:
  assumes o: "load_oracle b64_dec parse oracle = Inr agg" and d: "dir_ok d" "openable d" "recoverable crc d"
    and io: "all_io env1" "all_io env2" and fl: "flock_laws fl holders" "holders k = {}"
  obtains store d2 where "kd_inv crc store d2" "contents crc d2 = contents crc d"
    "validate_run fl env1 env2 env3 crc b64_dec parse pid fd fd2 sample k (Some d) oracle =
       validate_store env3 crc sample (oa_effect agg) store d2"
proof -
  obtain k1 k2 where K: "fl_try_lock_exclusive fl k fd = Some k1"
    "fl_try_lock_exclusive fl (dir_lock_drop fl k1 fd) fd2 = Some k2"
    by (rule lock_twice [OF fl])
  obtain d1 where D: "dir_ok d1" "seg_ids d1 = (if seg_ids d = [] then [1] else seg_ids d)"
    "log_records crc d1 = log_records crc d" "recoverable crc d1"
    "rl_open fl env1 crc pid fd k (Some d) = (Inr (opened_log crc fd d1), k1, Some d1)"
    using rl_open_eq [OF io(1) d(1,2) K(1), where crc = crc and pid = pid] d(3) by metis
  have ne: "seg_ids d1 \<noteq> []" using D(2) by simp
  obtain w d2 where W: "dw_open fl env2 crc pid fd2 (dir_lock_drop fl k1 fd) (Some d1) = (Inr w, k2, Some d2)"
    "kd_inv crc w d2" "contents crc d2 = contents crc d1"
    using dw_open_contents [OF io(2) D(1) rl_open_openable [OF D(5) d(2)] K(2) D(4), where pid = pid] by metis
  have "validate_run fl env1 env2 env3 crc b64_dec parse pid fd fd2 sample k (Some d) oracle =
      validate_store env3 crc sample (oa_effect agg) w d2"
    using o D(5) W(1) opened_report(1,3,7) [OF ne] by (simp add: validate_run_def)
  with that W(2,3) D(3) show ?thesis by (simp add: contents_def)
qed

section \<open>The workload's oracle\<close>

text \<open>What one oracle line does to the map; lines as the workload writes them.\<close>

fun line_step :: "(string \<Rightarrow> bytes option) \<Rightarrow> (bytes \<rightharpoonup> bytes) \<Rightarrow> oracle_line \<Rightarrow> (bytes \<rightharpoonup> bytes)" where
  "line_step b64_dec m (OPut seq k v) = m(the (b64_dec k) \<mapsto> the (b64_dec v))"
| "line_step b64_dec m (ODel seq k) = m(the (b64_dec k) := None)"

fun decodable :: "(string \<Rightarrow> bytes option) \<Rightarrow> oracle_line \<Rightarrow> bool" where
  "decodable b64_dec (OPut seq k v) \<longleftrightarrow> b64_dec k \<noteq> None \<and> b64_dec v \<noteq> None"
| "decodable b64_dec (ODel seq k) \<longleftrightarrow> b64_dec k \<noteq> None"

definition json_laws :: "(oracle_line \<Rightarrow> string) \<Rightarrow> (string \<Rightarrow> oracle_line option) \<Rightarrow> bool" where
  "json_laws json parse \<longleftrightarrow> (\<forall>l. parse (json l) = Some l \<and> \<not> blank (json l)
     \<and> CHR 0x0A \<notin> set (json l) \<and> CHR 0x0D \<notin> set (json l))"

definition oracle_text :: "(oracle_line \<Rightarrow> string) \<Rightarrow> oracle_line list \<Rightarrow> string" where
  "oracle_text json ls = concat (map (\<lambda>l. json l @ ''\<newline>'') ls)"

lemma chomp_id: "CHR 0x0D \<notin> set l \<Longrightarrow> chomp l = l"
  by (auto simp: chomp_def dest: last_in_set)

lemma buf_lines_row:
  "CHR 0x0A \<notin> set row \<Longrightarrow> buf_lines acc (row @ CHR 0x0A # rest) = chomp (acc @ row) # buf_lines [] rest"
  by (induction row arbitrary: acc) auto

lemma buf_lines_oracle: "json_laws json parse \<Longrightarrow> buf_lines [] (oracle_text json ls) = map json ls"
  by (induction ls) (simp_all add: oracle_text_def json_laws_def buf_lines_row chomp_id)

lemma load_lines_json:
  assumes "json_laws json parse" "list_all (decodable b64_dec) ls"
  shows "\<exists>agg'. load_lines b64_dec parse (map json ls) agg = Inr agg'
    \<and> oracle_map (oa_effect agg') = foldl (line_step b64_dec) (oracle_map (oa_effect agg)) ls"
  using assms(2)
proof (induction ls arbitrary: agg)
  case (Cons l ls)
  have p: "parse (json l) = Some l" "\<not> blank (json l)" using assms(1) by (simp_all add: json_laws_def)
  have IH: "\<exists>agg'. load_lines b64_dec parse (map json ls) a = Inr agg'
      \<and> oracle_map (oa_effect agg') = foldl (line_step b64_dec) (oracle_map (oa_effect a)) ls" for a
    using Cons by simp
  show ?case
  proof (cases l)
    case (OPut seq k v)
    then obtain kb vb where b: "b64_dec k = Some kb" "b64_dec v = Some vb" using Cons.prems by auto
    show ?thesis
      using IH [of "agg\<lparr>oa_effect := AList.update kb (Live vb) (oa_effect agg),
          oa_last_seq := max (oa_last_seq agg) seq, oa_puts := oa_puts agg + 1\<rparr>"] p b
      by (simp add: OPut)
  next
    case (ODel seq k)
    then obtain kb where b: "b64_dec k = Some kb" using Cons.prems by auto
    show ?thesis
      using IH [of "agg\<lparr>oa_effect := AList.update kb Dead (oa_effect agg),
          oa_last_seq := max (oa_last_seq agg) seq, oa_dels := oa_dels agg + 1\<rparr>"] p b
      by (simp add: ODel)
  qed
qed simp

lemma load_oracle_text:
  assumes "json_laws json parse" "list_all (decodable b64_dec) ls"
  shows "\<exists>agg. load_oracle b64_dec parse (Some (oracle_text json ls)) = Inr agg
    \<and> oracle_map (oa_effect agg) = foldl (line_step b64_dec) Map.empty ls"
  using load_lines_json [OF assms, of "\<lparr>oa_effect = [], oa_last_seq = 0, oa_puts = 0, oa_dels = 0\<rparr>"]
  by (simp add: load_oracle_def buf_lines_oracle [OF assms(1)])

section \<open>The workload keeps oracle and store in step\<close>

definition workload_inv ::
  "(bytes \<Rightarrow> u32) \<Rightarrow> (string \<Rightarrow> bytes option) \<Rightarrow> (oracle_line \<Rightarrow> string) \<Rightarrow> workload_state \<Rightarrow> bool" where
  "workload_inv crc b64_dec json s \<longleftrightarrow> dw_inv crc (ws_log s) (ws_dir s) \<and> openable (ws_dir s)
     \<and> (\<exists>ls. ws_oracle s = oracle_text json ls \<and> list_all (decodable b64_dec) ls
          \<and> foldl (line_step b64_dec) Map.empty ls = contents crc (ws_dir s))"

lemma append_record_openable:
  "rl_append_record env crc log d rt k v = (r, log', d') \<Longrightarrow> openable d \<Longrightarrow> openable d'"
  by (auto simp: rl_append_record_def Let_def split: sum.splits if_splits option.splits)

lemma put_openable: "dw_put env crc w d k v = (r, w', d') \<Longrightarrow> openable d \<Longrightarrow> openable d'"
  by (auto simp: dw_put_def split: prod.splits sum.splits dest: append_record_openable)

lemma delete_openable: "dw_delete env crc w d k = (r, w', d') \<Longrightarrow> openable d \<Longrightarrow> openable d'"
  by (auto simp: dw_delete_def split: prod.splits sum.splits dest: append_record_openable)

lemma dw_fsync_Inr: "dw_fsync env w = (Inr u, w') \<Longrightarrow> w' = w"
  by (auto simp: dw_fsync_def split: prod.splits dest: fsync_Inr)

lemma oracle_text_snoc: "oracle_text json ls @ json l @ ''\<newline>'' = oracle_text json (ls @ [l])"
  by (simp add: oracle_text_def)

lemma write_oracle_line_Inr:
  "write_oracle_line io json (oracle_text json ls) l = (Inr u, o1) \<Longrightarrow> o1 = oracle_text json (ls @ [l])"
  by (auto simp: write_oracle_line_def Let_def oracle_text_snoc split: option.splits)

lemma fsync_every_op [simp]: "seq mod FSYNC_BATCH = 0"
  by (simp add: FSYNC_BATCH_def)

lemma workload_op_inv:
  assumes inv: "workload_inv crc b64_dec json s" and b64: "\<And>bs. b64_dec (b64 bs) = Some bs"
    and op: "workload_op env oracle_io crc b64 json cli s = (Inr u, s')"
  shows "workload_inv crc b64_dec json s'"
proof -
  obtain ls where I: "dw_inv crc (ws_log s) (ws_dir s)" "openable (ws_dir s)" "ws_oracle s = oracle_text json ls"
    "list_all (decodable b64_dec) ls" "foldl (line_step b64_dec) Map.empty ls = contents crc (ws_dir s)"
    using inv by (auto simp: workload_inv_def)
  let ?k = "key_for (wc_seed cli) (ws_seq s) (wc_key_len cli)"
  let ?v = "value_for (wc_seed cli) (ws_seq s) (wc_value_len cli)"
  have "\<exists>l w1 d1. ws_log s' = w1 \<and> ws_dir s' = d1 \<and> ws_oracle s' = oracle_text json (ls @ [l])
      \<and> dw_inv crc w1 d1 \<and> openable d1 \<and> decodable b64_dec l \<and> line_step b64_dec (contents crc (ws_dir s)) l = contents crc d1"
  proof (cases "ws_seq s mod DELETE_EVERY = DELETE_EVERY - 1")
    case True
    obtain w1 d1 w2 o1 where S: "dw_delete (env (ws_seq s)) crc (ws_log s) (ws_dir s) ?k = (Inr (), w1, d1)"
      "dw_fsync (env (ws_seq s)) w1 = (Inr (), w2)"
      "write_oracle_line (oracle_io (ws_seq s)) json (ws_oracle s) (ODel (ws_seq s) (b64 ?k)) = (Inr (), o1)"
      "ws_log s' = w2" "ws_dir s' = d1" "ws_oracle s' = o1"
      using op True by (auto simp: workload_op_def Let_def split: prod.splits sum.splits)
    show ?thesis
      using delete_Inr [OF I(1) S(1)] delete_openable [OF S(1) I(2)] dw_fsync_Inr [OF S(2)]
        write_oracle_line_Inr [OF S(3) [unfolded I(3)]] S(4-6) b64
      by (intro exI [of _ "ODel (ws_seq s) (b64 ?k)"] exI [of _ w1] exI [of _ d1]) simp
  next
    case False
    obtain w1 d1 w2 o1 where S: "dw_put (env (ws_seq s)) crc (ws_log s) (ws_dir s) ?k ?v = (Inr (), w1, d1)"
      "dw_fsync (env (ws_seq s)) w1 = (Inr (), w2)"
      "write_oracle_line (oracle_io (ws_seq s)) json (ws_oracle s) (OPut (ws_seq s) (b64 ?k) (b64 ?v)) = (Inr (), o1)"
      "ws_log s' = w2" "ws_dir s' = d1" "ws_oracle s' = o1"
      using op False by (auto simp: workload_op_def Let_def split: prod.splits sum.splits)
    show ?thesis
      using put_Inr [OF I(1) S(1)] put_openable [OF S(1) I(2)] dw_fsync_Inr [OF S(2)]
        write_oracle_line_Inr [OF S(3) [unfolded I(3)]] S(4-6) b64
      by (intro exI [of _ "OPut (ws_seq s) (b64 ?k) (b64 ?v)"] exI [of _ w1] exI [of _ d1]) simp
  qed
  then show ?thesis using I(4,5) by (auto simp: workload_inv_def intro!: exI [of _ "ls @ [_]"])
qed

lemma dw_open_openable:
  "dw_open fl env crc pid fd k (Some d) = (r, k', Some d') \<Longrightarrow> openable d \<Longrightarrow> openable d'"
  by (auto simp: dw_open_def split: prod.splits sum.splits dest: rl_open_openable)

lemma workload_loop_inv:
  "workload_loop env time_up oracle_io crc b64 json cli budget s = (Inr u, s') \<Longrightarrow>
    workload_inv crc b64_dec json s \<Longrightarrow> (\<And>bs. b64_dec (b64 bs) = Some bs) \<Longrightarrow> workload_inv crc b64_dec json s'"
proof (induction env time_up oracle_io crc b64 json cli budget s rule: workload_loop.induct)
  case (1 env time_up oracle_io crc b64 json cli budget s)
  show ?case
  proof (cases "budget \<le> ws_seq s \<or> wc_duration cli \<noteq> 0 \<and> time_up (ws_seq s)")
    case True
    then show ?thesis using 1(2,3) by (subst (asm) workload_loop.simps) (auto split: if_splits)
  next
    case False
    then obtain s1 where s1: "workload_op env oracle_io crc b64 json cli s = (Inr (), s1)"
      "workload_loop env time_up oracle_io crc b64 json cli budget s1 = (Inr u, s')"
      using 1(2) by (subst (asm) workload_loop.simps) (auto split: prod.splits sum.splits)
    then show ?thesis
      using 1(1,4) False workload_op_inv [OF 1(3,4) s1(1)] by auto
  qed
qed

lemma workload_run_inv:
  assumes b64: "\<And>bs. b64_dec (b64 bs) = Some bs"
    and run: "workload_run fl env0 env env' time_up oracle_io c op sync crc b64 json pid fd cli k (Some [])
      = (Inr u, Some s)"
  shows "workload_inv crc b64_dec json s"
proof -
  obtain w k1 d s1 where S: "dw_open fl env0 crc pid fd k (Some []) = (Inr w, k1, d)"
    "workload_loop env time_up oracle_io crc b64 json cli (if wc_ops cli = 0 then - 1 else wc_ops cli)
       \<lparr>ws_seq = 0, ws_puts = 0, ws_dels = 0, ws_log = w, ws_dir = (case d of None \<Rightarrow> [] | Some d1 \<Rightarrow> d1),
        ws_oracle = []\<rparr> = (Inr (), s1)"
    "dw_fsync env' (ws_log s1) = (Inr (), ws_log s)" "s = s1\<lparr>ws_log := ws_log s\<rparr>"
    using run by (auto simp: workload_run_def Let_def split: if_splits prod.splits sum.splits)
  have "s = s1" using S(3,4) by (auto dest: dw_fsync_Inr)
  obtain d1 where D: "d = Some d1" "dw_inv crc w d1" "contents crc d1 = Map.empty"
    by (rule dw_open_fresh [OF S(1) dir_ok_Nil seg_ids_Nil], rule that)
  have "workload_inv crc b64_dec json s1"
    using dw_open_openable [OF S(1) [unfolded D(1)]] D
    by (intro workload_loop_inv [OF S(2) _ b64])
      (auto simp: workload_inv_def openable_Nil oracle_text_def intro!: exI [of _ "[]"])
  then show ?thesis by (simp add: \<open>s = s1\<close>)
qed

text \<open>A crash right after a successful \<open>fsync\<close> loses nothing.\<close>

lemma crash_after_fsync:
  assumes w: "dw_inv crc w d" "openable d"
    and cr: "crash \<lparr>wl_log = dw_log w, wl_dir = d, wl_synced = length (seg_bytes d (rl_active_id (dw_log w)))\<rparr> d'"
  shows "dir_ok d'" "openable d'" "recoverable crc d'" "contents crc d' = contents crc d"
proof -
  have inv: "rl_inv crc (dw_log w) d" using w(1) by (simp add: dw_inv_def)
  note F = fsynced_all [OF inv]
  have "forced crc \<lparr>wl_log = dw_log w, wl_dir = d, wl_synced = length (seg_bytes d (rl_active_id (dw_log w)))\<rparr>"
    using F(1) by (simp add: wal_inv_def)
  note P = crash_image [OF this cr]
  show "dir_ok d'" "recoverable crc d'" by (rule P)+
  show "openable d'" using crash_openable [OF cr] w(2) by simp
  have "log_records crc d' = log_records crc d" using P F(2) by (simp add: prefix_order.antisym)
  then show "contents crc d' = contents crc d" by (simp add: contents_def)
qed

end
