(* ===== verification/Store_Liveness.thy ===== *)
theory Store_Liveness
  imports Power_Loss_Correct Torn_Tail Cli_Main_Correct
begin

text \<open>
  That calls on a healthy store succeed when the system calls do: a store without a torn tail,
  far from the limits of file sizes and transaction ids, can be opened, written, forced and
  opened again.
\<close>

definition healthy :: "(bytes \<Rightarrow> u32) \<Rightarrow> dir \<Rightarrow> bool" where
  "healthy crc d \<longleftrightarrow> dir_ok d \<and> openable d \<and> (\<forall>sid\<in>set (seg_ids d). seg_tail crc d sid = [])
     \<and> (\<forall>sid\<in>set (seg_ids d). length (seg_bytes d sid) < 2 ^ 63) \<and> (\<forall>r\<in>set (log_records crc d). rc_txid r < 2 ^ 63)"

lemma healthy_recoverable: "healthy crc d \<Longrightarrow> recoverable crc d"
  by (auto simp: healthy_def recoverable_def recoverable_ids_iff dest: in_set_butlastD)

lemma fold_txid_less:
  assumes "\<forall>r\<in>set rs. rc_txid r < (2 ^ 63 :: u64)"
  shows "unat (fold max (map rc_txid rs) 0) + 2 < 2 ^ 64"
proof -
  have "fold max (map rc_txid rs) 0 < 2 ^ 63"
    using fold_max_in [of "map rc_txid rs" 0] assms by auto
  then have "unat (fold max (map rc_txid rs) 0) < 2 ^ 63" by (simp add: word_less_nat_alt)
  then show ?thesis by simp
qed

lemma open_healthy:
  assumes h: "healthy crc d" and io: "all_io env" and lk: "fl_try_lock_exclusive fl k fd = Some k1"
    and n: "n < 2 ^ 63"
  obtains w d1 where "dw_open fl env crc pid fd k (Some d) = (Inr w, k1, Some d1)" "dw_inv crc w d1" "openable d1"
    "contents crc d1 = contents crc d" "room (dw_log w) n 1" "rl_lock (dw_log w) = fd"
proof -
  note H = h [unfolded healthy_def]
  have op: "openable d" "dir_ok d" using H by simp_all
  obtain w d1 where O: "dw_open fl env crc pid fd k (Some d) = (Inr w, k1, Some d1)"
    by (rule dw_open_contents [OF io op(2,1) lk healthy_recoverable [OF h]])
  obtain d2 where D: "d1 = d2" "kd_inv crc w d2" "dw_log w = opened_log crc fd d2" "contents crc d2 = contents crc d"
    "log_records crc d2 = log_records crc d" "seg_ids d2 = (if seg_ids d = [] then [1] else seg_ids d)"
    "\<And>sid. sid \<in> set (seg_ids d) \<Longrightarrow> seg_content d2 sid = seg_content d sid"
    "seg_ids d = [] \<Longrightarrow> seg_content d2 1 = Some []"
    by (rule dw_open_Inr [OF O op(2)]) (simp add: option.inject)
  have ne: "seg_ids d2 \<noteq> []" using D(6) by simp
  have seg: "seg_tail crc d2 sid = [] \<and> length (seg_bytes d2 sid) < 2 ^ 63" if "sid \<in> set (seg_ids d2)" for sid
  proof (cases "seg_ids d = []")
    case True
    with that D(6,8) have "seg_content d2 sid = Some (stream crc [] @ [])" by (simp add: stream_concat)
    from seg_splitI(2) [OF this] show ?thesis using \<open>seg_content d2 sid = _\<close> by (simp add: seg_bytes_def stream_concat)
  next
    case False
    with that D(6) have i: "sid \<in> set (seg_ids d)" by simp
    have "seg_bytes d2 sid = seg_bytes d sid" by (simp add: seg_bytes_def D(7) [OF i])
    with seg_tail_cong [OF D(7) [OF i], of crc] i H show ?thesis by simp
  qed
  have tx: "unat (fold max (map rc_txid (log_records crc d2)) 0) + 2 < 2 ^ 64"
    unfolding D(5) by (rule fold_txid_less) (use H in blast)
  then have "fold max (map rc_txid (log_records crc d2)) 0 \<noteq> - 1"
    by (auto simp: unsigned_minus_1_eq_mask mask_eq_exp_minus_1)
  then have "rl_inv crc (dw_log w) d2"
    unfolding D(3) using D(2) ne seg by (intro opened_inv) (simp_all add: kd_inv_def)
  moreover have "room (dw_log w) n 1"
    unfolding D(3) using seg [OF last_in_set [OF ne]] n by (intro opened_room [OF ne _ tx]) simp
  moreover have "rl_lock (dw_log w) = fd" by (simp add: D(3) opened_log_def Let_def)
  ultimately show thesis
    using that [of w d2] O D(1,2,4) dw_open_openable [OF O op(1)] by (simp add: dw_inv_def)
qed

lemma write_succeeds:
  assumes h: "healthy crc d" and io: "all_io env" and fl: "flock_laws fl holders" "holders k = {}"
    and len: "length key \<le> MAX_KEY_LEN" "length v \<le> MAX_PAYLOAD_LEN"
  obtains w k1 d1 w2 d2 w3 k2 d3 where
    "dw_open fl env crc pid fd k (Some d) = (Inr w, k1, Some d1)"
    "dw_put env crc w d1 key v = (Inr (), w2, d2)" "dw_fsync env w2 = (Inr (), w2)"
    "dw_open fl env crc pid fd (dir_lock_drop fl k1 (rl_lock (dw_log w2))) (Some d2) = (Inr w3, k2, Some d3)"
    "\<forall>x. fst (dw_get env crc w3 d3 x) = Inr (((contents crc d)(key \<mapsto> v)) x)"
proof -
  obtain k1 k2 where K: "fl_try_lock_exclusive fl k fd = Some k1"
    "fl_try_lock_exclusive fl (dir_lock_drop fl k1 fd) fd = Some k2"
    by (rule lock_twice [OF fl])
  have n: "record_wire_size (length key) (length v) < 2 ^ 63"
    using len by (simp add: record_wire_size_def wire_consts)
  obtain w d1 where O: "dw_open fl env crc pid fd k (Some d) = (Inr w, k1, Some d1)" "dw_inv crc w d1" "openable d1"
    "contents crc d1 = contents crc d" "room (dw_log w) (record_wire_size (length key) (length v)) 1" "rl_lock (dw_log w) = fd"
    by (rule open_healthy [OF h io K(1) n])
  obtain w2 d2 where P: "dw_put env crc w d1 key v = (Inr (), w2, d2)"
    using put_room [OF O(2) io len O(5)] by blast
  note Q = put_Inr [OF O(2) P]
  have ri: "rl_inv crc (dw_log w2) d2" "dir_ok d2" using Q by (auto simp: dw_inv_def kd_inv_def)
  have F: "dw_fsync env w2 = (Inr (), w2)"
    using io by (simp add: dw_fsync_def rl_fsync_def check_poisoned_def rl_invD(7) [OF ri(1)])
  have lk: "rl_lock (dw_log w2) = fd"
    using P O(6) by (auto simp: dw_put_def split: prod.splits sum.splits dest: append_record_lock)
  obtain w3 d3 where R: "dw_open fl env crc pid fd (dir_lock_drop fl k1 fd) (Some d2) = (Inr w3, k2, Some d3)"
    "kd_inv crc w3 d3" "contents crc d3 = contents crc d2"
    using dw_open_contents [OF io ri(2) put_openable [OF P O(3)] K(2) rl_inv_recoverable [OF ri(1)], of pid] by metis
  have "fst (dw_get env crc w3 d3 x) = Inr (((contents crc d)(key \<mapsto> v)) x)" for x
    using get_contents [OF R(2) io, of x] R(3) Q O(4) by auto
  then show thesis using that O(1) P F R(1) lk by blast
qed

end
