(* ===== verification/Kv_Runs.thy ===== *)
theory Kv_Runs
  imports Data_Wal_Correct
begin

text \<open>
  Runs of \<open>DataWal\<close> against an abstract map: calls with any results, so that a run may
  go on after a write has failed.  A failed write may have left its record in the file, but
  the handle refuses all further writes and goes on answering from the acknowledged ones.
\<close>

datatype kv_call =
    CPut bytes bytes bool | CDelete bytes bool | CGet bytes "error + bytes option" | CFsync bool

text \<open>The \<open>bool\<close> says whether the call returned \<open>Ok\<close>.\<close>

inductive dw_step :: "(bytes \<Rightarrow> u32) \<Rightarrow> data_wal \<times> dir \<Rightarrow> kv_call \<Rightarrow> data_wal \<times> dir \<Rightarrow> bool" for crc where
  put: "dw_put env crc w d k v = (res, w', d') \<Longrightarrow> dw_step crc (w, d) (CPut k v (is_ok res)) (w', d')"
| delete: "dw_delete env crc w d k = (res, w', d') \<Longrightarrow> dw_step crc (w, d) (CDelete k (is_ok res)) (w', d')"
| get: "dw_get env crc w d k = (res, w') \<Longrightarrow> dw_step crc (w, d) (CGet k res) (w', d)"
| fsync: "dw_fsync env w = (res, w') \<Longrightarrow> dw_step crc (w, d) (CFsync (is_ok res)) (w', d)"

inductive_cases dw_stepE: "dw_step crc s c t"

inductive dw_run :: "(bytes \<Rightarrow> u32) \<Rightarrow> data_wal \<times> dir \<Rightarrow> kv_call list \<Rightarrow> data_wal \<times> dir \<Rightarrow> bool" for crc where
  run_Nil: "dw_run crc s [] s"
| run_Cons: "dw_step crc s c t \<Longrightarrow> dw_run crc t cs u \<Longrightarrow> dw_run crc s (c # cs) u"

text \<open>The specification: a partial map, changed by acknowledged writes only.\<close>

fun map_step :: "(bytes \<rightharpoonup> bytes) \<Rightarrow> kv_call \<Rightarrow> (bytes \<rightharpoonup> bytes) option" where
  "map_step m (CPut k v ok) = Some (if ok then m(k \<mapsto> v) else m)"
| "map_step m (CDelete k ok) = Some (if ok then m(k := None) else m)"
| "map_step m (CGet k res) = (case res of Inl e \<Rightarrow> Some m | Inr r \<Rightarrow> if m k = r then Some m else None)"
| "map_step m (CFsync ok) = Some m"

fun map_run :: "(bytes \<rightharpoonup> bytes) \<Rightarrow> kv_call list \<Rightarrow> (bytes \<rightharpoonup> bytes) option" where
  "map_run m [] = Some m"
| "map_run m (c # cs) = (case map_step m c of None \<Rightarrow> None | Some m' \<Rightarrow> map_run m' cs)"

text \<open>
  The handle answers from \<open>m\<close>; while it is not poisoned, \<open>m\<close> is what the files contain.
\<close>

definition answers :: "(bytes \<Rightarrow> u32) \<Rightarrow> data_wal \<Rightarrow> dir \<Rightarrow> (bytes \<rightharpoonup> bytes) \<Rightarrow> bool" where
  "answers crc w d m \<longleftrightarrow> (\<exists>rs. reads_inv crc w d rs \<and> view rs = m)
     \<and> (rl_poisoned (dw_log w) = None \<longrightarrow> dw_inv crc w d \<and> contents crc d = m)"

lemma answers_start: "dw_inv crc w d \<Longrightarrow> answers crc w d (contents crc d)"
  unfolding answers_def dw_inv_def kd_inv_reads contents_def by blast

lemma reads_inv_log [simp]: "reads_inv crc (w\<lparr>dw_log := log\<rparr>) d rs = reads_inv crc w d rs"
  by (simp add: reads_inv_def)

text \<open>An append that was not acknowledged.\<close>

lemma append_Inl_answers:
  assumes a: "answers crc w d m" and e: "rl_append_record env crc (dw_log w) d rt k v = (Inl e, log', d')"
  shows "answers crc (w\<lparr>dw_log := log'\<rparr>) d' m"
proof (cases "rl_poisoned (dw_log w)")
  case (Some r)
  then have "log' = dw_log w" "d' = d" using poisoned_refuses(1) [OF Some] e by auto
  with a show ?thesis by simp
next
  case None
  with a have inv: "dw_inv crc w d" by (simp add: answers_def)
  then have "rl_inv crc (dw_log w) d" by (simp add: dw_inv_def)
  from append_record_atomic [OF this e] have d': "dir_ok d'" "set (log_records crc d) \<subseteq> set (log_records crc d')"
    by auto
  from a obtain rs where rs: "reads_inv crc w d rs" "view rs = m" by (auto simp: answers_def)
  with d' have "reads_inv crc (w\<lparr>dw_log := log'\<rparr>) d' rs" by (auto simp: reads_inv_def)
  moreover have "rl_poisoned log' \<noteq> None \<or> (log' = dw_log w \<and> d' = d)"
    using append_record_error_poisons [OF e] by blast
  moreover have "w\<lparr>dw_log := dw_log w\<rparr> = w" by simp
  ultimately show ?thesis using a rs by (auto simp: answers_def)
qed

lemma append_Inr_healthy: "rl_append_record env crc log d rt k v = (Inr r, log', d') \<Longrightarrow> rl_poisoned log = None"
  using poisoned_refuses(1) by (cases "rl_poisoned log") auto

lemma put_answers:
  assumes a: "answers crc w d m" and p: "dw_put env crc w d k v = (res, w', d')"
  shows "answers crc w' d' (if is_ok res then m(k \<mapsto> v) else m)"
proof (cases res)
  case (Inl e)
  with p obtain log' where "rl_append_record env crc (dw_log w) d Put k v = (Inl e, log', d')" "w' = w\<lparr>dw_log := log'\<rparr>"
    by (auto simp: dw_put_def split: prod.splits sum.splits)
  with append_Inl_answers [OF a] Inl show ?thesis by simp
next
  case (Inr u)
  then have p: "dw_put env crc w d k v = (Inr (), w', d')" using p by simp
  then have "rl_poisoned (dw_log w) = None"
    by (auto simp: dw_put_def split: prod.splits sum.splits dest: append_Inr_healthy)
  with a put_Inr [OF _ p] answers_start [of crc w' d'] Inr show ?thesis by (simp add: answers_def)
qed

lemma delete_answers:
  assumes a: "answers crc w d m" and p: "dw_delete env crc w d k = (res, w', d')"
  shows "answers crc w' d' (if is_ok res then m(k := None) else m)"
proof (cases res)
  case (Inl e)
  with p obtain log' where "rl_append_record env crc (dw_log w) d Delete k [] = (Inl e, log', d')" "w' = w\<lparr>dw_log := log'\<rparr>"
    by (auto simp: dw_delete_def split: prod.splits sum.splits)
  with append_Inl_answers [OF a] Inl show ?thesis by simp
next
  case (Inr u)
  then have p: "dw_delete env crc w d k = (Inr (), w', d')" using p by simp
  then have "rl_poisoned (dw_log w) = None"
    by (auto simp: dw_delete_def split: prod.splits sum.splits dest: append_Inr_healthy)
  with a delete_Inr [OF _ p] answers_start [of crc w' d'] Inr show ?thesis by (simp add: answers_def)
qed

lemma get_answers:
  assumes a: "answers crc w d m" and g: "dw_get env crc w d k = (res, w')"
  shows "(\<forall>r. res = Inr r \<longrightarrow> m k = r) \<and> answers crc w' d m"
proof -
  from a obtain rs where rs: "reads_inv crc w d rs" "view rs = m" by (auto simp: answers_def)
  note G = get_any [OF rs(1) g]
  have "dw_inv crc w' d" if "dw_inv crc w d"
    using that get_any [OF _ g, where rs = "log_records crc d"] by (simp add: dw_inv_def kd_inv_reads)
  with a G rs(2) show ?thesis by (auto simp: answers_def)
qed

lemma dw_step_map:
  assumes "dw_step crc s c t" "answers crc (fst s) (snd s) m"
  shows "\<exists>m'. map_step m c = Some m' \<and> answers crc (fst t) (snd t) m'"
  using assms(1)
proof (cases rule: dw_step.cases)
  case (put env w d k v res w' d')
  with put_answers [of crc w d m env k v res w' d'] assms(2) show ?thesis by simp
next
  case (delete env w d k res w' d')
  with delete_answers [of crc w d m env k res w' d'] assms(2) show ?thesis by simp
next
  case (get env w d k res w')
  with get_answers [of crc w d m env k res w'] assms(2) show ?thesis by (auto split: sum.split)
next
  case (fsync env w res w' d)
  then obtain log' where w': "w' = w\<lparr>dw_log := log'\<rparr>" "rl_fsync env (dw_log w) = (res, log')"
    by (auto simp: dw_fsync_def split: prod.splits)
  then have "log' = dw_log w \<or> rl_poisoned log' \<noteq> None"
    by (auto simp: rl_fsync_def split: sum.splits if_splits)
  then have "answers crc w' d m"
    using assms(2) fsync(1) w'(1) by (auto simp: answers_def)
  with fsync show ?thesis by simp
qed

lemma dw_run_map:
  "dw_run crc s cs t \<Longrightarrow> answers crc (fst s) (snd s) m \<Longrightarrow>
   \<exists>m'. map_run m cs = Some m' \<and> answers crc (fst t) (snd t) m'"
proof (induction arbitrary: m rule: dw_run.induct)
  case (run_Cons s c t cs u)
  with dw_step_map [OF run_Cons.hyps(1) run_Cons.prems] show ?case by auto
qed auto

end
