(* ===== verification/Read_While_Write.thy ===== *)
theory Read_While_Write
  imports Durability
begin

text \<open>
  A reader interleaved with the writer (\<open>formal/ReadWhileWrite.tla\<close>).  The iterator calls
  \<open>next\<close> at moments of its own; between two calls the writer may append, force, rotate, and
  fail.  Each call sees the directory of its moment: a segment is read when the iterator
  reaches it, and its bytes are kept from then on.
\<close>

fun watch ::
  "os_env \<Rightarrow> (bytes \<Rightarrow> u32) \<Rightarrow> dir list \<Rightarrow> record_iter \<Rightarrow> (error + log_record) list \<times> record_iter" where
  "watch env crc [] it = ([], it)"
| "watch env crc (d # ds) it =
     (case iter_next env crc d it of
        (None, it') \<Rightarrow> ([], it')
      | (Some x, it') \<Rightarrow> (let (xs, it'') = watch env crc ds it' in (x # xs, it'')))"

text \<open>The states of the writer at these moments.\<close>

fun moments :: "(bytes \<Rightarrow> u32) \<Rightarrow> wal \<Rightarrow> wal list \<Rightarrow> bool" where
  "moments crc s [] = True"
| "moments crc s (t # ts) = ((\<exists>calls. wal_run crc s calls t) \<and> moments crc t ts)"

section \<open>What the reader has yielded\<close>

text \<open>
  The iterator stands before segment \<open>i\<close> of the snapshot, or inside it, behind the frames
  \<open>fs\<close> and before the frames \<open>gs\<close> of the bytes it holds; \<open>rs\<close> are the records yielded.
\<close>

definition reads_before :: "(bytes \<Rightarrow> u32) \<Rightarrow> nat list \<Rightarrow> nat \<Rightarrow> dir \<Rightarrow> record_iter \<Rightarrow> log_record list \<Rightarrow> bool" where
  "reads_before crc ids i d it rs \<longleftrightarrow> i < length ids
     \<and> (\<exists>sid off out. it = between ids i sid off out) \<and> rs = ids_records crc d (take i ids)"

definition reads_inside ::
  "(bytes \<Rightarrow> u32) \<Rightarrow> dir \<Rightarrow> nat list \<Rightarrow> nat \<Rightarrow> frame list \<Rightarrow> frame list \<Rightarrow> dir \<Rightarrow> record_iter \<Rightarrow> log_record list \<Rightarrow> bool" where
  "reads_inside crc d0 ids i fs gs d it rs \<longleftrightarrow> i < length ids
     \<and> (\<exists>t out. it = inside ids i (stream crc (fs @ gs) @ t) (ids ! i) (length (stream crc fs)) out
          \<and> parse_frame crc t = None \<and> tolerated (tail_of crc t) \<and> (Suc i < length ids \<longrightarrow> t = []))
     \<and> list_all frame_ok gs \<and> rs = ids_records crc d (take i ids) @ place (ids ! i) 0 fs
     \<and> prefix (seg_frames crc d0 (ids ! i)) (fs @ gs) \<and> prefix (fs @ gs) (seg_frames crc d (ids ! i))
     \<and> (Suc i < length ids \<longrightarrow> fs @ gs = seg_frames crc d (ids ! i))"

definition reads_all :: "(bytes \<Rightarrow> u32) \<Rightarrow> dir \<Rightarrow> nat list \<Rightarrow> dir \<Rightarrow> record_iter \<Rightarrow> log_record list \<Rightarrow> bool" where
  "reads_all crc d0 ids d it rs \<longleftrightarrow> it_done it \<and> prefix (log_records crc d0) rs \<and> prefix rs (ids_records crc d ids)"

definition reading :: "(bytes \<Rightarrow> u32) \<Rightarrow> dir \<Rightarrow> dir \<Rightarrow> record_iter \<Rightarrow> log_record list \<Rightarrow> bool" where
  "reading crc d0 d it rs \<longleftrightarrow> reads_all crc d0 (seg_ids d0) d it rs
     \<or> (\<exists>i. reads_before crc (seg_ids d0) i d it rs)
     \<or> (\<exists>i fs gs. reads_inside crc d0 (seg_ids d0) i fs gs d it rs)"

text \<open>The segments before the last of the snapshot are sealed, and stay what they are.\<close>

lemma take_sealed: "i < length ids \<Longrightarrow> set (take i ids) \<subseteq> set (butlast ids)"
  by (metis butlast_conv_take diff_Suc_1' less_Suc_eq_le not_less_eq set_take_subset_set_take Suc_diff_1 length_greater_0_conv list.size(3) not_less_zero)

lemma nth_sealed: "Suc i < length ids \<Longrightarrow> ids ! i \<in> set (butlast ids)"
  by (metis Suc_lessE butlast_conv_take diff_Suc_1 in_set_conv_nth length_take lessI less_imp_le_nat min.absorb2 nth_take Suc_less_eq)

lemma later_sealed:
  assumes l: "later crc d d'" and p: "prefix ids (seg_ids d)" and i: "i < length ids"
  shows "ids_records crc d' (take i ids) = ids_records crc d (take i ids)"
    "Suc i < length ids \<Longrightarrow> seg_frames crc d' (ids ! i) = seg_frames crc d (ids ! i)"
    "prefix (seg_frames crc d (ids ! i)) (seg_frames crc d' (ids ! i))"
proof -
  have b: "set (butlast ids) \<subseteq> set (butlast (seg_ids d))" by (rule butlast_prefix [OF p])
  have same: "x \<in> set (butlast ids) \<Longrightarrow> seg_content d' x = seg_content d x" for x
    using l b by (auto simp: later_def)
  show "ids_records crc d' (take i ids) = ids_records crc d (take i ids)"
    using take_sealed [OF i] by (intro ids_records_cong same) auto
  show "Suc i < length ids \<Longrightarrow> seg_frames crc d' (ids ! i) = seg_frames crc d (ids ! i)"
    by (intro seg_frames_cong same nth_sealed)
  show "prefix (seg_frames crc d (ids ! i)) (seg_frames crc d' (ids ! i))"
    using l set_mono_prefix [OF p] nth_mem [OF i] by (auto simp: later_def)
qed

lemma reading_later:
  assumes r: "reading crc d0 d it rs" and l0: "later crc d0 d" and l: "later crc d d'"
  shows "reading crc d0 d' it rs"
proof -
  have p: "prefix (seg_ids d0) (seg_ids d)" using l0 by (simp add: later_def)
  note S = later_sealed [OF l p]
  from r consider (all) "reads_all crc d0 (seg_ids d0) d it rs"
    | (before) i where "reads_before crc (seg_ids d0) i d it rs"
    | (inside) i fs gs where "reads_inside crc d0 (seg_ids d0) i fs gs d it rs"
    by (auto simp: reading_def)
  then show ?thesis
  proof cases
    case all
    with later_records [OF l p] show ?thesis
      by (auto simp: reading_def reads_all_def intro: prefix_order.trans)
  next
    case before
    then have "reads_before crc (seg_ids d0) i d' it rs" using S(1) by (auto simp: reads_before_def)
    then show ?thesis by (auto simp: reading_def)
  next
    case inside
    then have "reads_inside crc d0 (seg_ids d0) i fs gs d' it rs"
      using S [of i] by (auto simp: reads_inside_def intro: prefix_order.trans)
    then show ?thesis by (auto simp: reading_def)
  qed
qed

section \<open>One call of \<open>next\<close>\<close>

lemma inside_record:
  assumes "reads_inside crc d0 ids i fs (g # gs) d it rs"
  shows "\<exists>it' r. iter_next env crc d it = (Some (Inr r), it') \<and> reads_inside crc d0 ids i (fs @ [g]) gs d it' (rs @ [r])"
proof -
  let ?fs = "fs @ g # gs"
  from assms obtain t out where it: "i < length ids"
    "it = inside ids i (stream crc ?fs @ t) (ids ! i) (length (stream crc fs)) out" "frame_ok g"
    "parse_frame crc t = None" "tolerated (tail_of crc t)" "Suc i < length ids \<longrightarrow> t = []"
    by (auto simp: reads_inside_def)
  let ?buf = "stream crc ?fs @ t" let ?off = "length (stream crc fs)"
  let ?r = "located (ids ! i) ?off g"
  have "decode_next crc ?buf ?off = Inr (DOk (fr_type g) (fr_txid g) (fr_key g) (fr_payload g) (wire_len g))"
    using decode_next_append [of crc "stream crc fs" "wire crc g @ stream crc gs @ t"] decode_wire [OF it(3)] by simp
  moreover have "?off \<noteq> length ?buf" using wire_len_ge [of g] by (simp add: length_wire)
  ultimately have n: "iter_next env crc d it =
      (Some (Inr ?r), inside ids i ?buf (ids ! i) (?off + wire_len g) (push_record ?r out))"
    unfolding it(2) inside_step [OF it(1)] by (simp add: Let_def located_def)
  have "reads_inside crc d0 ids i (fs @ [g]) gs d
      (inside ids i ?buf (ids ! i) (?off + wire_len g) (push_record ?r out)) (rs @ [?r])"
    using assms it by (auto simp: reads_inside_def place_append length_stream length_wire)
  with n show ?thesis by blast
qed

lemma inside_end:
  assumes "reads_inside crc d0 ids i fs [] d it rs"
  shows "\<exists>sid off out. iter_next env crc d it = iter_next env crc d (between ids (Suc i) sid off out)"
proof -
  from assms obtain t out where it: "i < length ids"
    "it = inside ids i (stream crc fs @ t) (ids ! i) (length (stream crc fs)) out"
    "parse_frame crc t = None" "tolerated (tail_of crc t)" "Suc i < length ids \<longrightarrow> t = []"
    by (auto simp: reads_inside_def)
  note S = inside_step [OF it(1), of env crc d "stream crc fs @ t" "ids ! i" "length (stream crc fs)" out]
  show ?thesis
  proof (cases "t = []")
    case True
    with S show ?thesis unfolding it(2) by auto
  next
    case False
    with it(1,5) have "Suc i = length ids" by simp
    with False S it(4) show ?thesis
      unfolding it(2) by (auto simp: tail_of_def tolerated_def parse_frame_def it(3)
          split: sum.splits decode_outcome.splits intro!: exI) (use it(3) in \<open>auto simp: parse_frame_def\<close>)
  qed
qed

text \<open>Before a segment: it is loaded, with the bytes it has now.\<close>

lemma before_load:
  assumes b: "reads_before crc (seg_ids d0) i d it rs" and l: "later crc d0 d" and img: "writer_image crc d" and io: "all_io env"
  shows "\<exists>it1 gs. iter_next env crc d it = iter_next env crc d it1 \<and> reads_inside crc d0 (seg_ids d0) i [] gs d it1 rs"
proof -
  let ?ids = "seg_ids d0" let ?a = "?ids ! i"
  note I = writer_imageD [OF img]
  from b obtain sid off out where it: "i < length ?ids" "it = between ?ids i sid off out" "rs = ids_records crc d (take i ?ids)"
    by (auto simp: reads_before_def)
  have p: "prefix ?ids (seg_ids d)" using l by (simp add: later_def)
  then have mem: "?a \<in> set (seg_ids d)" using set_mono_prefix nth_mem [OF it(1)] by blast
  then have "seg_content d ?a \<noteq> None" using I(1) by (auto simp: set_seg_ids)
  then have c: "file_content d (segment_name ?a) = Some (seg_bytes d ?a)"
    using seg_content_seg_bytes by (simp add: seg_content_def)
  let ?it1 = "inside ?ids i (seg_bytes d ?a) ?a 0 (out\<lparr>si_files_scanned := si_files_scanned out + 1\<rparr>)"
  have "ensure_loaded env d it = (Inr (), ?it1)" using c io by (simp add: it(2) between_load)
  then have n: "iter_next env crc d it = iter_next env crc d ?it1"
    using it(1,2) by (intro iter_load_ok) simp_all
  have sealed: "seg_tail crc d ?a = []" if "Suc i < length ?ids"
    using I(3) butlast_prefix [OF p] nth_sealed [OF that] by auto
  have "tolerated (tail_of crc (seg_tail crc d ?a))"
    using butlast_or_last [OF mem] I(3) writer_image_recoverable [OF img] I(2)
    by (auto simp: recoverable_def recoverable_ids_iff)
  then have "reads_inside crc d0 ?ids i [] (seg_frames crc d ?a) d ?it1 rs"
    using it seg_split(1) [of d ?a crc] seg_split(2,3) [of crc d ?a] sealed later_sealed(3) [OF l _ it(1)]
    unfolding reads_inside_def by (auto intro!: exI [of _ "seg_tail crc d ?a"])
  with n show ?thesis by blast
qed

text \<open>Behind the last frame of the last segment the iteration ends, and is complete.\<close>

lemma last_segment_done:
  assumes r: "reads_inside crc d0 (seg_ids d0) i fs [] d it rs" and l: "later crc d0 d" and last: "Suc i = length (seg_ids d0)"
  shows "prefix (log_records crc d0) rs \<and> prefix rs (ids_records crc d (seg_ids d0))"
proof -
  let ?ids = "seg_ids d0"
  have ids: "?ids = take i ?ids @ [?ids ! i]" using last by (metis lessI take_Suc_conv_app_nth take_all_iff order_refl)
  have i: "i < length ?ids" using last by simp
  from r have R: "rs = ids_records crc d (take i ?ids) @ place (?ids ! i) 0 fs"
    "prefix (seg_frames crc d0 (?ids ! i)) fs" "prefix fs (seg_frames crc d (?ids ! i))"
    by (auto simp: reads_inside_def)
  have s: "ids_records crc d (take i ?ids) = ids_records crc d0 (take i ?ids)"
    by (rule later_sealed(1) [OF l _ i]) simp
  have "log_records crc d0 = ids_records crc d0 (take i ?ids) @ seg_records crc d0 (?ids ! i)"
    unfolding log_records_def by (subst ids) simp
  moreover have "ids_records crc d ?ids = ids_records crc d (take i ?ids) @ seg_records crc d (?ids ! i)"
    by (subst ids) simp
  ultimately show ?thesis
    using R s by (auto simp: seg_records_def prefix_def place_append)
qed

lemma inside_next:
  assumes "reads_inside crc d0 (seg_ids d0) i fs gs d it rs" and l: "later crc d0 d" and img: "writer_image crc d" and io: "all_io env"
  shows "(\<exists>r it'. iter_next env crc d it = (Some (Inr r), it') \<and> reading crc d0 d it' (rs @ [r]))
    \<or> (\<exists>it'. iter_next env crc d it = (None, it') \<and> reads_all crc d0 (seg_ids d0) d it' rs)"
  using assms(1)
proof (induction "length (seg_ids d0) - i" arbitrary: i fs gs it)
  case 0
  then show ?case by (simp add: reads_inside_def)
next
  case (Suc n)
  let ?ids = "seg_ids d0"
  show ?case
  proof (cases gs)
    case (Cons g gs')
    from inside_record [OF Suc.prems [unfolded Cons]] show ?thesis unfolding reading_def by blast
  next
    case Nil
    note r = Suc.prems [unfolded Nil]
    obtain sid off out where e: "iter_next env crc d it = iter_next env crc d (between ?ids (Suc i) sid off out)"
      using inside_end [OF r] by blast
    have i: "i < length ?ids" using r by (simp add: reads_inside_def)
    show ?thesis
    proof (cases "Suc i < length ?ids")
      case True
      then have "reads_before crc ?ids (Suc i) d (between ?ids (Suc i) sid off out) rs"
        using r by (auto simp: reads_before_def reads_inside_def take_Suc_conv_app_nth seg_records_def)
      then obtain it1 hs where b: "iter_next env crc d it = iter_next env crc d it1"
        "reads_inside crc d0 ?ids (Suc i) [] hs d it1 rs"
        using before_load [OF _ l img io] e by metis
      show ?thesis unfolding b(1) by (rule Suc.hyps(1) [OF _ b(2)]) (use Suc.hyps(2) in simp)
    next
      case False
      with i have last: "Suc i = length ?ids" by simp
      then have "iter_next env crc d (between ?ids (Suc i) sid off out) =
          (None, (between ?ids (Suc i) sid off out)\<lparr>it_done := True\<rparr>)"
        by (simp add: iter_next.simps)
      with e last_segment_done [OF r l last] show ?thesis by (simp add: reads_all_def)
    qed
  qed
qed

lemma reading_next:
  assumes r: "reading crc d0 d it rs" and l: "later crc d0 d" and img: "writer_image crc d" and io: "all_io env"
  shows "(\<exists>r it'. iter_next env crc d it = (Some (Inr r), it') \<and> reading crc d0 d it' (rs @ [r]))
    \<or> (\<exists>it'. iter_next env crc d it = (None, it') \<and> reads_all crc d0 (seg_ids d0) d it' rs)"
proof -
  from r consider (all) "reads_all crc d0 (seg_ids d0) d it rs"
    | (before) i where "reads_before crc (seg_ids d0) i d it rs"
    | (inside) i fs gs where "reads_inside crc d0 (seg_ids d0) i fs gs d it rs"
    by (auto simp: reading_def)
  then show ?thesis
  proof cases
    case all
    then show ?thesis by (simp add: reads_all_def iter_next_done)
  next
    case before
    from before_load [OF before l img io] inside_next [OF _ l img io] show ?thesis by metis
  next
    case inside
    then show ?thesis by (rule inside_next [OF _ l img io])
  qed
qed

section \<open>All calls\<close>

lemma moments_snapshot:
  assumes "wal_inv crc s"
  shows "reading crc (wl_dir s) (wl_dir s) (iter_new (seg_ids (wl_dir s))) []"
proof -
  have "seg_ids (wl_dir s) \<noteq> []" using assms by (simp add: wal_inv_def forced_def writer_image_def)
  then have "reads_before crc (seg_ids (wl_dir s)) 0 (wl_dir s) (iter_new (seg_ids (wl_dir s))) []"
    by (auto simp: reads_before_def iter_new_between)
  then show ?thesis by (auto simp: reading_def)
qed

lemma watch_reading:
  assumes "moments crc s ts" "wal_inv crc s" "later crc d0 (wl_dir s)" "reading crc d0 (wl_dir s) it rs" "all_io env"
  shows "\<exists>new it'. watch env crc (map wl_dir ts) it = (map Inr new, it')
    \<and> reading crc d0 (wl_dir (last (s # ts))) it' (rs @ new) \<and> later crc d0 (wl_dir (last (s # ts)))
    \<and> (length new = length ts \<or> reads_all crc d0 (seg_ids d0) (wl_dir (last (s # ts))) it' (rs @ new))"
  using assms
proof (induction ts arbitrary: s it rs)
  case Nil
  then show ?case by simp
next
  case (Cons t ts)
  from Cons.prems(1) obtain calls where run: "wal_run crc s calls t" and m: "moments crc t ts" by auto
  have inv: "wal_inv crc t" and lst: "later crc (wl_dir s) (wl_dir t)"
    using wal_run_inv [OF run Cons.prems(2)] wal_run_later [OF run Cons.prems(2)] by simp_all
  have l: "later crc d0 (wl_dir t)" by (rule later_trans [OF Cons.prems(3) lst])
  have r: "reading crc d0 (wl_dir t) it rs" by (rule reading_later [OF Cons.prems(4,3) lst])
  have img: "writer_image crc (wl_dir t)" using inv by (simp add: wal_inv_def forced_def)
  from reading_next [OF r l img Cons.prems(5)] show ?case
  proof (elim disjE exE conjE)
    fix x it1 assume n: "iter_next env crc (wl_dir t) it = (Some (Inr x), it1)" "reading crc d0 (wl_dir t) it1 (rs @ [x])"
    from Cons.IH [OF m inv l n(2) Cons.prems(5)] n(1) show ?thesis
      by (auto intro!: exI [of _ "x # _"])
  next
    fix it1 assume n: "iter_next env crc (wl_dir t) it = (None, it1)" "reads_all crc d0 (seg_ids d0) (wl_dir t) it1 rs"
    have "later crc (wl_dir t) (wl_dir (last (t # ts)))"
      using m inv
    proof (induction ts arbitrary: t)
      case (Cons u us)
      then show ?case using wal_run_inv wal_run_later by (fastforce intro: later_trans)
    qed (simp add: later_refl)
    moreover have "reading crc d0 (wl_dir t) it1 rs" using n(2) by (simp add: reading_def)
    ultimately have "reading crc d0 (wl_dir (last (t # ts))) it1 rs" "later crc d0 (wl_dir (last (t # ts)))"
      "reads_all crc d0 (seg_ids d0) (wl_dir (last (t # ts))) it1 rs"
      using reading_later [OF _ l] later_trans [OF l] later_records [of crc "wl_dir t" "wl_dir (last (t # ts))" "seg_ids d0"] n(2) l
      by (auto simp: reads_all_def later_def [of crc d0 "wl_dir t"] intro: prefix_order.trans)
    with n(1) show ?thesis by simp
  qed
qed

text \<open>What was yielded is a prefix of the log.\<close>

lemma ids_records_prefix: "prefix xs ys \<Longrightarrow> prefix (ids_records crc d xs) (ids_records crc d ys)"
  by (auto simp: prefix_def)

lemma reading_prefix:
  assumes r: "reading crc d0 d it rs" and l: "later crc d0 d"
  shows "prefix rs (log_records crc d)"
proof -
  let ?ids = "seg_ids d0"
  have p: "prefix (ids_records crc d ?ids) (log_records crc d)"
    using l by (simp add: later_def log_records_def ids_records_prefix)
  moreover have "prefix rs (ids_records crc d ?ids)" using r unfolding reading_def
  proof (elim disjE exE)
    fix i fs gs assume "reads_inside crc d0 ?ids i fs gs d it rs"
    then have i: "i < length ?ids" and rs: "rs = ids_records crc d (take i ?ids) @ place (?ids ! i) 0 fs"
      and "prefix (fs @ gs) (seg_frames crc d (?ids ! i))" by (auto simp: reads_inside_def)
    then have "prefix (place (?ids ! i) 0 fs) (seg_records crc d (?ids ! i))"
      by (auto simp: seg_records_def prefix_def place_append)
    with i rs have "prefix rs (ids_records crc d (take (Suc i) ?ids))"
      by (simp add: take_Suc_conv_app_nth)
    then show ?thesis by (meson ids_records_prefix prefix_order.trans take_is_prefix)
  qed (auto simp: reads_all_def reads_before_def intro: ids_records_prefix take_is_prefix)
  ultimately show ?thesis by (rule prefix_order.trans [rotated])
qed

lemma watch_records:
  assumes "moments crc s ts" "wal_inv crc s" "all_io env"
  shows "\<exists>rs it'. watch env crc (map wl_dir ts) (iter_new (seg_ids (wl_dir s))) = (map Inr rs, it')
    \<and> prefix rs (log_records crc (wl_dir (last (s # ts))))
    \<and> (length rs = length ts \<or> (it_done it' \<and> prefix (log_records crc (wl_dir s)) rs))"
  using watch_reading [OF assms(1,2) later_refl moments_snapshot [OF assms(2)] assms(3)]
  by (auto simp: reads_all_def dest: reading_prefix)

end
