(* ===== verification/Log_Properties.thy ===== *)
theory Log_Properties
  imports Example_Store Store_Liveness Kv_Runs Read_While_Write
begin

text \<open>
  Properties of the log (\<open>record_log.rs\<close>), the lock (\<open>lock.rs\<close>), the read-only
  reader (\<open>record_log_reader.rs\<close>) and the key-value layer (\<open>datawal.rs\<close>), each with
  the instance it is tried on.
\<close>

section \<open>Handles in good order\<close>

text \<open>
  Most properties of a writer start from a handle \<^emph>\<open>in good order\<close> (\<open>rl_inv\<close>, \<open>dw_inv\<close>): it is
  not poisoned, no segment ends in a torn tail, its size is that of the file, and its next
  transaction id is above all ids on disk.  Not every \<open>open\<close> gives such a handle.  It does
  exactly when it found no torn tail and no record with the largest id \<open>u64::MAX\<close>; for the
  other handles the properties fail: see the sections below on the end of the transaction
  ids and on torn tails.
\<close>

theorem opened_in_good_order:
  assumes "rl_open fl env crc pid fd k (Some d) = (Inr log, k', Some d')" and "dir_ok d"
  shows "rl_inv crc log d' \<longleftrightarrow> active_tail crc d = [] \<and> (\<forall>r\<in>set (log_records crc d). rc_txid r \<noteq> - 1)"
proof -
  obtain d2 where D: "Some d' = Some d2" "log = opened_log crc fd d2" "dir_ok d2"
    "seg_ids d2 = (if seg_ids d = [] then [1] else seg_ids d)" "log_records crc d2 = log_records crc d"
    "recoverable crc d" "recoverable crc d2 = recoverable crc d"
    "\<And>sid. sid \<in> set (seg_ids d) \<Longrightarrow> seg_content d2 sid = seg_content d sid"
    "seg_ids d = [] \<Longrightarrow> seg_content d2 1 = Some []"
    by (rule rl_open_Inr [OF assms], rule that)
  let ?a = "last (seg_ids d')" and ?m = "fold max (map rc_txid (log_records crc d')) 0"
  have ne: "seg_ids d' \<noteq> []" using D(1,4) by simp
  have tail: "active_tail crc d = seg_tail crc d' ?a"
    using D(1,4,8,9) seg_splitI(2) [of d' 1 crc "[]" "[]"] seg_tail_cong [of d' ?a d crc]
    by (cases "seg_ids d = []") (simp_all add: active_tail_def)
  have sealed: "seg_tail crc d' i = []" if "i \<in> set (seg_ids d')" "i \<noteq> ?a" for i
    using butlast_or_last [OF that(1)] that(2) D(1,6,7) by (auto simp: recoverable_def recoverable_ids_iff)
  have ids: "?m = - 1 \<longleftrightarrow> (\<exists>r\<in>set (log_records crc d'). rc_txid r = - 1)"
  proof
    assume "?m = - 1"
    then show "\<exists>r\<in>set (log_records crc d'). rc_txid r = - 1"
      using fold_max_in [of "map rc_txid (log_records crc d')" 0] by auto
  next
    assume "\<exists>r\<in>set (log_records crc d'). rc_txid r = - 1"
    then have "- 1 \<in> set (map rc_txid (log_records crc d'))" by force
    from fold_max_ge [OF this, of 0] show "?m = - 1" by (rule word_order.extremum_uniqueI)
  qed
  show ?thesis
  proof
    assume inv: "rl_inv crc log d'"
    have "rc_txid r \<noteq> - 1" if "r \<in> set (log_records crc d')" for r
    proof
      assume "rc_txid r = - 1"
      moreover have "rc_txid r < rl_next_txid log" using inv that by (simp add: rl_inv_def)
      ultimately show False by (simp add: word_order.not_eq_extremum)
    qed
    with rl_invD(4) [OF inv] ne D(1,5) tail show "active_tail crc d = [] \<and> (\<forall>r\<in>set (log_records crc d). rc_txid r \<noteq> - 1)"
      by simp
  next
    assume "active_tail crc d = [] \<and> (\<forall>r\<in>set (log_records crc d). rc_txid r \<noteq> - 1)"
    moreover from this have "seg_tail crc d' i = []" if "i \<in> set (seg_ids d')" for i
      using sealed [OF that] tail by (cases "i = ?a") simp_all
    ultimately show "rl_inv crc log d'" using ids D(1-3,5) ne by (auto intro!: opened_inv)
  qed
qed

section \<open>The key-value layer\<close>

text \<open>
  C2.  Refinement: a sequence of \<open>put\<close>, \<open>delete\<close>, \<open>get\<close> and \<open>fsync\<close> calls on a handle in good
  order (\<open>dw_inv\<close>: not opened over a torn tail, behind which writes can be lost), whatever the
  operating system does in between and whatever they return, is a run of the abstract map
  that only acknowledged writes change: every value that \<open>get\<close> returned is what the map
  held, the handle goes on answering from the map, and while it is not poisoned the files
  contain exactly the map.
\<close>

theorem kv_run_refines_map:
  assumes "dw_run crc (w, d) calls (w', d')" and "dw_inv crc w d"
  shows "\<exists>m. map_run (contents crc d) calls = Some m
    \<and> (\<forall>env k. all_io env \<longrightarrow> fst (dw_get env crc w' d' k) = Inr (m k))
    \<and> (\<not> rl_is_poisoned (dw_log w') \<longrightarrow> contents crc d' = m \<and> dw_inv crc w' d')"
proof -
  obtain m where M: "map_run (contents crc d) calls = Some m" "answers crc w' d' m"
    using dw_run_map [OF assms(1)] answers_start [OF assms(2)] by auto
  then obtain rs where rs: "reads_inv crc w' d' rs" "view rs = m" by (auto simp: answers_def)
  have "fst (dw_get env crc w' d' k) = Inr (m k)" if "all_io env" for env k
    using get_view [OF rs(1) that, of k] rs(2) by auto
  with M show ?thesis by (auto simp: answers_def rl_is_poisoned_def)
qed

text \<open>A put, one that a full disk tears, and reads: the handle answers from the first.\<close>

theorem kv_run_refines_map_witness:
  "\<exists>e r w' d'. dw_run ex_crc (ex_dw, ex_dir) [CPut [1] [9] False, CGet [1] (Inr (Some [2, 3])), CGet [9] (Inr None)] (w', d')
     \<and> dw_put ex_full_disk ex_crc ex_dw ex_dir [1] [9] = (Inl e, r) \<and> fst (dw_get all_works ex_crc w' d' [1]) = Inr (Some [2, 3])"
proof -
  obtain log1 d1 where a: "rl_append_record ex_full_disk ex_crc ex_log ex_dir Put [1] [9] = (Inl (Io (WriteAll 1)), log1, d1)"
    using ex_torn_append by blast
  let ?w1 = "ex_dw\<lparr>dw_log := log1\<rparr>"
  have P: "dw_put ex_full_disk ex_crc ex_dw ex_dir [1] [9] = (Inl (Io (WriteAll 1)), ?w1, d1)"
    using a by (simp add: dw_put_def)
  have A: "answers ex_crc ?w1 d1 [[1] \<mapsto> [2, 3]]"
    using put_answers [OF answers_start [OF ex_dw_inv] P] by (simp add: ex_contents)
  have G: "\<exists>w2. dw_get all_works ex_crc w d1 k = (Inr ([[1] \<mapsto> [2, 3]] k), w2) \<and> answers ex_crc w2 d1 [[1] \<mapsto> [2, 3]]"
    if w: "answers ex_crc w d1 [[1] \<mapsto> [2, 3]]" for w k
  proof -
    from w obtain rs where rs: "reads_inv ex_crc w d1 rs" "view rs = [[1] \<mapsto> [2, 3]]" by (auto simp: answers_def)
    then obtain p where p: "dw_get all_works ex_crc w d1 k = (Inr ([[1] \<mapsto> [2, 3]] k), w\<lparr>dw_pool := p\<rparr>)"
      using get_view [OF rs(1) all_io_all_works, of k] by auto
    with get_answers [OF w p] show ?thesis by blast
  qed
  obtain w2 where g2: "dw_get all_works ex_crc ?w1 d1 [1] = (Inr (Some [2, 3]), w2)" "answers ex_crc w2 d1 [[1] \<mapsto> [2, 3]]"
    using G [OF A, of "[1]"] by auto
  obtain w3 where g3: "dw_get all_works ex_crc w2 d1 [9] = (Inr None, w3)"
    using G [OF g2(2), of "[9]"] by auto
  have "dw_step ex_crc (ex_dw, ex_dir) (CPut [1] [9] False) (?w1, d1)" using dw_step.put [OF P] by simp
  then have run: "dw_run ex_crc (ex_dw, ex_dir) [CPut [1] [9] False, CGet [1] (Inr (Some [2, 3])), CGet [9] (Inr None)] (w3, d1)"
    by (rule run_Cons [OF _ run_Cons [OF dw_step.get [OF g2(1)] run_Cons [OF dw_step.get [OF g3] run_Nil]]])
  from kv_run_refines_map [OF this ex_dw_inv] have "fst (dw_get all_works ex_crc w3 d1 [1]) = Inr (Some [2, 3])"
    by (auto simp: ex_contents)
  with run P show ?thesis by blast
qed

text \<open>
  C3.  Atomicity of \<open>put\<close> on a handle in good order (\<open>dw_inv\<close>: not poisoned, not opened
  over a torn tail, behind which writes can be lost), whatever system call fails
  and wherever a short write stops:
  afterwards the files hold the old map or the map with the new entry and can be opened
  again; \<open>Ok\<close> means the new map; an error means that the handle refuses every further
  write, unless the call was rejected for its lengths and changed nothing.
\<close>

theorem put_is_atomic:
  assumes "dw_inv crc w d" and "dw_put env crc w d k v = (res, w', d')"
  shows "recoverable crc d'
    \<and> (contents crc d' = contents crc d \<or> contents crc d' = (contents crc d)(k \<mapsto> v))
    \<and> (res = Inr () \<longrightarrow> contents crc d' = (contents crc d)(k \<mapsto> v) \<and> dw_inv crc w' d')
    \<and> (\<forall>e. res = Inl e \<longrightarrow> rl_is_poisoned (dw_log w') \<or>
         (w' = w \<and> d' = d \<and> (e = KeyLenExceeds (length k) \<or> e = PayloadLenExceeds (length v))))"
proof -
  have "rl_is_poisoned (dw_log w') \<or>
      (w' = w \<and> d' = d \<and> (e = KeyLenExceeds (length k) \<or> e = PayloadLenExceeds (length v)))"
    if "res = Inl e" for e
    using assms(2) that append_record_error_poisons [of env crc "dw_log w" d Put k v e]
    by (auto simp: dw_put_def rl_is_poisoned_def split: prod.splits sum.splits)
  moreover have "dw_put env crc w d k v = (Inr (), w', d')" if "res = Inr ()"
    using assms(2) that by simp
  ultimately show ?thesis using put_atomic [OF assms] put_Inr [OF assms(1)] by blast
qed

theorem put_is_atomic_witness:
  "\<exists>e w' d'. dw_put ex_full_disk ex_crc ex_dw ex_dir [1] [9] = (Inl e, w', d')
     \<and> rl_is_poisoned (dw_log w') \<and> recoverable ex_crc d'"
proof -
  have "encode_record ex_crc Put (rl_next_txid ex_log) [1] [9] = Inr (wire ex_crc (append_frame ex_log Put [1] [9]))"
    by (simp add: encode_record_wire wire_consts append_frame_def)
  then have "\<exists>w' d'. dw_put ex_full_disk ex_crc ex_dw ex_dir [1] [9] = (Inl (Io (WriteAll 1)), w', d')"
    by (simp add: dw_put_def rl_append_record_def check_poisoned_def ex_log_fields Let_def ex_full_disk_def)
  then obtain w' d' where p: "dw_put ex_full_disk ex_crc ex_dw ex_dir [1] [9] = (Inl (Io (WriteAll 1)), w', d')"
    by blast
  from put_is_atomic [OF ex_dw_inv p] p show ?thesis by auto
qed

text \<open>
  C10.  Writes complete.  On a healthy store (no torn tail, files below \<open>2 ^ 63\<close> bytes,
  transaction ids below \<open>2 ^ 63\<close>) whose lock is free, when the system calls work, \<open>open\<close>,
  \<open>put\<close> of any key and value within the limits and \<open>fsync\<close> return \<open>Ok\<close>; after the handle is
  dropped the store opens again, and every \<open>get\<close> answers from the old map with the new entry.
\<close>

theorem write_reaches_disk:
  assumes "healthy crc d" and "all_io env" and "flock_laws fl holders" and "holders k = {}"
    and "length key \<le> MAX_KEY_LEN" and "length v \<le> MAX_PAYLOAD_LEN"
  shows "\<exists>w k1 d1 w2 d2 w3 k2 d3.
      dw_open fl env crc pid fd k (Some d) = (Inr w, k1, Some d1)
    \<and> dw_put env crc w d1 key v = (Inr (), w2, d2) \<and> dw_fsync env w2 = (Inr (), w2)
    \<and> dw_open fl env crc pid fd (dir_lock_drop fl k1 (rl_lock (dw_log w2))) (Some d2) = (Inr w3, k2, Some d3)
    \<and> (\<forall>x. fst (dw_get env crc w3 d3 x) = Inr (((contents crc d)(key \<mapsto> v)) x))"
  by (rule write_succeeds [OF assms, of pid fd]) blast

lemma ex_dir_healthy: "healthy ex_crc ex_dir"
  using ex_bytes(2) by (simp add: healthy_def located_def)

theorem write_reaches_disk_witness:
  "\<exists>w k1 d1 w2 d2 w3 k2 d3.
      dw_open ex_flock all_works ex_crc 0 5 {} (Some ex_dir) = (Inr w, k1, Some d1)
    \<and> dw_put all_works ex_crc w d1 [7] [8, 9] = (Inr (), w2, d2)
    \<and> dw_open ex_flock all_works ex_crc 0 5 (dir_lock_drop ex_flock k1 (rl_lock (dw_log w2))) (Some d2) = (Inr w3, k2, Some d3)
    \<and> fst (dw_get all_works ex_crc w3 d3 [7]) = Inr (Some [8, 9])
    \<and> fst (dw_get all_works ex_crc w3 d3 [1]) = Inr (Some [2, 3])"
proof -
  have "length [7 :: u8] \<le> MAX_KEY_LEN" "length [8 :: u8, 9] \<le> MAX_PAYLOAD_LEN" by (simp_all add: wire_consts)
  from write_reaches_disk [OF ex_dir_healthy all_io_all_works ex_flock_laws _ this, of "{}" 0 5]
  show ?thesis unfolding ex_contents by fastforce
qed

text \<open>
  C11.  Compaction: into a missing or empty target, \<open>compact_to\<close> writes exactly one
  \<open>Put\<close> per live key, in key order; the new store can be opened and holds the same
  map, the statistics count its records, and the source handle keeps its log.
\<close>

theorem compaction_preserves_contents:
  assumes "kd_inv crc w d" and "all_io env" and "all_io env'"
    and "fl_try_lock_exclusive fl k fd = Some k'" and "out = None \<or> out = Some []"
    and "sum_list (map (entry_size (contents crc d)) (dw_keys w)) < 2 ^ 64"
  shows "\<exists>w1 stats out'. dw_compact_to fl env env' crc pid fd k w d out =
      (Inr stats, w1, dir_lock_drop fl k' fd, Some out')
    \<and> contents crc out' = contents crc d \<and> recoverable crc out'
    \<and> map rc_key (log_records crc out') = sort (dw_keys w)
    \<and> (\<forall>r\<in>set (log_records crc out'). rc_type r = Put)
    \<and> cs_live_keys stats = card (dom (contents crc d)) \<and> cs_records_written stats = cs_live_keys stats
    \<and> cs_bytes_written stats = sum_list (map rc_len (log_records crc out'))
    \<and> dw_log w1 = dw_log w \<and> kd_inv crc w1 d"
proof -
  obtain p stats out' rs where C:
    "dw_compact_to fl env env' crc pid fd k w d out = (Inr stats, w\<lparr>dw_pool := p\<rparr>, dir_lock_drop fl k' fd, Some out')"
    "pool_inv p" "contents crc out' = contents crc d" "log_records crc out' = rs"
    "map rc_key rs = sort (dw_keys w)" "\<forall>r\<in>set rs. rc_type r = Put"
    "stats = \<lparr>cs_live_keys = length rs, cs_records_written = length rs,
       cs_bytes_written = sum_list (map rc_len rs)\<rparr>" "recoverable crc out'"
    using compact_to_contents [OF assms, where pid = pid] by metis
  have "length rs = length (dw_keys w)" using arg_cong [OF C(5), of length] by simp
  also have "\<dots> = card (dom (contents crc d))"
    using keys_contents [OF assms(1)] by (metis distinct_card)
  finally show ?thesis using C kd_inv_pool [OF assms(1) C(2)] by auto
qed

theorem compaction_preserves_contents_witness:
  "\<exists>stats w1 out'. dw_compact_to ex_flock all_works all_works ex_crc 0 9 {} ex_dw ex_dir None =
      (Inr stats, w1, {}, Some out')
    \<and> contents ex_crc out' = [[1] \<mapsto> [2, 3]] \<and> cs_records_written stats = 1"
proof -
  have "sum_list (map (entry_size (contents ex_crc ex_dir)) (dw_keys ex_dw)) < 2 ^ 64"
    by (simp add: ex_contents entry_size_def dw_keys_def ex_dw_def record_wire_size_def wire_consts)
  moreover have "kd_inv ex_crc ex_dw ex_dir" using ex_dw_inv by (simp add: dw_inv_def)
  ultimately show ?thesis
    using compaction_preserves_contents [of ex_crc ex_dw ex_dir all_works all_works ex_flock "{}" 9 "{9}" None 0]
    by (auto simp: ex_flock_try ex_contents dir_lock_drop_def ex_flock_def)
qed

text \<open>
  C16.  Export round trip: whatever the target held before, \<open>export_jsonl\<close> replaces it by
  a text whose lines decode, one for one and in key order, to the live entries.  Base64
  and the JSON row are third-party code: the hypotheses are that they can be decoded
  and that a row holds no line break.
\<close>

theorem export_round_trip:
  assumes "kd_inv crc w d" and "all_io env" and "\<And>bs. b64_dec (b64 bs) = Some bs"
    and "\<And>a b. parse_row (json_row (b64 a) (b64 b)) = Some (b64 a, b64 b)"
    and "\<And>a b. CHR 0x0A \<notin> set (json_row (b64 a) (b64 b))"
  shows "\<exists>w1 content. dw_export_jsonl env crc b64 json_row has_parent w d target = (Inr (), w1, Some content)
    \<and> (\<exists>ks. sorted ks \<and> distinct ks \<and> set ks = dom (contents crc d)
        \<and> map (jsonl_entry b64_dec parse_row) (split_lines [] content) =
          map (\<lambda>k. Some (k, the (contents crc d k))) ks)"
proof -
  have "set (sort (dw_keys w)) = dom (contents crc d)" "distinct (sort (dw_keys w))"
    using keys_contents [OF assms(1)] by simp_all
  moreover obtain p content where "dw_export_jsonl env crc b64 json_row has_parent w d target = (Inr (), w\<lparr>dw_pool := p\<rparr>, Some content)"
    "map (jsonl_entry b64_dec parse_row) (split_lines [] content) =
      map (\<lambda>k. Some (k, the (contents crc d k))) (sort (dw_keys w))"
    using export_entries [OF assms, of has_parent target] by blast
  ultimately show ?thesis by (intro exI conjI) (auto simp del: sort_key_simps set_sort)
qed

theorem export_round_trip_witness:
  "\<exists>w1 content. dw_export_jsonl all_works ex_crc to_hex ex_row True ex_dw ex_dir (Some ''old'') = (Inr (), w1, Some content)
    \<and> map (jsonl_entry ex_unhex ex_parse_row) (split_lines [] content) = [Some ([1], [2, 3])]"
proof -
  have "kd_inv ex_crc ex_dw ex_dir" using ex_dw_inv by (simp add: dw_inv_def)
  from export_round_trip [OF this all_io_all_works, of ex_unhex to_hex ex_parse_row ex_row True "Some ''old''"]
  obtain w1 content ks where E: "dw_export_jsonl all_works ex_crc to_hex ex_row True ex_dw ex_dir (Some ''old'') = (Inr (), w1, Some content)"
    "distinct ks" "set ks = dom (contents ex_crc ex_dir)"
    "map (jsonl_entry ex_unhex ex_parse_row) (split_lines [] content) = map (\<lambda>k. Some (k, the (contents ex_crc ex_dir k))) ks"
    by (auto simp: ex_row_laws)
  have "ks = [[1]]" using E(2,3) by (cases ks) (auto simp: ex_contents dest: subset_singletonD)
  with E(1,4) show ?thesis by (auto simp: ex_contents)
qed

section \<open>Opening\<close>

text \<open>
  C4.  Recovery: a store whose sealed segments are clean and whose last segment ends in
  at most a torn frame is opened; every \<open>get\<close> answers from exactly the records on
  disk, the report states how many segments, records and torn bytes there are, no
  segment byte changes, and without a torn tail the handle is ready for writing.
\<close>

theorem open_recovers:
  assumes "store_ready fl env fd k k' d" and "recoverable crc d"
  shows "\<exists>w d'. dw_open fl env crc pid fd k (Some d) = (Inr w, k', Some d')
    \<and> (\<forall>key. fst (dw_get env crc w d' key) = Inr (contents crc d key))
    \<and> rl_recovery_report (dw_log w) = Inr
       \<lparr>rr_files_scanned = length (seg_ids d), rr_records_replayed = length (log_records crc d),
        rr_tail_truncated = (if active_tail crc d = [] then 0 else 1),
        rr_tail_bytes_discarded = length (active_tail crc d),
        rr_mid_stream_errors = 0, rr_unsupported_versions = 0,
        rr_last_txid_seen = fold max (map rc_txid (log_records crc d)) 0\<rparr>
    \<and> (\<forall>sid\<in>set (seg_ids d). seg_content d' sid = seg_content d sid)
    \<and> (active_tail crc d = [] \<and> fold max (map rc_txid (log_records crc d)) 0 \<noteq> - 1 \<longrightarrow> dw_inv crc w d')"
proof -
  note S = assms(1) [unfolded store_ready_def]
  obtain w d' where W: "dw_open fl env crc pid fd k (Some d) = (Inr w, k', Some d')"
    "kd_inv crc w d'" "contents crc d' = contents crc d" "dw_log w = opened_log crc fd d'"
    "seg_ids d' = seg_ids d" "recoverable crc d'" "log_records crc d' = log_records crc d"
    "\<And>sid. sid \<in> set (seg_ids d) \<Longrightarrow> seg_content d' sid = seg_content d sid"
    using dw_open_contents [where fl = fl and env = env and d = d and k = k and fd = fd and k' = k'
        and crc = crc and pid = pid] S assms(2) by (metis (no_types, lifting))
  have io: "all_io env" and ne: "seg_ids d' \<noteq> []" using S W(5) by auto
  have g: "fst (dw_get env crc w d' key) = Inr (contents crc d key)" for key
    using get_contents [OF W(2) io, of key] W(3) by auto
  have t: "seg_tail crc d' (last (seg_ids d')) = active_tail crc d"
    using S W(5,8) by (auto simp: active_tail_def intro!: seg_tail_cong)
  have i: "dw_inv crc w d'" if "active_tail crc d = []" "fold max (map rc_txid (log_records crc d)) 0 \<noteq> - 1"
  proof -
    have "\<forall>sid\<in>set (seg_ids d'). seg_tail crc d' sid = []"
      using W(6) t that(1) ne by (auto simp: recoverable_def recoverable_ids_iff)
        (metis append_butlast_last_id in_set_conv_decomp rotate1.simps(2) set_ConsD set_rotate1)
    with that(2) W(2,4,7) ne show ?thesis
      by (auto simp: dw_inv_def kd_inv_def intro!: opened_inv)
  qed
  show ?thesis
    using W(1,8) g i opened_log_fields(4) [OF ne, of crc fd] t W(4,5,7) by (auto simp: rl_recovery_report_def)
qed

theorem open_recovers_witness:
  "\<exists>w d'. dw_open ex_flock all_works ex_crc 0 5 {} (Some ex_dir) = (Inr w, {5}, Some d')
    \<and> fst (dw_get all_works ex_crc w d' [1]) = Inr (Some [2, 3])"
  using open_recovers [OF ex_ready ex_dir_facts(7), of 0] by (auto simp: ex_contents)

text \<open>
  C5.  A damaged store is refused, whatever else happens: when a sealed segment is not
  clean, or the last one ends in bytes that are not a torn frame, no \<open>open\<close> returns
  \<open>Ok\<close>; and an \<open>open\<close> that fails leaves no lock behind.
\<close>

theorem open_refuses_damaged:
  assumes "dir_ok d" and "\<not> recoverable crc d" and "flock_laws fl holders"
    and "dw_open fl env crc pid fd k (Some d) = (res, k', d')"
  shows "(\<exists>e. res = Inl e) \<and> holders k' = holders k"
proof -
  have n: "rl_open fl env crc pid fd k (Some d) \<noteq> (Inr log, k1, d1)" for log k1 d1
    using rl_open_Inr_recoverable [of fl env crc pid fd k d log k1 d1] assms(1,2) by blast
  then obtain e where e: "rl_open fl env crc pid fd k (Some d) = (Inl e, k', d')" "res = Inl e"
    using assms(4) by (auto simp: dw_open_def split: prod.splits sum.splits)
  then show ?thesis using rl_open_Inl_lock [OF assms(3)] by blast
qed

theorem open_refuses_damaged_witness:
  "\<exists>e d'. dw_open ex_flock all_works ex_crc 0 5 {} (Some (one_segment (replicate 24 0))) = (Inl e, {}, d')"
proof -
  let ?d = "one_segment (replicate 24 0)"
  have t: "parse_frame ex_crc (replicate 24 0) = None" "tail_of ex_crc (replicate 24 0) = BrokenTail (BadMagic [0, 0, 0, 0])"
    by (code_simp, code_simp)
  have "seg_tail ex_crc ?d 1 = replicate 24 0"
    using one_segment_stream(2) [of "[]" ex_crc "replicate 24 0"] t(1) by simp
  then have "\<not> recoverable ex_crc ?d" using t(2) by (simp add: recoverable_def)
  moreover obtain res k' d' where o: "dw_open ex_flock all_works ex_crc 0 5 {} (Some ?d) = (res, k', d')"
    by (metis prod_cases3)
  ultimately show ?thesis
    using open_refuses_damaged [OF one_segment_ok _ ex_flock_laws o] by auto
qed

text \<open>
  C6.  Single writer: after any interleaving of acquisitions, refused acquisitions and
  drops by any processes, at most one \<open>DirLock\<close> exists; while one exists every
  \<open>acquire\<close> fails, and when none exists one whose system calls succeed is granted.
\<close>

theorem single_writer:
  assumes "flock_laws fl holders" and "lock_reach fl (k0, {}, d0) (k, locks, d)" and "holders k0 = {}"
  shows "(\<forall>a\<in>locks. \<forall>b\<in>locks. a = b)
    \<and> (locks \<noteq> {} \<longrightarrow> (\<forall>env pid fd. \<exists>e d'. dir_lock_acquire fl env pid fd k d = (Inl e, k, d')))
    \<and> (locks = {} \<and> openable d \<longrightarrow>
        (\<forall>env pid fd. all_io env \<longrightarrow> (\<exists>k' d'. dir_lock_acquire fl env pid fd k d = (Inr fd, k', d'))))"
proof -
  have I: "lock_inv holders (k, locks, d)"
    using lock_reach_inv [OF assms(2,1)] assms(3) by (simp add: lock_inv_def)
  have "\<exists>e d'. dir_lock_acquire fl env pid fd k d = (Inl e, k, d')" if "locks \<noteq> {}" for env pid fd
  proof -
    have "fl_try_lock_exclusive fl k fd = None"
      using assms(1) I that by (auto simp: flock_laws_def lock_inv_def)
    then show ?thesis by (simp add: dir_lock_acquire_def Let_def)
  qed
  moreover have "\<exists>k' d'. dir_lock_acquire fl env pid fd k d = (Inr fd, k', d')"
    if "locks = {}" "openable d" "all_io env" for env pid fd
  proof -
    have "fl_try_lock_exclusive fl k fd \<noteq> None"
      using assms(1) I that(1) by (simp add: flock_laws_def lock_inv_def)
    then obtain k' where "fl_try_lock_exclusive fl k fd = Some k'" by blast
    then show ?thesis using acquire_ok [OF that(3,2)] by metis
  qed
  ultimately show ?thesis using I by (simp add: lock_inv_def)
qed

theorem single_writer_witness:
  "\<exists>d'. lock_reach ex_flock ({}, {}, []) ({7}, {7}, d')
    \<and> (\<exists>e d''. dir_lock_acquire ex_flock all_works 0 8 {7} d' = (Inl e, {7}, d''))"
proof -
  obtain d' where a: "dir_lock_acquire ex_flock all_works 0 7 {} [] = (Inr 7, {7}, d')"
    using acquire_ok [OF all_io_all_works openable_Nil ex_flock_try [of 7]] by metis
  have r: "lock_reach ex_flock ({}, {}, []) ({7}, {7}, d')"
    using lr_step [OF lr_refl acquired [OF a, of "{}"]] by simp
  from single_writer [OF ex_flock_laws r] r show ?thesis by auto
qed

section \<open>The writer\<close>

text \<open>
  C13.  Append on a handle in good order (\<open>rl_inv\<close>; behind a torn tail the reference does not
  address the record): on \<open>Ok\<close> the log has grown by exactly one record, with the next
  transaction id, and the returned \<open>RecordRef\<close> addresses its encoding in the file;
  the handle is still consistent with the files.
\<close>

theorem append_returns_ref:
  assumes "rl_inv crc log d" and "rl_append_record env crc log d rt key payload = (Inr rref, log', d')"
  shows "encode_record crc rt (rl_next_txid log) key payload = Inr (bytes_at d' rref)
    \<and> (\<exists>r. log_records crc d' = log_records crc d @ [r] \<and> rc_txid r = rl_next_txid log
        \<and> rc_type r = rt \<and> rc_key r = key \<and> rc_payload r = payload \<and> ref_of_record r = rref)
    \<and> ref_segment rref = rl_active_segment log \<and> ref_offset rref = rl_active_size log
    \<and> ref_len rref = record_wire_size (length key) (length payload)
    \<and> rl_next_txid log' = rl_next_txid log + 1 \<and> rl_next_txid log < rl_next_txid log'
    \<and> rl_inv crc log' d'"
proof -
  note D = append_record_InrD [OF assms]
  from D(4) obtain t where t: "checked_succ (rl_next_txid log) = Some t" by blast
  note A = append_record_ok [OF assms(1) D(1,2,3) t]
  let ?f = "append_frame log rt key payload"
  let ?r = "located (rl_active_id log) (rl_active_size log) ?f"
  have e: "rref = ref_of_record ?r"
    "log' = log\<lparr>rl_active_size := rl_active_size log + wire_len ?f, rl_next_txid := t\<rparr>"
    "d' = append_file d (segment_name (rl_active_id log)) (wire crc ?f)"
    using A(1) assms(2) by simp_all
  have b: "bytes_at d' rref = wire crc ?f"
    using log_record_at [of ?r crc d'] A(3) by (simp add: e)
  have enc: "encode_record crc rt (rl_next_txid log) key payload = Inr (wire crc ?f)"
    using D(1) by (simp add: encode_record_Inr append_frame_def)
  have "t = rl_next_txid log + 1" "rl_next_txid log < t"
    using t checked_succ_less [OF t] by (auto simp: checked_succ_def split: if_splits)
  with A(2,3) b enc show ?thesis
    by (simp add: e ref_of_record_def located_def append_frame_def wire_len_def rl_active_segment_def)
qed

theorem append_returns_ref_witness:
  "\<exists>log1 d1. rl_append all_works ex_crc ex_log ex_dir [9] =
      (Inr \<lparr>ref_segment = 1, ref_offset = 31, ref_len = 29\<rparr>, log1, d1)
    \<and> rl_next_txid log1 = 3"
proof -
  obtain log1 d1 where a: "rl_append_record all_works ex_crc ex_log ex_dir Raw [] [9] =
      (Inr \<lparr>ref_segment = 1, ref_offset = 31, ref_len = 29\<rparr>, log1, d1)"
    using ex_append by blast
  from append_returns_ref [OF ex_log_inv a] a show ?thesis
    by (auto simp: rl_append_def ex_log_fields)
qed

text \<open>
  C15.  Transaction ids: from a handle in good order (\<open>rl_inv\<close>: no torn tail, and its next
  id above all ids on disk; the handle that \<open>open\<close> gives behind id \<open>u64::MAX\<close> is not)
  and over any sequence of calls of the writer, succeeding or failing,
  the ids on disk stay strictly increasing in physical order, across rotations, and a handle
  that is not poisoned will give a larger id to its next record.
\<close>

theorem txids_stay_increasing:
  assumes "rl_inv crc log d" and "txids_increase crc d"
    and "wal_run crc \<lparr>wl_log = log, wl_dir = d, wl_synced = 0\<rparr> calls t"
  shows "txids_increase crc (wl_dir t) \<and> (rl_poisoned (wl_log t) = None \<longrightarrow>
    (\<forall>r\<in>set (log_records crc (wl_dir t)). rc_txid r < rl_next_txid (wl_log t)))"
  using wal_run_txids [OF assms(3) synced_start [OF assms(1)]]
    wal_run_inv [OF assms(3) synced_start [OF assms(1)]] assms(2)
  by (auto simp: wal_inv_def dest: rl_invD(6))

theorem txids_stay_increasing_witness:
  "\<exists>log1 d1. rl_append all_works ex_crc ex_log ex_dir [9] =
      (Inr \<lparr>ref_segment = 1, ref_offset = 31, ref_len = 29\<rparr>, log1, d1) \<and> txids_increase ex_crc d1"
proof -
  obtain log1 d1 where a: "rl_append_record all_works ex_crc ex_log ex_dir Raw [] [9] =
      (Inr \<lparr>ref_segment = 1, ref_offset = 31, ref_len = 29\<rparr>, log1, d1)"
    using ex_append by blast
  have "txids_increase ex_crc ex_dir" by (simp add: txids_increase_def)
  from txids_stay_increasing [OF ex_log_inv this wr_step [OF wr_refl wal_step.appended [OF a]]] a
  show ?thesis by (auto simp: rl_append_def)
qed

text \<open>
  C25.  The end of the transaction ids: the append that uses id \<open>u64::MAX\<close> returns an
  error and poisons the handle although its record is on disk and will be replayed; the
  next \<open>open\<close> starts again at id 1, below every id in the log.
\<close>

theorem txid_exhaustion:
  assumes "rl_inv crc log d" and "rl_next_txid log = - 1" and "works env (WriteAll (rl_active_id log))"
    and "length key \<le> MAX_KEY_LEN" and "length payload \<le> MAX_PAYLOAD_LEN"
    and "rl_active_size log + record_wire_size (length key) (length payload) < 2 ^ 64"
  shows "\<exists>log' d' r. rl_append_record env crc log d rt key payload = (Inl (TxidOverflow (- 1)), log', d')
    \<and> rl_is_poisoned log' \<and> recoverable crc d' \<and> log_records crc d' = log_records crc d @ [r]
    \<and> rc_payload r = payload \<and> rl_next_txid (opened_log crc fd d') = 1"
proof -
  let ?f = "append_frame log rt key payload"
  let ?a = "rl_active_id log"
  let ?d' = "append_file d (segment_name ?a) (wire crc ?f)"
  have fok: "frame_ok ?f" "wire_len ?f = record_wire_size (length key) (length payload)"
    using assms(4,5) by (simp_all add: frame_ok_def append_frame_def wire_len_def)
  note I = rl_invD [OF assms(1)]
  have enc: "encode_record crc rt (- 1) key payload = Inr (wire crc ?f)"
    using fok(1) by (simp add: encode_record_Inr append_frame_def assms(2))
  have S: "dir_ok d" "seg_ids d \<noteq> []" "seg_tail crc d (last (seg_ids d)) = []" using I(1,2,4) by simp_all
  note A = append_stream [OF S, of "[?f]" "[]", simplified, OF fok(1), folded I(3)]
  let ?r = "located ?a (rl_active_size log) ?f"
  have rec: "log_records crc ?d' = log_records crc d @ [?r]" using A(3) I(5) by simp
  have ap: "rl_append_record env crc log d rt key payload =
      (Inl (TxidOverflow (- 1)), log\<lparr>rl_active_size := rl_active_size log + wire_len ?f,
         rl_poisoned := Some ''txid overflow''\<rparr>, ?d')"
    using assms(3,6) enc fok(2) frame_ok_wire_len_u32 [OF fok(1)] I(7)
    by (simp add: rl_append_record_def check_poisoned_def Let_def assms(2) length_wire checked_add_u64_def
        checked_succ_def)
  have m: "fold max (map rc_txid (log_records crc ?d')) 0 = (- 1 :: u64)"
    using rec by (simp add: located_def append_frame_def assms(2) max_def word_order.extremum_unique)
  have "rl_next_txid (opened_log crc fd ?d') = 1"
    using A(1) S(2) m by (simp add: opened_next_txid_eq checked_succ_def)
  moreover have "recoverable crc ?d'"
    using A(1,4,5) I(2,3,4) by (auto simp: recoverable_def recoverable_ids_iff dest!: in_set_butlastD) (metis I(3))
  ultimately show ?thesis using ap rec by (simp add: rl_is_poisoned_def located_def append_frame_def)
qed

theorem txid_exhaustion_witness:
  "\<exists>log' d' r. rl_append_record all_works ex_crc (ex_log\<lparr>rl_next_txid := - 1\<rparr>) ex_dir Put [5] [6] =
      (Inl (TxidOverflow (- 1)), log', d') \<and> log_records ex_crc d' = log_records ex_crc ex_dir @ [r]
    \<and> rl_next_txid (opened_log ex_crc 5 d') = 1"
proof -
  have "rl_inv ex_crc (ex_log\<lparr>rl_next_txid := - 1\<rparr>) ex_dir"
    using ex_log_inv
    by (simp add: rl_inv_def located_def word_less_nat_alt unsigned_minus_1_eq_mask mask_eq_exp_minus_1)
  from txid_exhaustion [OF this, of all_works "[5]" "[6]" Put 5] show ?thesis
    by (auto simp: ex_log_fields record_wire_size_def wire_consts)
qed

text \<open>
  Rotation: after an \<open>Ok\<close> the new segment is empty and active, all earlier segments
  and records are as they were, and the handle is consistent with the files (ids that fit
  the eight digits of a file name).
\<close>

theorem rotate_keeps_records:
  assumes "rl_inv crc log d" and "rl_rotate env log d = (Inr (), log', d')"
    and "rl_active_segment log' < 10 ^ 8"
  shows "rl_inv crc log' d' \<and> log_records crc d' = log_records crc d
    \<and> seg_ids d' = seg_ids d @ [rl_active_segment log'] \<and> rl_active_segment log < rl_active_segment log'
    \<and> rl_active_size log' = 0 \<and> rl_next_txid log' = rl_next_txid log"
proof -
  have lt: "rl_active_id log' < 10 ^ 8" using assms(3) by (simp add: rl_active_segment_def)
  have "rl_active_id log < rl_active_id log' \<and> rl_active_size log' = 0 \<and> rl_next_txid log' = rl_next_txid log"
    using assms(2) by (auto simp: rl_rotate_def Let_def split: if_splits option.splits sum.splits)
  with rotate_Inr [OF assms(1,2) lt] show ?thesis by (simp add: rl_active_segment_def)
qed

theorem rotate_keeps_records_witness:
  "\<exists>log' d'. rl_rotate all_works ex_log ex_dir = (Inr (), log', d') \<and> seg_ids d' = [1, 2]
    \<and> log_records ex_crc d' = log_records ex_crc ex_dir"
proof -
  have "map_of ex_dir (Utf8 (segment_name 2)) = None" by (simp add: ex_dir_def one_segment_def)
  then obtain log' d' where r: "rl_rotate all_works ex_log ex_dir = (Inr (), log', d')" "rl_active_segment log' = 2"
    using rl_rotate_ok(1) [OF ex_log_inv all_io_all_works]
    by (auto simp: ex_log_fields rl_active_segment_def numeral_2_eq_2)
  from rotate_keeps_records [OF ex_log_inv r(1)] r show ?thesis by auto
qed

text \<open>
  C24.  Rotation past segment 99999999 returns \<open>Ok\<close>, but the name of the new file has nine
  digits, which \<open>parse_segment_filename\<close> rejects: records appended to it are
  acknowledged, and no later listing, scan or \<open>open\<close> sees them.
\<close>

theorem rotate_past_width_loses_appends:
  assumes "rl_inv crc log d" and "all_io env" and "rl_active_segment log = 99999999"
    and "map_of d (Utf8 (segment_name 100000000)) = None"
  shows "\<exists>log' d'. rl_rotate env log d = (Inr (), log', d')
    \<and> (\<forall>env' rt key v r log2 d2. rl_append_record env' crc log' d' rt key v = (Inr r, log2, d2) \<longrightarrow>
         seg_ids d2 = seg_ids d \<and> log_records crc d2 = log_records crc d)"
proof -
  have a: "rl_active_id log = 99999999" using assms(3) by (simp add: rl_active_segment_def)
  have free: "map_of d (Utf8 (segment_name 100000000)) \<noteq> Some OtherNode" using assms(4) by simp
  note R = rl_rotate_past_width [OF assms(1,2) a free]
  let ?log' = "log\<lparr>rl_active_id := 100000000, rl_active_size := 0\<rparr>"
  let ?d' = "put_file d (segment_name 100000000) []"
  have "\<exists>bs. d2 = append_file ?d' (segment_name 100000000) bs"
    if "rl_append_record env' crc ?log' ?d' rt key v = (Inr r, log2, d2)" for env' rt key v r log2 d2
    using that by (auto simp: rl_append_record_def Let_def split: sum.splits if_splits option.splits)
  then show ?thesis using R by blast
qed

theorem rotate_past_width_loses_appends_witness:
  "\<exists>log' d' r log2 d2. rl_rotate all_works (opened_log ex_crc 5 ex_wide) ex_wide = (Inr (), log', d')
    \<and> rl_append_record all_works ex_crc log' d' Raw [] [9] = (Inr r, log2, d2) \<and> log_records ex_crc d2 = []"
proof -
  let ?log = "opened_log ex_crc 5 ex_wide"
  have a: "rl_active_segment ?log = 99999999" "rl_next_txid ?log = 1"
    by (simp_all add: rl_active_segment_def opened_log_fields opened_next_txid_eq ex_wide_facts checked_succ_def)
  have n: "map_of ex_wide (Utf8 (segment_name 100000000)) = None" by (simp add: ex_wide_def)
  from rotate_past_width_loses_appends [OF ex_wide_inv all_io_all_works a(1) n]
  obtain log' d' where R: "rl_rotate all_works ?log ex_wide = (Inr (), log', d')"
    "\<And>env' rt key v r log2 d2. rl_append_record env' ex_crc log' d' rt key v = (Inr r, log2, d2) \<Longrightarrow>
       log_records ex_crc d2 = []"
    by (metis ex_wide_facts(4))
  have l: "log' = ?log\<lparr>rl_active_id := 100000000, rl_active_size := 0\<rparr>"
    using rl_rotate_past_width(1) [OF ex_wide_inv all_io_all_works] a(1) n R(1) by (simp add: rl_active_segment_def)
  have p: "rl_poisoned log' = None" "rl_next_txid log' = 1" "rl_active_size log' = 0"
    using rl_invD(7) [OF ex_wide_inv] a(2) by (simp_all add: l)
  have f: "frame_ok (append_frame log' Raw [] [9])" "wire_len (append_frame log' Raw [] [9]) = 29"
    by (simp_all add: frame_ok_def append_frame_def wire_consts wire_len_def record_wire_size_def)
  have "\<exists>r log2 d2. rl_append_record all_works ex_crc log' d' Raw [] [9] = (Inr r, log2, d2)"
    using append_record_run [OF p(1) f(1) all_works_works, of 2 ex_crc d'] p(2,3) f(2)
    by (auto simp: checked_succ_def)
  with R show ?thesis by blast
qed

section \<open>Failed writes\<close>

text \<open>
  C14.  A failed \<open>fsync\<close> is final: whatever the operating system does afterwards, no later
  \<open>append\<close>, \<open>fsync\<close> or \<open>rotate\<close> on the handle succeeds or changes a file, also after a
  scan in between; so no retry can report the lost write as durable.
\<close>

theorem failed_fsync_is_final:
  assumes "rl_fsync env log = (Inl e, log1)" and "rl_scan env1 crc log1 d = (res, log2)"
  shows "\<exists>reason. (\<forall>env' rt key v. rl_append_record env' crc log2 d rt key v = (Inl (WriterPoisoned reason), log2, d))
    \<and> (\<forall>env'. rl_fsync env' log2 = (Inl (WriterPoisoned reason), log2))
    \<and> (\<forall>env'. rl_rotate env' log2 d = (Inl (WriterPoisoned reason), log2, d))"
proof -
  obtain reason where "rl_poisoned log2 = Some reason"
    using fsync_error_poisons [OF assms(1)] scan_keeps_poison [OF assms(2)] by auto
  from poisoned_refuses [OF this] show ?thesis by blast
qed

theorem failed_fsync_is_final_witness:
  "\<exists>log1 log2 rs. rl_fsync (all_works\<lparr>works := \<lambda>c. c \<noteq> FsyncDir\<rparr>) ex_log = (Inl (Io FsyncDir), log1)
    \<and> rl_scan all_works ex_crc log1 ex_dir = (Inr rs, log2) \<and> (\<exists>e. rl_fsync all_works log2 = (Inl e, log2))"
proof -
  obtain log1 where f: "rl_fsync (all_works\<lparr>works := \<lambda>c. c \<noteq> FsyncDir\<rparr>) ex_log = (Inl (Io FsyncDir), log1)"
    by (simp add: rl_fsync_def check_poisoned_def ex_log_fields)
  obtain rs log2 where s: "rl_scan all_works ex_crc log1 ex_dir = (Inr rs, log2)"
    using rl_scan_ok [OF all_io_all_works] by auto
  from failed_fsync_is_final [OF f s] f s show ?thesis by blast
qed

section \<open>Appending behind a torn tail\<close>

text \<open>What \<open>open\<close>, \<open>append\<close> and \<open>fsync\<close> do on a recoverable store, torn tail or not.\<close>

lemma open_append_fsync:
  fixes rt :: record_type
  assumes r: "store_ready fl env fd k k' d" "recoverable crc d"
    and lens: "length key \<le> MAX_KEY_LEN" "length v \<le> MAX_PAYLOAD_LEN"
    and room: "length (seg_bytes d (last (seg_ids d))) + record_wire_size (length key) (length v) < 2 ^ 64"
      "unat (fold max (map rc_txid (log_records crc d)) 0) + 2 < 2 ^ 64"
  obtains log d1 rref log2 g where
    "rl_open fl env crc pid fd k (Some d) = (Inr log, k', Some d1)"
    "rl_append_record env crc log d1 rt key v =
       (Inr rref, log2, append_file d1 (segment_name (last (seg_ids d1))) (wire crc g))"
    "rl_fsync env log2 = (Inr (), log2)" "wire_len g = record_wire_size (length key) (length v)"
    "dir_ok d1" "seg_ids d1 \<noteq> []" "recoverable crc d1" "log_records crc d1 = log_records crc d"
    "seg_tail crc d1 (last (seg_ids d1)) = active_tail crc d"
proof -
  have io: "all_io env" and ne: "seg_ids d \<noteq> []" using r(1) by (simp_all add: store_ready_def)
  from store_opened [OF r(1), where crc = crc and pid = pid] r(2)
  obtain d1 where S: "dir_ok d1" "seg_ids d1 = seg_ids d" "seg_ids d1 \<noteq> []" "log_records crc d1 = log_records crc d"
    "recoverable crc d1" "active_tail crc d1 = active_tail crc d"
    "\<And>sid. sid \<in> set (seg_ids d) \<Longrightarrow> seg_content d1 sid = seg_content d sid"
    "rl_open fl env crc pid fd k (Some d) = (Inr (opened_log crc fd d1), k', Some d1)"
    by metis
  have "seg_bytes d1 (last (seg_ids d1)) = seg_bytes d (last (seg_ids d))"
    using S(2,7) ne by (simp add: seg_bytes_def)
  then have rm: "room (opened_log crc fd d1) (record_wire_size (length key) (length v)) 1"
    using room S(2-4) by (intro opened_room) simp_all
  obtain rref log' where A: "rl_append_record env crc (opened_log crc fd d1) d1 rt key v =
      (Inr rref, log', append_file d1 (segment_name (last (seg_ids d1)))
         (wire crc (append_frame (opened_log crc fd d1) rt key v)))" "rl_fsync env log' = (Inr (), log')"
    by (rule opened_append [OF io S(1,3) lens rm])
  show ?thesis
    by (rule that [OF S(8) A]) (use S(1,3-6) in \<open>simp_all add: wire_len_def append_frame_def active_tail_def\<close>)
qed

text \<open>
  C18.  A tail of one to seven torn bytes: \<open>open\<close> tolerates it, and the next \<open>append\<close> and
  \<open>fsync\<close> report success; but the record lies behind the torn bytes, and from then on
  no \<open>open\<close> of the store succeeds.
\<close>

theorem torn_tail_append_bricks_store:
  assumes "store_ready fl env fd k k' d" and "recoverable crc d"
    and "active_tail crc d = take n (wire crc f)" and "0 < n" and "n < 8"
    and "length key \<le> MAX_KEY_LEN" and "length v \<le> MAX_PAYLOAD_LEN"
    and "length (seg_bytes d (last (seg_ids d))) + record_wire_size (length key) (length v) < 2 ^ 64"
    and "unat (fold max (map rc_txid (log_records crc d)) 0) + 2 < 2 ^ 64"
  shows "\<exists>log d1 rref log2 d2. rl_open fl env crc pid fd k (Some d) = (Inr log, k', Some d1)
    \<and> rl_append_record env crc log d1 rt key v = (Inr rref, log2, d2) \<and> rl_fsync env log2 = (Inr (), log2)
    \<and> (\<forall>env' pid' fd' k1. \<exists>e k2 d3. rl_open fl env' crc pid' fd' k1 (Some d2) = (Inl e, k2, d3))"
proof -
  obtain log d1 rref log2 g where O: "rl_open fl env crc pid fd k (Some d) = (Inr log, k', Some d1)"
    "rl_append_record env crc log d1 rt key v =
       (Inr rref, log2, append_file d1 (segment_name (last (seg_ids d1))) (wire crc g))"
    "rl_fsync env log2 = (Inr (), log2)" "dir_ok d1" "seg_ids d1 \<noteq> []"
    "seg_tail crc d1 (last (seg_ids d1)) = active_tail crc d"
    using open_append_fsync [OF assms(1,2,6,7,8,9), where pid = pid and rt = rt] by metis
  let ?d2 = "append_file d1 (segment_name (last (seg_ids d1))) (wire crc g)"
  have "\<not> recoverable crc ?d2"
    by (rule torn_append_unrecoverable [OF O(4,5) O(6) [unfolded assms(3)] assms(4,5)])
  then have "\<exists>e k2 d3. rl_open fl env' crc pid' fd' k1 (Some ?d2) = (Inl e, k2, d3)" for env' pid' fd' k1
    using rl_open_Inr_recoverable [of fl env' crc pid' fd' k1 ?d2] O(4)
    by (metis dir_ok_append prod_cases3 sum.exhaust)
  with O(1-3) show ?thesis by blast
qed

theorem torn_tail_append_bricks_store_witness:
  "\<exists>log d1 rref log2 d2. rl_open ex_flock all_works ex_crc 0 5 {} (Some (ex_torn 5)) = (Inr log, {5}, Some d1)
    \<and> rl_append_record all_works ex_crc log d1 Put [1] [2] = (Inr rref, log2, d2)
    \<and> rl_fsync all_works log2 = (Inr (), log2)
    \<and> (\<exists>e k2 d3. rl_open ex_flock all_works ex_crc 0 6 {} (Some d2) = (Inl e, k2, d3))"
proof -
  note T = ex_torn_facts [of 5, simplified]
  have a: "active_tail ex_crc (ex_torn 5) = take 5 (wire ex_crc ex_long)"
    using T(1) by (simp add: active_tail_def ex_torn_def)
  have b: "length (seg_bytes (ex_torn 5) (last (seg_ids (ex_torn 5)))) \<le> 5"
    by (simp add: ex_torn_def seg_bytes_def)
  from torn_tail_append_bricks_store [OF T(4,3) a, of "[1]" "[2]" 0 Put] b T(2)
  show ?thesis by (simp add: wire_consts record_wire_size_def) blast
qed

text \<open>
  C19.  A torn tail with a whole header: the next \<open>append\<close> and \<open>fsync\<close> report success for
  a record that fits into the length which the torn header announces; after the next
  \<open>open\<close> the store holds what it held before, without the acknowledged record.
\<close>

theorem torn_tail_append_is_lost:
  assumes "store_ready fl env fd k k' d" and "recoverable crc d"
    and "active_tail crc d = take n (wire crc f)" and "frame_ok f" and "24 \<le> n"
    and "n + record_wire_size (length key) (length v) < wire_len f"
    and "length key \<le> MAX_KEY_LEN" and "length v \<le> MAX_PAYLOAD_LEN"
    and "length (seg_bytes d (last (seg_ids d))) + record_wire_size (length key) (length v) < 2 ^ 64"
    and "unat (fold max (map rc_txid (log_records crc d)) 0) + 2 < 2 ^ 64"
  shows "\<exists>log d1 rref log2 d2. rl_open fl env crc pid fd k (Some d) = (Inr log, k', Some d1)
    \<and> rl_append_record env crc log d1 Put key v = (Inr rref, log2, d2) \<and> rl_fsync env log2 = (Inr (), log2)
    \<and> recoverable crc d2 \<and> contents crc d2 = contents crc d"
proof -
  obtain log d1 rref log2 g where O: "rl_open fl env crc pid fd k (Some d) = (Inr log, k', Some d1)"
    "rl_append_record env crc log d1 Put key v =
       (Inr rref, log2, append_file d1 (segment_name (last (seg_ids d1))) (wire crc g))"
    "rl_fsync env log2 = (Inr (), log2)" "wire_len g = record_wire_size (length key) (length v)"
    "dir_ok d1" "seg_ids d1 \<noteq> []" "recoverable crc d1" "log_records crc d1 = log_records crc d"
    "seg_tail crc d1 (last (seg_ids d1)) = active_tail crc d"
    using open_append_fsync [OF assms(1,2,7,8,9,10), where pid = pid and rt = Put] by metis
  have "n + wire_len g < wire_len f" using assms(6) O(4) by simp
  from torn_append_swallowed(1,2) [OF O(5,6,7) O(9) [unfolded assms(3)] assms(4,5) this] O(1-3,8)
  show ?thesis by (auto simp: contents_def)
qed

theorem torn_tail_append_is_lost_witness:
  "\<exists>log d1 rref log2 d2. rl_open ex_flock all_works ex_crc 0 5 {} (Some (ex_torn 100)) = (Inr log, {5}, Some d1)
    \<and> rl_append_record all_works ex_crc log d1 Put [1] [2] = (Inr rref, log2, d2)
    \<and> rl_fsync all_works log2 = (Inr (), log2) \<and> contents ex_crc d2 [1] = None"
proof -
  note T = ex_torn_facts [of 100, simplified]
  have a: "active_tail ex_crc (ex_torn 100) = take 100 (wire ex_crc ex_long)"
    using T(1) by (simp add: active_tail_def ex_torn_def)
  have b: "length (seg_bytes (ex_torn 100) (last (seg_ids (ex_torn 100)))) \<le> 100"
    by (simp add: ex_torn_def seg_bytes_def)
  from torn_tail_append_is_lost [OF T(4,3) a ex_long_ok(1), of "[1]" "[2]" 0] b T(2) ex_long_ok(2)
  show ?thesis by (simp add: wire_consts record_wire_size_def contents_def) metis
qed

section \<open>Readers and records\<close>

text \<open>
  C12.  A reader interleaved with the writer, whose handle was in good order at some time
  (\<open>rl_inv\<close>: not opened over a torn tail).  A \<open>RecordLogReader\<close> opened at any moment since
  then, also when the writer has already failed half way, whose iterator calls \<open>next\<close> at any
  later moments, while the writer appends, forces and rotates in between and fails, yields no error item and nothing but the records
  of the log, in order and without a gap; when it ends, it has yielded at least the records
  that were there at \<open>open\<close>.
\<close>

theorem reader_interleaved_with_writer:
  assumes "rl_inv crc log d0" and "wal_run crc \<lparr>wl_log = log, wl_dir = d0, wl_synced = 0\<rparr> calls s"
    and "reader_open env (IsDir (wl_dir s)) = Inr snapshot" and "moments crc s ts" and "all_io env'"
  shows "\<exists>it rs it'. reader_scan_iter snapshot = Inr it
    \<and> watch env' crc (map wl_dir ts) it = (map Inr rs, it')
    \<and> prefix rs (log_records crc (wl_dir (last (s # ts))))
    \<and> (length rs = length ts \<or> (it_done it' \<and> prefix (log_records crc (wl_dir s)) rs))"
proof -
  have "snapshot = seg_ids (wl_dir s)"
    using assms(3) by (auto simp: reader_open_def list_segment_ids_Inr split: if_splits)
  moreover have "wal_inv crc s" using wal_run_inv [OF assms(2) synced_start [OF assms(1)]] by simp
  ultimately show ?thesis
    using watch_records [OF assms(4) _ assms(5)] by (auto simp: reader_scan_iter_def)
qed

text \<open>The reader opens before the torn append of \<open>ex_torn_append\<close>, and goes on behind it.\<close>

theorem reader_interleaved_with_writer_witness:
  "\<exists>log1 d1 it it'. rl_append_record ex_full_disk ex_crc ex_log ex_dir Put [1] [9] = (Inl (Io (WriteAll 1)), log1, d1)
    \<and> length (seg_bytes d1 1) = 36
    \<and> reader_open all_works (IsDir ex_dir) = Inr [1] \<and> reader_scan_iter [1] = Inr it
    \<and> watch all_works ex_crc [ex_dir, d1] it = ([Inr (located 1 0 ex_frame)], it') \<and> it_done it'"
proof -
  obtain log1 d1 where a: "rl_append_record ex_full_disk ex_crc ex_log ex_dir Put [1] [9] = (Inl (Io (WriteAll 1)), log1, d1)"
    "length (seg_bytes d1 1) = 36" "log_records ex_crc d1 = log_records ex_crc ex_dir"
    using ex_torn_append by blast
  have o: "reader_open all_works (IsDir ex_dir) = Inr [1]"
    by (simp add: reader_open_def list_segment_ids_def flip: seg_ids_def)
  let ?s = "\<lparr>wl_log = ex_log, wl_dir = ex_dir, wl_synced = 0\<rparr>"
  have m: "moments ex_crc ?s [?s, \<lparr>wl_log = log1, wl_dir = d1, wl_synced = 0\<rparr>]"
    using wr_step [OF wr_refl wal_step.appended [OF a(1)]] wr_refl by auto
  have "reader_open all_works (IsDir (wl_dir ?s)) = Inr [1]" using o by simp
  from reader_interleaved_with_writer [OF ex_log_inv wr_refl this m all_io_all_works] obtain it rs it' where
    w: "reader_scan_iter [1] = Inr it" "watch all_works ex_crc [ex_dir, d1] it = (map Inr rs, it')"
    "prefix rs [located 1 0 ex_frame]" "length rs = 2 \<or> (it_done it' \<and> prefix [located 1 0 ex_frame] rs)"
    using a(3) by auto
  then have "it_done it' \<and> rs = [located 1 0 ex_frame]" by (auto dest: prefix_length_le prefix_order.antisym)
  with w(1,2) a(1,2) o show ?thesis by auto
qed

text \<open>
  The same for a reader that is drained in one go: it yields what was there at \<open>open\<close>, and
  perhaps more.
\<close>

theorem reader_beside_writer:
  assumes "reader_open env (IsDir d) = Inr snapshot" and "rl_inv crc log d"
    and "wal_run crc \<lparr>wl_log = log, wl_dir = d, wl_synced = 0\<rparr> calls t" and "all_io env'"
  shows "\<exists>it rs it'. reader_scan_iter snapshot = Inr it
    \<and> drain env' crc (wl_dir t) it = (map Inr rs, it')
    \<and> prefix (log_records crc d) rs \<and> prefix rs (log_records crc (wl_dir t))"
proof -
  have "snapshot = seg_ids d"
    using assms(1) by (auto simp: reader_open_def list_segment_ids_Inr split: if_splits)
  with reader_records [OF assms(3) synced_start [OF assms(2)] assms(4)] show ?thesis
    by (auto simp: reader_scan_iter_def)
qed

text \<open>
  A reader may yield more than was there at \<open>open\<close>: a record appended to its last segment
  before the iterator gets there is yielded (\<open>ReaderBoundedByOpen\<close> of \<open>ReadWhileWrite.tla\<close>
  excludes this).
\<close>

theorem reader_sees_later_append:
  assumes o: "reader_open env (IsDir d) = Inr snapshot" and inv: "rl_inv crc log d"
    and a: "rl_append_record env1 crc log d rt key payload = (Inr rref, log', d')" and io: "all_io env'"
  shows "\<exists>it it' r. reader_scan_iter snapshot = Inr it \<and> ref_of_record r = rref
    \<and> drain env' crc d' it = (map Inr (log_records crc d @ [r]), it')"
proof -
  note D = append_record_InrD [OF inv a]
  from D(4) obtain t where t: "checked_succ (rl_next_txid log) = Some t" by blast
  note A = append_record_ok [OF inv D(1,2,3) t]
  let ?r = "located (rl_active_id log) (rl_active_size log) (append_frame log rt key payload)"
  let ?s = "\<lparr>wl_log = log', wl_dir = d', wl_synced = 0\<rparr>"
  have inv': "rl_inv crc log' d'" and ids: "seg_ids d' = seg_ids d" and ref: "ref_of_record ?r = rref"
    and recs: "log_records crc d' = log_records crc d @ [?r]"
    using a A by auto
  obtain rs it' where "drain env' crc d' (iter_new (seg_ids d)) = (map Inr rs, it')" "rs = log_records crc d'"
    using reader_records [OF wr_refl [of crc ?s] synced_start [OF inv'] io] ids
    by (auto dest: prefix_order.antisym)
  moreover have "snapshot = seg_ids d"
    using o by (auto simp: reader_open_def list_segment_ids_Inr split: if_splits)
  ultimately show ?thesis using ref recs by (auto simp: reader_scan_iter_def)
qed

text \<open>
  C28.  Every record of a log is well formed: it lies in a listed segment, inside the
  file; its key and payload respect the limits; its length is that of its encoding, and
  the bytes at its \<open>RecordRef\<close> are that encoding, also when read through the file pool.
\<close>

theorem records_well_formed:
  assumes "r \<in> set (log_records crc d)"
  shows "rc_segment r \<in> set (seg_ids d) \<and> rc_segment r < 10 ^ 8
    \<and> length (rc_key r) \<le> MAX_KEY_LEN \<and> length (rc_payload r) \<le> MAX_PAYLOAD_LEN
    \<and> rc_len r = record_wire_size (length (rc_key r)) (length (rc_payload r)) \<and> rc_len r < 2 ^ 32
    \<and> rc_offset r + rc_len r \<le> length (seg_bytes d (rc_segment r))
    \<and> encode_record crc (rc_type r) (rc_txid r) (rc_key r) (rc_payload r) = Inr (bytes_at d (ref_of_record r))
    \<and> (\<forall>env p bs p'. pool_inv p \<and> read_at env d p (rc_segment r) (rc_offset r) (rc_len r) = (Inr bs, p')
         \<longrightarrow> bs = bytes_at d (ref_of_record r))"
proof -
  note R = log_record_at [OF assms]
  have f: "frame_ok (frame_of r)" "rc_len r = wire_len (frame_of r)" using R by simp_all
  have "rc_len r < 2 ^ 32" using frame_ok_wire_len [OF f(1)] f(2) by simp
  moreover have "encode_record crc (rc_type r) (rc_txid r) (rc_key r) (rc_payload r) = Inr (wire crc (frame_of r))"
    using f(1) by (simp add: encode_record_Inr frame_of_def)
  moreover have "rc_segment r < 10 ^ 8" using R seg_ids_less by blast
  moreover have "bs = wire crc (frame_of r)"
    if "pool_inv p" "read_at env d p (rc_segment r) (rc_offset r) (rc_len r) = (Inr bs, p')" for env p bs p'
    using pool.read_record_sound [OF that(1) assms that(2)] by simp
  ultimately show ?thesis
    using R f(1) by (auto simp: frame_ok_def frame_of_def wire_len_def)
qed

theorem records_well_formed_witness:
  "encode_record ex_crc Put 1 [1] [2, 3] = Inr (bytes_at ex_dir \<lparr>ref_segment = 1, ref_offset = 0, ref_len = 31\<rparr>)"
proof -
  have "located 1 0 ex_frame \<in> set (log_records ex_crc ex_dir)" by simp
  from records_well_formed [OF this] show ?thesis by (simp add: located_def ref_of_record_def)
qed

end
