(* ===== verification/Cli_Properties.thy ===== *)
theory Cli_Properties
  imports Example_Store
begin

text \<open>
  Properties of the command-line tool (\<open>crates/datawal-cli/src/\<close>): what its subcommands
  print and return on a store, and the rendering and parsing of byte strings.
\<close>

section \<open>Exit codes and output\<close>

text \<open>
  C30.  Health: on a store that can be locked and read, \<open>verify\<close> and \<open>report\<close> exit with 0
  when the log is clean, 2 when the active segment has a torn tail, and 1 when any
  segment is damaged beyond that.  The exit code 3, documented for a damaged sealed
  segment, is never returned: \<open>open\<close> has failed before.
\<close>

theorem verify_reports_health:
  assumes "store_ready fl env fd k k' d"
  shows "exit_code (fst (cmd_verify fl env crc pid fd json k (Some d))) = health_exit crc d
    \<and> exit_code (fst (cmd_report fl env crc pid fd json k (Some d))) = health_exit crc d
    \<and> health_exit crc d \<in> {0, 1, 2} \<and> (health_exit crc d = 1 \<longleftrightarrow> \<not> recoverable crc d)
    \<and> (health_exit crc d = 0 \<longleftrightarrow> recoverable crc d \<and> active_tail crc d = [])"
  using cmd_verify_health [OF assms] cmd_report_health [OF assms] by (simp add: health_exit_def)

theorem verify_reports_health_witness:
  "exit_code (fst (cmd_verify ex_flock all_works ex_crc 0 5 True {} (Some (ex_torn 5)))) = 2"
proof -
  note T = ex_torn_facts [of 5, simplified]
  have "active_tail ex_crc (ex_torn 5) = take 5 (wire ex_crc ex_long)"
    using T(1) by (simp add: active_tail_def ex_torn_def)
  then have "health_exit ex_crc (ex_torn 5) = 2" using T(3) by (simp add: health_exit_def)
  then show ?thesis using verify_reports_health [OF T(4), of ex_crc 0 True] by simp
qed

text \<open>
  C31.  \<open>scan\<close> prints, one line each and in order, the records of the log that are not
  before the starting point, as many as the limit allows (but one even for
  \<open>--limit 0\<close>), exits with the health of the log, drops its lock and changes no segment.
\<close>

theorem scan_prints_records:
  assumes "store_ready fl env fd k k' d" and "recoverable crc d"
  shows "\<exists>d'. cmd_scan fl env crc b64 pid fd args json k (Some d) =
      (Inr (health_exit crc d),
       (case sa_limit args of None \<Rightarrow> id | Some n \<Rightarrow> take (max 1 n))
         (map (record_out b64 args json) (filter (\<lambda>r. \<not> before_start args r) (log_records crc d))),
       dir_lock_drop fl k' fd, Some d')
    \<and> (\<forall>sid\<in>set (seg_ids d). seg_content d' sid = seg_content d sid)"
proof -
  have l: "limited lim xs = (case lim of None \<Rightarrow> id | Some n \<Rightarrow> take (max 1 n)) xs" for lim and xs :: "'c list"
    by (simp add: limited_def split: option.split)
  show ?thesis using cmd_scan_records [OF assms] unfolding l .
qed

theorem scan_prints_records_witness:
  "\<exists>d'. cmd_scan ex_flock all_works ex_crc to_hex 0 5
      \<lparr>sa_limit = Some 0, sa_from_segment = None, sa_from_offset = None, sa_bytes = AutoArg, sa_no_truncate = False\<rparr>
      True {} (Some ex_dir) =
    (Inr 0, [JRecord (record_line_from_record to_hex (located 1 0 ex_frame))], {}, Some d')"
proof -
  have h: "health_exit ex_crc ex_dir = 0" by (simp add: health_exit_def active_tail_def)
  show ?thesis
    using scan_prints_records [OF ex_ready ex_dir_facts(7), of to_hex 0
        "\<lparr>sa_limit = Some 0, sa_from_segment = None, sa_from_offset = None, sa_bytes = AutoArg, sa_no_truncate = False\<rparr>" True]
    by (auto simp: h before_start_def record_out_def dir_lock_drop_def ex_flock_def)
qed

text \<open>
  C32.  \<open>get --json\<close> answers from the contents of the store: exit 0 and the value for a
  live key, exit 2 and a miss otherwise, also behind a torn tail.
\<close>

theorem get_answers_from_contents:
  assumes "store_ready fl env fd k k' d" and "recoverable crc d"
    and "decode_key b64_decode (ga_key args) (ga_key_base64 args) (ga_key_hex args) = Inr key"
  shows "case cmd_get fl env crc b64 b64_decode pid fd args True k (Some d) of (r, printed, _) \<Rightarrow>
    (case contents crc d key of
       Some v \<Rightarrow> r = Inr 0 \<and> printed = [JHit (value_hit_new b64 key v)]
     | None \<Rightarrow> r = Inr 2 \<and> printed = [JMiss (value_miss_new b64 key)])"
  using cmd_get_contents [OF assms, of b64 pid] by (auto split: prod.split option.split)

theorem get_answers_from_contents_witness:
  "fst (cmd_get ex_flock all_works ex_crc to_hex (\<lambda>_. None) 0 5
     \<lparr>ga_key = None, ga_key_base64 = None, ga_key_hex = Some (map of_char ''01''), ga_bytes = AutoArg, ga_no_truncate = False\<rparr>
     True {} (Some ex_dir)) = Inr 0"
proof -
  let ?args = "\<lparr>ga_key = None, ga_key_base64 = None, ga_key_hex = Some (map of_char ''01''), ga_bytes = AutoArg, ga_no_truncate = False\<rparr>"
  have "decode_key (\<lambda>_. None) (ga_key ?args) (ga_key_base64 ?args) (ga_key_hex ?args) = Inr [1]"
    using decode_hex_to_hex [of "[1]"] by (simp add: decode_key_def HEX_def)
  from get_answers_from_contents [OF ex_ready ex_dir_facts(7) this, of to_hex 0] show ?thesis
    by (auto simp: ex_contents split: prod.splits)
qed

text \<open>
  C33.  \<open>check\<close> reads every live key back: once the store is opened, it exits with 3 and
  prints nothing exactly when the read of the record of some live key fails, whichever key
  it is; otherwise it reports the number of the live keys and the torn bytes, and exits with
  the health of the log.  The lock is released in both cases.
\<close>

theorem check_reads_every_key:
  assumes "dir_ok d" and "dw_open fl env crc pid fd k (Some d) = (Inr w, k', Some d')"
  shows "\<exists>obj. cmd_check fl env crc pid fd True k (Some d) =
      (if \<exists>key r. live (log_records crc d) key = Some r \<and> \<not> works env (Pread (rc_segment r) (rc_offset r) (rc_len r))
       then (Inr 3, [], dir_lock_drop fl k' fd, Some d')
       else (Inr (health_exit crc d'), [JCheck obj], dir_lock_drop fl k' fd, Some d'))
    \<and> cho_keys_checked obj = card (dom (contents crc d))
    \<and> cho_tail_bytes_discarded obj = length (active_tail crc d')"
proof -
  define bad where "bad \<longleftrightarrow> (\<exists>key r. live (log_records crc d) key = Some r
    \<and> \<not> works env (Pread (rc_segment r) (rc_offset r) (rc_len r)))"
  have "all_readable env (log_records crc d) (dom (contents crc d)) \<longleftrightarrow> \<not> bad"
    by (auto simp: bad_def all_readable_def contents_def view_def)
  with cmd_check_reads [OF assms(2,1)] show ?thesis
    unfolding bad_def [symmetric] by (cases bad) simp_all
qed

text \<open>With every call working, and with a failing read of the only record.\<close>

definition ex_bad_sector :: os_env where
  "ex_bad_sector = all_works\<lparr>works := (\<lambda>c. c \<noteq> Pread 1 0 31)\<rparr>"

lemma ex_bad_sector_fields [simp]:
  "works ex_bad_sector c \<longleftrightarrow> c \<noteq> Pread 1 0 31" "pid_left ex_bad_sector = []" "written ex_bad_sector = 0"
  by (simp_all add: ex_bad_sector_def all_works_def)

lemma ex_bad_sector_open: "dw_open ex_flock ex_bad_sector = dw_open ex_flock all_works"
proof -
  have p: "pid_left all_works = []" by (simp add: all_works_def)
  have seg: "scan_segment ex_bad_sector = scan_segment all_works"
    by (simp add: scan_segment_def fun_eq_iff split: option.split)
  have "scan_ids ex_bad_sector crc d ids out = scan_ids all_works crc d ids out" for crc d ids out
    by (induction ids arbitrary: out) (simp_all add: seg Let_def split: sum.split)
  then have S: "scan_all ex_bad_sector = scan_all all_works" by (simp add: scan_all_def fun_eq_iff)
  have L: "list_segment_ids ex_bad_sector = list_segment_ids all_works"
    by (simp add: list_segment_ids_def fun_eq_iff)
  have R: "rebuild_keydir_lazy ex_bad_sector = rebuild_keydir_lazy all_works"
    by (simp add: rebuild_keydir_lazy_def rl_scan_iter_def for_items_scan L S fun_eq_iff split: sum.split)
  have A: "dir_lock_acquire ex_flock ex_bad_sector = dir_lock_acquire ex_flock all_works"
    by (simp add: dir_lock_acquire_def fun_eq_iff p Let_def split: option.split)
  have E: "ensure_segment ex_bad_sector = ensure_segment all_works"
    by (simp add: ensure_segment_def fun_eq_iff split: option.split)
  have Z: "segment_size ex_bad_sector = segment_size all_works"
    by (simp add: segment_size_def fun_eq_iff ex_bad_sector_def split: option.split node.split)
  have O: "open_scanned ex_bad_sector = open_scanned all_works"
    by (auto simp: open_scanned_def active_segment_id_def fun_eq_iff L S Z Let_def split: sum.split option.split)
  have c: "works ex_bad_sector CreateDirAll = works all_works CreateDirAll" by simp
  show ?thesis
    by (intro ext) (unfold dw_open_def rl_open_def A L E O R c, rule refl)
qed

theorem check_reads_every_key_witness:
  "(\<exists>obj d'. cmd_check ex_flock all_works ex_crc 0 5 True {} (Some ex_dir) = (Inr 0, [JCheck obj], {}, Some d')
      \<and> cho_keys_checked obj = 1)
   \<and> (\<exists>d'. cmd_check ex_flock ex_bad_sector ex_crc 0 5 True {} (Some ex_dir) = (Inr 3, [], {}, Some d'))"
proof
  have l: "live (log_records ex_crc ex_dir) [1] = Some (located 1 0 ex_frame)"
    by (simp add: live_def live_step_def located_def ex_frame_def)
  have "\<not> works ex_bad_sector (Pread (rc_segment (located 1 0 ex_frame)) (rc_offset (located 1 0 ex_frame)) (rc_len (located 1 0 ex_frame)))"
    by (simp add: located_def)
  with l have bad: "\<exists>key r. live (log_records ex_crc ex_dir) key = Some r
      \<and> \<not> works ex_bad_sector (Pread (rc_segment r) (rc_offset r) (rc_len r))" by blast
  have dr: "dir_lock_drop ex_flock {5} 5 = {}" by (simp add: dir_lock_drop_def ex_flock_def)
  obtain w d' where o: "dw_open ex_flock all_works ex_crc 0 5 {} (Some ex_dir) = (Inr w, {5}, Some d')"
    "seg_ids d' = [1]" "recoverable ex_crc d'" "seg_content d' 1 = seg_content ex_dir 1"
    using dw_open_contents [OF all_io_all_works ex_dir_facts(1,2) ex_flock_try [of 5] ex_dir_facts(7), where pid = 0]
    by (metis ex_dir_facts(3) list.distinct(1) list.set_intros(1))
  then have h: "health_exit ex_crc d' = 0"
    using seg_tail_cong [OF o(4), of ex_crc] by (simp add: health_exit_def active_tail_def)
  from check_reads_every_key [OF ex_dir_facts(1) o(1)]
  show "\<exists>obj d'. cmd_check ex_flock all_works ex_crc 0 5 True {} (Some ex_dir) = (Inr 0, [JCheck obj], {}, Some d')
      \<and> cho_keys_checked obj = 1"
    by (auto simp: dr h ex_contents)
  from o(1) have o: "dw_open ex_flock ex_bad_sector ex_crc 0 5 {} (Some ex_dir) = (Inr w, {5}, Some d')"
    by (simp only: ex_bad_sector_open)
  from check_reads_every_key [OF ex_dir_facts(1) o]
  show "\<exists>d'. cmd_check ex_flock ex_bad_sector ex_crc 0 5 True {} (Some ex_dir) = (Inr 3, [], {}, Some d')"
    unfolding if_P [OF bad] dr by blast
qed

text \<open>
  Inspecting a directory that does not exist creates a store there: \<open>report\<close> exits
  with 0 and leaves an empty first segment, although the inspection commands are
  documented as never writing to the source store.
\<close>

theorem inspection_creates_store:
  assumes "all_io env" and "fl_try_lock_exclusive fl k fd = Some k'"
  shows "\<exists>printed k2 d'. cmd_report fl env crc pid fd json k None = (Inr 0, printed, k2, Some d')
    \<and> seg_ids d' = [1] \<and> file_content d' (segment_name 1) \<noteq> None"
proof -
  have r: "recoverable crc []" by (simp add: recoverable_def)
  obtain d' where O: "seg_ids d' = [1]" "seg_content d' 1 = Some []"
    "rl_open fl env crc pid fd k (Some []) = (Inr (opened_log crc fd d'), k', Some d')"
    using rl_open_eq [OF assms(1) dir_ok_Nil openable_Nil assms(2), where crc = crc and pid = pid] r
    by (metis seg_ids_Nil)
  then have m: "rl_open fl env crc pid fd k None = (Inr (opened_log crc fd d'), k', Some d')"
    using rl_open_missing [of env fl crc pid fd k] assms(1) by simp
  have "active_tail crc d' = []"
    using seg_splitI(2) [of d' 1 crc "[]" "[]"] O(1,2) by (simp add: active_tail_def)
  with m O(1,2) opened_report(1) [of d' crc fd] opened_report(2) [of d' crc] show ?thesis
    by (simp add: cmd_report_def tail_exit_def seg_content_def)
qed

theorem inspection_creates_store_witness:
  "\<exists>printed k2 d'. cmd_report ex_flock all_works ex_crc 0 5 True {} None = (Inr 0, printed, k2, Some d') \<and> seg_ids d' = [1]"
  using inspection_creates_store [OF all_io_all_works ex_flock_try [of 5], of ex_crc 0 True] by blast

section \<open>Bytes on the command line\<close>

text \<open>
  Keys in hex: \<open>decode_key\<close> turns the hex notation of any bytes back into them, and
  accepts exactly the strings of even length made of hex digits.
\<close>

theorem hex_key_roundtrip:
  "decode_key b64_decode None None (Some (map of_char (to_hex bs))) = Inr bs
   \<and> ((\<exists>key. decode_key b64_decode None None (Some s) = Inr key) \<longleftrightarrow> even (length s) \<and> list_all is_hex_byte s)"
  using decode_chunks_Inr [of s]
  by (auto simp: decode_key_def decode_hex_to_hex) (auto simp: decode_hex_def odd_iff_mod_2_eq_one split: if_splits)

text \<open>
  Human rendering is unambiguous: what \<open>scan\<close> prints for printable keys, quoted and
  escaped or bare, determines the bytes when nothing is cut off.
\<close>

theorem printed_literal_roundtrip:
  "unliteral (literal bs None) = ascii_string bs \<and> (literal bs None = literal bs' None \<longleftrightarrow> bs = bs')"
  by (metis unliteral_literal ascii_string_inj)

text \<open>
  Human \<open>get\<close> cuts a long value without saying so: two printable values that agree on
  their first 64 bytes are printed alike, and with the same exit code.
\<close>

lemma get_hides_the_cut:
  assumes "is_printable_ascii v" and "is_printable_ascii v'"
    and "take DEFAULT_TRUNCATE_BYTES v = take DEFAULT_TRUNCATE_BYTES v'"
  shows "render_value_for_get b64 v mode (truncate_for False) = render_value_for_get b64 v' mode (truncate_for False)"
proof -
  have "slice_truncated v (truncate_for False) = slice_truncated v' (truncate_for False)"
    using assms(3) by (auto simp: slice_truncated_def truncate_for_def)
  with assms(1,2) show ?thesis by (simp add: render_value_for_get_def split: bytes_mode.split)
qed

section \<open>The command line as a whole\<close>

text \<open>
  C17.  Any subcommand, run with any arguments against any operating system, exits with a
  code from 0 to 3, releases every lock it took, overwrites no existing file, and keeps
  every directory that is not empty: its records, and the bytes of every segment it had.
\<close>

theorem cli_is_read_only:
  assumes "flock_laws (ho_flock h) holders" and "cli_main h c wd = (code, lines, wd')"
  shows "code \<le> 3
    \<and> (\<forall>p. holders (wd_locks wd' p) = holders (wd_locks wd p))
    \<and> (\<forall>p x. wd_files wd p = Some x \<longrightarrow> wd_files wd' p = Some x)
    \<and> (\<forall>p d. wd_dirs wd p = Some d \<longrightarrow> dir_ok d \<longrightarrow> d \<noteq> [] \<longrightarrow>
         (\<exists>d'. wd_dirs wd' p = Some d' \<and> (\<forall>crc. log_records crc d' = log_records crc d)
           \<and> (\<forall>sid\<in>set (seg_ids d). seg_content d' sid = seg_content d sid)))"
proof -
  obtain r where r: "dispatch h c wd = (r, lines, wd')" "code = exit_code r"
    using assms(2) by (auto simp: cli_main_def split: prod.splits)
  from dispatch_kept [OF assms(1) r(1)] show ?thesis
    unfolding r(2) world_kept_def log_kept_def by blast
qed

theorem cli_is_read_only_witness:
  "\<exists>code lines wd' d'. cli_main ex_host \<lparr>cli_json = True, cli_command = Compact ''s'' ''t''\<rparr> ex_world = (code, lines, wd')
    \<and> code \<le> 3 \<and> wd_locks wd' ''s'' = {} \<and> wd_dirs wd' ''s'' = Some d'
    \<and> log_records ex_crc d' = log_records ex_crc ex_dir"
proof -
  obtain code lines wd' where m:
    "cli_main ex_host \<lparr>cli_json = True, cli_command = Compact ''s'' ''t''\<rparr> ex_world = (code, lines, wd')"
    by (metis prod_cases3)
  have "flock_laws (ho_flock ex_host) id" "ex_dir \<noteq> []" "wd_dirs ex_world ''s'' = Some ex_dir" "wd_locks ex_world = (\<lambda>p. {})"
    by (simp_all add: ex_host_def ex_flock_laws ex_dir_def one_segment_def ex_world_def)
  with cli_is_read_only [OF _ m, of id] m show ?thesis using ex_dir_facts(1) by (metis id_apply)
qed

end
