(* ===== verification/Power_Loss_Crash.thy ===== *)
theory Power_Loss_Crash
  imports Power_Loss_Correct
begin

text \<open>
  The power-loss workload stopped anywhere: one operation whose system calls may fail at
  any point, and a crash behind it.  The operation in flight has happened, in the store,
  or it has not.
\<close>

section \<open>An append of any result and a crash\<close>

lemma append_crash:
  assumes inv: "rl_inv crc log d" and a: "rl_append_record env crc log d rt k v = (res, log', d')"
    and cr: "crash \<lparr>wl_log = log2, wl_dir = d', wl_synced = length (seg_bytes d (rl_active_id log))\<rparr> dc"
  shows "dir_ok dc" "recoverable crc dc"
    "contents crc dc = contents crc d \<or> contents crc dc = kv_step (contents crc d) rt k v"
proof -
  let ?n = "length (seg_bytes d (rl_active_id log))"
  have st: "wal_step crc \<lparr>wl_log = log, wl_dir = d, wl_synced = ?n\<rparr> (CallAppend rt k v)
      \<lparr>wl_log = log', wl_dir = d', wl_synced = ?n\<rparr>"
    by (rule wal_step.appended [OF a])
  note F = fsynced_all [OF inv]
  note S = wal_step_inv [OF st F(1)]
  from S have f: "forced crc \<lparr>wl_log = log2, wl_dir = d', wl_synced = ?n\<rparr>"
    by (simp add: wal_inv_def forced_def)
  have dur: "prefix (log_records crc d) (durable_records crc \<lparr>wl_log = log2, wl_dir = d', wl_synced = ?n\<rparr>)"
    using S F(2) by (simp add: durable_records_def)
  note P = crash_image [OF f cr]
  show "dir_ok dc" "recoverable crc dc" by (rule P)+
  from wal_run_records [OF wr_step [OF wr_refl st] F(1)] obtain more where
    m: "log_records crc d' = log_records crc d @ more" "subseq (map rec_content more) [(rt, k, v)]"
    by auto
  from P(3) dur obtain more' where m': "log_records crc dc = log_records crc d @ more'"
    by (metis prefixE prefix_order.trans)
  have "prefix more' more" using P(4) m(1) m' by simp
  then have "subseq (map rec_content more') (map rec_content more)"
    by (intro prefix_imp_subseq map_mono_prefix)
  then have "subseq (map rec_content more') [(rt, k, v)]" using m(2) by (rule subseq_order.trans)
  then have "more' = [] \<or> (\<exists>r. more' = [r] \<and> rec_content r = (rt, k, v))"
    by (cases more') (auto split: if_splits dest: list_emb_Nil2)
  then show "contents crc dc = contents crc d \<or> contents crc dc = kv_step (contents crc d) rt k v"
    using m' by (auto simp: contents_def view_snoc rec_content_def)
qed

section \<open>One operation of the workload\<close>

text \<open>The line that the operation adds to the oracle once it is durable.\<close>

definition op_line :: "(bytes \<Rightarrow> string) \<Rightarrow> workload_cli \<Rightarrow> u64 \<Rightarrow> oracle_line" where
  "op_line b64 cli seq =
     (let key = key_for (wc_seed cli) seq (wc_key_len cli) in
      if seq mod DELETE_EVERY = DELETE_EVERY - 1 then ODel seq (b64 key)
      else OPut seq (b64 key) (b64 (value_for (wc_seed cli) seq (wc_value_len cli))))"

definition crash_of :: "workload_state \<Rightarrow> workload_state \<Rightarrow> dir \<Rightarrow> bool" where
  "crash_of s0 s d' \<longleftrightarrow> crash \<lparr>wl_log = dw_log (ws_log s), wl_dir = ws_dir s,
     wl_synced = length (seg_bytes (ws_dir s0) (rl_active_id (dw_log (ws_log s0))))\<rparr> d'"

lemma write_oracle_line_any:
  "write_oracle_line io json oracle l = (r, o1) \<Longrightarrow> \<exists>n. o1 = oracle @ take n (json l @ ''\<newline>'')"
  by (auto simp: write_oracle_line_def Let_def split: option.splits intro: exI [of _ "Suc (length (json l))"])

lemma workload_op_crash:
  assumes inv: "workload_inv crc b64_dec json s" and b64: "\<And>bs. b64_dec (b64 bs) = Some bs"
    and op: "workload_op env oracle_io crc b64 json cli s = (res, s')"
    and cr: "crash_of s s' d'"
  defines "l \<equiv> op_line b64 cli (ws_seq s)"
  shows "dir_ok d'" "openable d'" "recoverable crc d'"
    "contents crc d' = contents crc (ws_dir s) \<or> contents crc d' = line_step b64_dec (contents crc (ws_dir s)) l"
    "\<exists>n. ws_oracle s' = ws_oracle s @ take n (json l @ ''\<newline>'')"
proof -
  have I: "dw_inv crc (ws_log s) (ws_dir s)" "openable (ws_dir s)" using inv by (auto simp: workload_inv_def)
  have rinv: "rl_inv crc (dw_log (ws_log s)) (ws_dir s)" using I(1) by (simp add: dw_inv_def)
  let ?k = "key_for (wc_seed cli) (ws_seq s) (wc_key_len cli)"
  let ?v = "value_for (wc_seed cli) (ws_seq s) (wc_value_len cli)"
  have A: "\<exists>rt v res1 log1. rl_append_record (env (ws_seq s)) crc (dw_log (ws_log s)) (ws_dir s) rt ?k v = (res1, log1, ws_dir s')
      \<and> kv_step (contents crc (ws_dir s)) rt ?k v = line_step b64_dec (contents crc (ws_dir s)) l
      \<and> (\<exists>n. ws_oracle s' = ws_oracle s @ take n (json l @ ''\<newline>''))"
  proof (cases "ws_seq s mod DELETE_EVERY = DELETE_EVERY - 1")
    case True
    then have l: "l = ODel (ws_seq s) (b64 ?k)" by (simp add: l_def op_line_def)
    show ?thesis
      using op True b64
      by (intro exI [of _ Delete] exI [of _ "[]"])
        (auto simp: workload_op_def l kv_step_def Let_def dw_delete_def split: prod.splits sum.splits
          dest!: write_oracle_line_any intro: exI [of _ 0])
  next
    case False
    then have l: "l = OPut (ws_seq s) (b64 ?k) (b64 ?v)" by (simp add: l_def op_line_def)
    show ?thesis
      using op False b64
      by (intro exI [of _ Put] exI [of _ ?v])
        (auto simp: workload_op_def l kv_step_def Let_def dw_put_def split: prod.splits sum.splits
          dest!: write_oracle_line_any intro: exI [of _ 0])
  qed
  then obtain rt v res1 log1 where
    a: "rl_append_record (env (ws_seq s)) crc (dw_log (ws_log s)) (ws_dir s) rt ?k v = (res1, log1, ws_dir s')"
    and k: "kv_step (contents crc (ws_dir s)) rt ?k v = line_step b64_dec (contents crc (ws_dir s)) l" by blast
  note C = append_crash [OF rinv a cr [unfolded crash_of_def]]
  show "dir_ok d'" "recoverable crc d'" by (rule C)+
  show "contents crc d' = contents crc (ws_dir s) \<or> contents crc d' = line_step b64_dec (contents crc (ws_dir s)) l"
    using C(3) k by simp
  show "openable d'"
    using crash_openable [OF cr [unfolded crash_of_def]] append_record_openable [OF a I(2)] by simp
  show "\<exists>n. ws_oracle s' = ws_oracle s @ take n (json l @ ''\<newline>'')" using A by blast
qed

section \<open>A run that stops anywhere\<close>

text \<open>
  The state after the last operation that ended well: each of them ended with an
  \<open>fsync\<close>, so all bytes of this state are forced.
\<close>

function last_acked ::
  "(u64 \<Rightarrow> os_env) \<Rightarrow> (u64 \<Rightarrow> bool) \<Rightarrow> (u64 \<Rightarrow> nat option) \<Rightarrow> (bytes \<Rightarrow> u32) \<Rightarrow> (bytes \<Rightarrow> string)
   \<Rightarrow> (oracle_line \<Rightarrow> string) \<Rightarrow> workload_cli \<Rightarrow> u64 \<Rightarrow> workload_state \<Rightarrow> workload_state" where
  "last_acked env time_up oracle_io crc b64 json cli budget s =
     (if budget \<le> ws_seq s then s
      else if wc_duration cli \<noteq> 0 \<and> time_up (ws_seq s) then s
      else case workload_op env oracle_io crc b64 json cli s of
        (Inl e, s') \<Rightarrow> s
      | (Inr _, s') \<Rightarrow> last_acked env time_up oracle_io crc b64 json cli budget s')"
  by pat_completeness auto

termination
  by (relation "measure (\<lambda>(env, time_up, oracle_io, crc, b64, json, cli, budget, s). unat budget - unat (ws_seq s))")
    (auto dest!: workload_op_seq [OF sym] intro: seq_progress)

declare last_acked.simps [simp del]

lemma workload_loop_stop:
  assumes "workload_loop env time_up oracle_io crc b64 json cli budget s = (res, s')"
    and "workload_inv crc b64_dec json s" and "\<And>bs. b64_dec (b64 bs) = Some bs"
  defines "s0 \<equiv> last_acked env time_up oracle_io crc b64 json cli budget s"
  shows "workload_inv crc b64_dec json s0 \<and>
    (if res = Inr () then s' = s0 else workload_op env oracle_io crc b64 json cli s0 = (res, s'))"
  unfolding s0_def using assms(1-3)
proof (induction env time_up oracle_io crc b64 json cli budget s rule: workload_loop.induct)
  case (1 env time_up oracle_io crc b64 json cli budget s)
  note L = 1(2) [unfolded workload_loop.simps [of env time_up oracle_io crc b64 json cli budget s]]
  show ?case
  proof (cases "budget \<le> ws_seq s \<or> wc_duration cli \<noteq> 0 \<and> time_up (ws_seq s)")
    case True
    then show ?thesis using L 1(3) by (subst (1 2) last_acked.simps) (auto split: if_splits)
  next
    case False
    obtain r1 s1 where op: "workload_op env oracle_io crc b64 json cli s = (r1, s1)" by force
    show ?thesis
    proof (cases r1)
      case (Inl e)
      then have "last_acked env time_up oracle_io crc b64 json cli budget s = s"
        using False op by (subst last_acked.simps) auto
      then show ?thesis using L Inl False op 1(3) by (auto split: if_splits)
    next
      case (Inr u)
      then have e: "last_acked env time_up oracle_io crc b64 json cli budget s =
          last_acked env time_up oracle_io crc b64 json cli budget s1"
        using False op by (subst last_acked.simps) auto
      have "workload_inv crc b64_dec json s1" using workload_op_inv [OF 1(3,4)] op Inr by simp
      moreover have "workload_loop env time_up oracle_io crc b64 json cli budget s1 = (res, s')"
        using L False op Inr by (auto split: if_splits)
      ultimately show ?thesis
        unfolding e using False op Inr 1(4) by (intro 1(1)) auto
    qed
  qed
qed

lemma workload_start_inv:
  assumes "dw_open fl env0 crc pid fd k (Some []) = (Inr w, k1, Some d)"
  shows "workload_inv crc b64_dec json \<lparr>ws_seq = 0, ws_puts = 0, ws_dels = 0, ws_log = w, ws_dir = d, ws_oracle = []\<rparr>"
proof -
  have "dw_inv crc w d \<and> contents crc d = Map.empty"
    by (rule dw_open_fresh [OF assms dir_ok_Nil seg_ids_Nil]) auto
  then show ?thesis
    using dw_open_openable [OF assms]
    by (auto simp: workload_inv_def openable_Nil oracle_text_def intro!: exI [of _ "[]"])
qed

text \<open>The validator's verdict on a store and the oracle of some lines.\<close>

lemma validate_lines:
  fixes pid fd fd2 sample :: nat
  assumes d: "dir_ok d" "openable d" "recoverable crc d" and json: "json_laws json parse"
    and ls: "list_all (decodable b64_dec) ls"
    and io: "all_io env1" "all_io env2" "all_io env3" and fl: "flock_laws fl holders" "holders k = {}"
  defines "r \<equiv> validate_run fl env1 env2 env3 crc b64_dec parse pid fd fd2 sample k (Some d) (Some (oracle_text json ls))"
    and "m \<equiv> foldl (line_step b64_dec) Map.empty ls"
  shows "(\<exists>x. r = Inr x) \<longleftrightarrow> dom (contents crc d) \<subseteq> dom m \<and> (sample = 0 \<or> contents crc d \<subseteq>\<^sub>m m)"
    and "r = Inr x \<Longrightarrow> vs_dropped x = card (dom m - dom (contents crc d))"
proof -
  obtain agg where A: "load_oracle b64_dec parse (Some (oracle_text json ls)) = Inr agg" "oracle_map (oa_effect agg) = m"
    using load_oracle_text [OF json ls] unfolding m_def by auto
  obtain store d2 where V: "kd_inv crc store d2" "contents crc d2 = contents crc d"
    "validate_run fl env1 env2 env3 crc b64_dec parse pid fd fd2 sample k (Some d) (Some (oracle_text json ls)) =
       validate_store env3 crc sample (oa_effect agg) store d2"
    by (rule validate_run_result [OF A(1) d io(1,2) fl], rule that)
  note R = validate_store_result [OF V(1) io(3) load_oracle_distinct [OF A(1)], of sample,
      folded V(3), folded r_def, unfolded A(2) V(2)]
  show "(\<exists>x. r = Inr x) \<longleftrightarrow> dom (contents crc d) \<subseteq> dom m \<and> (sample = 0 \<or> contents crc d \<subseteq>\<^sub>m m)"
    by (rule R(1))
  show "r = Inr x \<Longrightarrow> vs_dropped x = card (dom m - dom (contents crc d))" by (rule R(2))
qed

lemma validate_accepts:
  assumes "dir_ok d" "openable d" "recoverable crc d" "json_laws json parse" "list_all (decodable b64_dec) ls"
    and "foldl (line_step b64_dec) Map.empty ls = contents crc d"
    and "all_io env1" "all_io env2" "all_io env3" "flock_laws fl holders" "holders k = {}"
  shows "\<exists>x. validate_run fl env1 env2 env3 crc b64_dec parse pid fd fd2 sample k (Some d) (Some (oracle_text json ls))
      = Inr x \<and> vs_dropped x = 0"
  using validate_lines [OF assms(1-5,7-11), of pid fd fd2 sample] assms(6)
  by (metis Diff_cancel card.empty map_le_refl order_refl)

end
