(* ===== verification/Example_Oracle.thy ===== *)
theory Example_Oracle
  imports Example_Store Power_Loss_Crash
begin

text \<open>
  A concrete oracle-line format with the law that the harness asks of JSON, and a workload
  of one operation.
\<close>

section \<open>A line format\<close>

definition ex_hex :: "string \<Rightarrow> string" where "ex_hex s = to_hex (map of_char s)"

definition ex_text :: "string \<Rightarrow> string" where "ex_text h = ascii_string (the (ex_unhex h))"

fun ex_json :: "oracle_line \<Rightarrow> string" where
  "ex_json (OPut seq k v) =
     ''put'' @ CHR 0x22 # to_hex (le_bytes 8 seq) @ CHR 0x22 # ex_hex k @ CHR 0x22 # ex_hex v"
| "ex_json (ODel seq k) = ''del'' @ CHR 0x22 # to_hex (le_bytes 8 seq) @ CHR 0x22 # ex_hex k"

definition ex_parse :: "string \<Rightarrow> oracle_line option" where
  "ex_parse s =
     (let (op, s1) = ex_quoted s; (seq, s2) = ex_quoted s1; n = le_word (the (ex_unhex seq)) in
      if op = ''put'' then let (k, v) = ex_quoted s2 in Some (OPut n (ex_text k) (ex_text v))
      else if op = ''del'' then Some (ODel n (ex_text s2)) else None)"

lemma ascii_of_char: "ascii_string (map of_char s) = s"
proof (induction s)
  case (Cons c s)
  have "unat (of_char c :: u8) = of_char c"
    by (subst of_nat_of_char [symmetric]) (simp only: unat_of_nat, simp)
  with Cons show ?case by (simp add: ascii_string_def)
qed (simp add: ascii_string_def)

lemma ex_text_hex [simp]: "ex_text (ex_hex s) = s"
  by (simp add: ex_text_def ex_hex_def ex_row_laws(1) ascii_of_char)

lemma to_hex_no: "CHR 0x22 \<notin> set (to_hex bs)" "CHR 0x0A \<notin> set (to_hex bs)" "CHR 0x0D \<notin> set (to_hex bs)"
  using to_hex_chars [of bs] by (auto simp: HEX_def)

lemma ex_quoted_put: "ex_quoted (''put'' @ CHR 0x22 # rest) = (''put'', rest)"
  "ex_quoted (''del'' @ CHR 0x22 # rest) = (''del'', rest)"
  by (rule ex_quoted_simp, simp)+

lemma ex_json_laws: "json_laws ex_json ex_parse"
proof -
  have "ex_parse (ex_json l) = Some l" for l
    by (cases l) (simp_all only: ex_json.simps ex_parse_def ex_quoted_put Let_def split,
        simp_all add: ex_hex_def ex_quoted_simp [OF to_hex_no(1)] ex_row_laws(1) ex_text_def ascii_of_char)
  moreover have "\<not> blank (ex_json l)" "CHR 0x0A \<notin> set (ex_json l)" "CHR 0x0D \<notin> set (ex_json l)" for l
    by (cases l; simp add: blank_def ex_hex_def to_hex_no)+
  ultimately show ?thesis by (simp add: json_laws_def)
qed

section \<open>A run of one operation\<close>

lemma put_unpoisoned: "dw_put env crc w d k v = (Inr u, w', d') \<Longrightarrow> rl_poisoned (dw_log w') = None"
  by (auto simp: dw_put_def rl_append_record_def check_poisoned_def Let_def
      split: prod.splits sum.splits if_splits option.splits)

definition ex_cli :: workload_cli where
  "ex_cli = \<lparr>wc_work_dir = ''wal'', wc_oracle = ''oracle.jsonl'', wc_seed = 1, wc_ops = 1,
     wc_duration = 0, wc_key_len = 4, wc_value_len = 4\<rparr>"

text \<open>The store the workload opens, and its first put.\<close>

lemma ex_first_put:
  obtains w k1 d w1 d1 where "dw_open ex_flock all_works ex_crc 0 5 {} (Some []) = (Inr w, k1, Some d)"
    "dw_inv ex_crc w d" "openable d" "contents ex_crc d = Map.empty" "rl_active_id (dw_log w) = 1"
    "dw_put all_works ex_crc w d (key_for 1 0 4) (value_for 1 0 4) = (Inr (), w1, d1)"
    "rl_poisoned (dw_log w1) = None" "rl_active_id (dw_log w1) = 1"
proof -
  obtain w k1 dopt where O: "dw_open ex_flock all_works ex_crc 0 5 {} (Some []) = (Inr w, k1, dopt)"
    by (rule dw_open_contents [OF all_io_all_works dir_ok_Nil openable_Nil ex_flock_try [of 5], of ex_crc 0])
      (auto simp: recoverable_def intro: that)
  obtain d where D: "dopt = Some d" "dw_inv ex_crc w d" "rl_active_size (dw_log w) = 0" "rl_next_txid (dw_log w) = 1"
    "contents ex_crc d = Map.empty"
    by (rule dw_open_fresh [OF O dir_ok_Nil seg_ids_Nil], rule that)
  have len: "length (key_for 1 0 4) = 4" "length (value_for 1 0 4) = 4"
    by (simp_all add: key_for_def value_for_def length_fill)
  obtain w1 d1 where P: "dw_put all_works ex_crc w d (key_for 1 0 4) (value_for 1 0 4) = (Inr (), w1, d1)"
    using put_room [OF D(2) all_io_all_works, of "key_for 1 0 4" "value_for 1 0 4"] D(3,4) len
    by (auto simp: room_def wire_consts record_wire_size_def)
  have a: "rl_active_id (dw_log w) = 1"
    by (rule dw_open_Inr [OF O dir_ok_Nil]) (simp add: opened_log_fields)
  then have "rl_active_id (dw_log w1) = 1"
    using P by (auto simp: dw_put_def rl_append_record_def Let_def split: prod.splits sum.splits if_splits option.splits)
  with that O D(1,2,5) P put_unpoisoned [OF P] a dw_open_openable [OF O [unfolded D(1)] openable_Nil] show ?thesis by blast
qed

lemma ex_workload:
  "\<exists>s. workload_run ex_flock all_works (\<lambda>_. all_works) all_works (\<lambda>_. False) (\<lambda>_. None) True True True
     ex_crc to_hex ex_json 0 5 ex_cli {} (Some []) = (Inr (), Some s)
   \<and> ws_oracle s = oracle_text ex_json [OPut 0 (to_hex (key_for 1 0 4)) (to_hex (value_for 1 0 4))]"
proof -
  obtain w k1 d w1 d1 where S: "dw_open ex_flock all_works ex_crc 0 5 {} (Some []) = (Inr w, k1, Some d)"
    "dw_put all_works ex_crc w d (key_for 1 0 4) (value_for 1 0 4) = (Inr (), w1, d1)"
    "rl_poisoned (dw_log w1) = None"
    by (rule ex_first_put)
  have "dw_fsync all_works w1 = (Inr (), w1)"
    using S(3) by (simp add: dw_fsync_def rl_fsync_def check_poisoned_def)
  with S show ?thesis
    by (simp add: workload_run_def ex_cli_def workload_loop.simps workload_op_def DELETE_EVERY_def
        write_oracle_line_def oracle_text_def)
qed

text \<open>A run whose first \<open>fsync\<close> fails: the put is in the file, and not in the oracle.\<close>

definition ex_no_sync :: os_env where
  "ex_no_sync = \<lparr>works = (\<lambda>c. c \<noteq> SyncAll 1), written = 0, pid_left = [], node_len = (\<lambda>_. 0)\<rparr>"

lemma append_record_env:
  "works env (WriteAll (rl_active_id log)) \<Longrightarrow> works env' (WriteAll (rl_active_id log)) \<Longrightarrow>
   rl_append_record env crc log d rt k v = rl_append_record env' crc log d rt k v"
  by (auto simp: rl_append_record_def Let_def split: sum.split)

lemma ex_stopped:
  obtains w k1 d w1 d1 s where "dw_open ex_flock all_works ex_crc 0 5 {} (Some []) = (Inr w, k1, Some d)"
    "workload_loop (\<lambda>_. ex_no_sync) (\<lambda>_. False) (\<lambda>_. None) ex_crc to_hex ex_json ex_cli 1
      \<lparr>ws_seq = 0, ws_puts = 0, ws_dels = 0, ws_log = w, ws_dir = d, ws_oracle = []\<rparr> = (Inl (Wal (Io (SyncAll 1))), s)"
    "last_acked (\<lambda>_. ex_no_sync) (\<lambda>_. False) (\<lambda>_. None) ex_crc to_hex ex_json ex_cli 1
      \<lparr>ws_seq = 0, ws_puts = 0, ws_dels = 0, ws_log = w, ws_dir = d, ws_oracle = []\<rparr> =
      \<lparr>ws_seq = 0, ws_puts = 0, ws_dels = 0, ws_log = w, ws_dir = d, ws_oracle = []\<rparr>"
    "ws_oracle s = []" "ws_dir s = d1" "dw_inv ex_crc w1 d1" "openable d1"
    "contents ex_crc d1 = [key_for 1 0 4 \<mapsto> value_for 1 0 4]"
    "rl_active_id (dw_log w) = 1" "rl_active_id (dw_log w1) = 1"
    "length (seg_bytes d 1) \<le> length (seg_bytes d1 1)"
proof -
  obtain w k1 d w1 d1 where S: "dw_open ex_flock all_works ex_crc 0 5 {} (Some []) = (Inr w, k1, Some d)"
    "dw_inv ex_crc w d" "openable d" "contents ex_crc d = Map.empty" "rl_active_id (dw_log w) = 1"
    "dw_put all_works ex_crc w d (key_for 1 0 4) (value_for 1 0 4) = (Inr (), w1, d1)"
    "rl_poisoned (dw_log w1) = None" "rl_active_id (dw_log w1) = 1"
    by (rule ex_first_put)
  let ?s0 = "\<lparr>ws_seq = 0, ws_puts = 0, ws_dels = 0, ws_log = w, ws_dir = d, ws_oracle = []\<rparr>"
  have "dw_put ex_no_sync ex_crc w d (key_for 1 0 4) (value_for 1 0 4) = (Inr (), w1, d1)"
    using S(6) append_record_env [of ex_no_sync "dw_log w" all_works]
    by (simp add: dw_put_def ex_no_sync_def)
  moreover have "\<exists>w2. dw_fsync ex_no_sync w1 = (Inl (Io (SyncAll 1)), w2)"
    using S(7,8) by (simp add: dw_fsync_def rl_fsync_def check_poisoned_def ex_no_sync_def)
  ultimately obtain s where op: "workload_op (\<lambda>_. ex_no_sync) (\<lambda>_. None) ex_crc to_hex ex_json ex_cli ?s0 =
      (Inl (Wal (Io (SyncAll 1))), s)" "ws_oracle s = []" "ws_dir s = d1"
    by (auto simp: workload_op_def ex_cli_def DELETE_EVERY_def)
  have "length (seg_bytes d 1) \<le> length (seg_bytes d1 1)"
    using S(6) by (auto simp: dw_put_def rl_append_record_def Let_def S(5) seg_bytes_def seg_content_append
        split: prod.splits sum.splits if_splits option.splits)
  with op S put_Inr [OF S(2,6)] put_openable [OF S(6,3)] show ?thesis
    by (intro that [of w k1 d s d1 w1]) (simp_all add: workload_loop.simps last_acked.simps ex_cli_def)
qed

end
