(* ===== verification/Soak.thy ===== *)
theory Soak
  imports Power_Loss_Validate Cli_Main
begin

text \<open>
  The long-running soak test \<open>crates/datawal-core/examples/soak.rs\<close>: arguments, input
  streams, the operation loop with its compaction by swapping directories, and the final
  comparison with the map built in memory.  Directories live in a \<open>world\<close>, since the test
  removes, creates and renames them; a removal or a renaming does all or nothing.  A hash map
  is the list of its entries.  \<open>n\<close> is the number of operations the clock lets start.
  Messages are not modelled, the rows of \<open>soak.csv\<close> are.
\<close>

section \<open>Input streams\<close>

record soak_record =
  so_key :: bytes
  so_payload :: bytes

datatype tree_call = RemoveTarget | RemoveWork | RenameTarget | CreateWorkDirs | CreateLogDirs | CreateCsv

datatype soak_error =
    OpenInput string | BadLine string | BadBase64Field | EmptyInput string
  | SoakStore error | TreeCall tree_call | CsvWrite | Panic
  | KeydirMismatch nat nat nat nat
  | ValueMismatch nat "nat option" "nat option"

fun jsonl_lines ::
  "(string \<Rightarrow> bytes option) \<Rightarrow> (string \<Rightarrow> (string \<times> string) option) \<Rightarrow> string \<Rightarrow> string list
   \<Rightarrow> soak_error + soak_record list" where
  "jsonl_lines b64_dec parse path [] = Inr []"
| "jsonl_lines b64_dec parse path (line # rest) =
     (if blank line then jsonl_lines b64_dec parse path rest
      else case parse line of
        None \<Rightarrow> Inl (BadLine path)
      | Some (key, payload) \<Rightarrow>
          (case b64_dec key of
             None \<Rightarrow> Inl BadBase64Field
           | Some k \<Rightarrow>
               (case b64_dec payload of
                  None \<Rightarrow> Inl BadBase64Field
                | Some v \<Rightarrow>
                    (case jsonl_lines b64_dec parse path rest of
                       Inl e \<Rightarrow> Inl e
                     | Inr out \<Rightarrow> Inr (\<lparr>so_key = k, so_payload = v\<rparr> # out)))))"

definition load_jsonl ::
  "(string \<Rightarrow> bytes option) \<Rightarrow> (string \<Rightarrow> (string \<times> string) option) \<Rightarrow> (string \<Rightarrow> string option) \<Rightarrow> string
   \<Rightarrow> soak_error + soak_record list" where
  "load_jsonl b64_dec parse files path =
     (case files path of
        None \<Rightarrow> Inl (OpenInput path)
      | Some content \<Rightarrow>
          (case jsonl_lines b64_dec parse path (buf_lines [] content) of
             Inl e \<Rightarrow> Inl e
           | Inr out \<Rightarrow> if out = [] then Inl (EmptyInput path) else Inr out))"

section \<open>Process metrics\<close>

definition is_space :: "char \<Rightarrow> bool" where
  "is_space c \<longleftrightarrow> (9 \<le> (of_char c :: nat) \<and> (of_char c :: nat) \<le> 13) \<or> c = CHR '' ''"

text \<open>The loop over the lines of \<open>/proc/self/status\<close>.\<close>

fun rss_lines :: "string list \<Rightarrow> nat option" where
  "rss_lines [] = None"
| "rss_lines (line # rest) =
     (if take 6 line = ''VmRSS:'' then
        (let v = takeWhile (\<lambda>c. \<not> is_space c) (dropWhile is_space (drop 6 line)) in
         if v = [] then None else parse_u64 v)
      else rss_lines rest)"

definition read_rss_kb :: "string option \<Rightarrow> nat option" where
  "read_rss_kb status = (case status of None \<Rightarrow> None | Some s \<Rightarrow> rss_lines (buf_lines [] s))"

definition read_fd_count :: "string list option \<Rightarrow> nat option" where
  "read_fd_count entries = map_option length entries"

fun looks_like_segment :: "os_name \<Rightarrow> bool" where
  "looks_like_segment (NonUtf8 _) = False"
| "looks_like_segment (Utf8 name) \<longleftrightarrow>
     length name = 13 \<and> suffix ''.dwal'' name \<and> list_all is_ascii_digit (take 8 name)"

definition count_segments :: "os_env \<Rightarrow> dir option \<Rightarrow> error + nat" where
  "count_segments env dopt =
     (case dopt of
        None \<Rightarrow> Inl (Io ReadDir)
      | Some d \<Rightarrow>
          if \<not> works env ReadDir then Inl (Io ReadDir)
          else Inr (length (filter (\<lambda>(name, _). looks_like_segment name) d)))"

definition or_zero :: "nat option \<Rightarrow> nat" where
  "or_zero x = (case x of Some n \<Rightarrow> n | None \<Rightarrow> 0)"

section \<open>Arguments\<close>

datatype soak_mode = Synthetic | Real

datatype soak_arg_error = ArgError arg_error | BadMode string | BadEnv string | EnvRequired string

record soak_cli =
  sc_mode :: soak_mode
  sc_duration :: nat
  sc_rotate_every :: nat
  sc_compact_every :: nat
  sc_progress_secs :: nat
  sc_log_dir :: string
  sc_work_dir :: string
  sc_small :: "string option"
  sc_medium :: "string option"
  sc_large :: "string option"

fun soak_args_loop :: "string list \<Rightarrow> soak_mode \<Rightarrow> soak_arg_error + soak_mode" where
  "soak_args_loop [] mode = Inr mode"
| "soak_args_loop [arg] mode =
     Inl (ArgError (if arg = ''--mode'' then RequiresValue arg else UnknownArg arg))"
| "soak_args_loop (arg # v # rest) mode =
     (if arg \<noteq> ''--mode'' then Inl (ArgError (UnknownArg arg))
      else if v = ''synthetic'' then soak_args_loop rest Synthetic
      else if v = ''real'' then soak_args_loop rest Real
      else Inl (BadMode v))"

definition env_number :: "(string \<Rightarrow> string option) \<Rightarrow> string \<Rightarrow> nat \<Rightarrow> soak_arg_error + nat" where
  "env_number env name default_value =
     (case env name of
        None \<Rightarrow> Inr default_value
      | Some s \<Rightarrow> (case parse_u64 s of Some n \<Rightarrow> Inr n | None \<Rightarrow> Inl (BadEnv name)))"

definition env_input :: "soak_mode \<Rightarrow> (string \<Rightarrow> string option) \<Rightarrow> string \<Rightarrow> soak_arg_error + string option" where
  "env_input mode env name =
     (case mode of
        Synthetic \<Rightarrow> Inr None
      | Real \<Rightarrow> (case env name of None \<Rightarrow> Inl (EnvRequired name) | Some p \<Rightarrow> Inr (Some p)))"

text \<open>\<open>env\<close>: the environment variables; \<open>temp\<close>: the system's directory for temporary files.\<close>

definition soak_parse_args ::
  "(string \<Rightarrow> string option) \<Rightarrow> string \<Rightarrow> string list \<Rightarrow> soak_arg_error + soak_cli" where
  "soak_parse_args env temp args =
     (case soak_args_loop args Synthetic of Inl e \<Rightarrow> Inl e | Inr mode \<Rightarrow>
     (case env_number env ''DATAWAL_SOAK_DURATION'' 1800 of Inl e \<Rightarrow> Inl e | Inr duration \<Rightarrow>
     (case env_number env ''DATAWAL_SOAK_ROTATE_EVERY'' 5000 of Inl e \<Rightarrow> Inl e | Inr rotations \<Rightarrow>
     (case env_number env ''DATAWAL_SOAK_COMPACT_EVERY_ROTATIONS'' 4 of Inl e \<Rightarrow> Inl e | Inr compact \<Rightarrow>
     (case env_number env ''DATAWAL_SOAK_PROGRESS_SECS'' 60 of Inl e \<Rightarrow> Inl e | Inr progress \<Rightarrow>
     (case env_input mode env ''DATAWAL_SOAK_INPUT_SMALL'' of Inl e \<Rightarrow> Inl e | Inr small \<Rightarrow>
     (case env_input mode env ''DATAWAL_SOAK_INPUT_MEDIUM'' of Inl e \<Rightarrow> Inl e | Inr medium \<Rightarrow>
     (case env_input mode env ''DATAWAL_SOAK_INPUT_LARGE'' of Inl e \<Rightarrow> Inl e | Inr large \<Rightarrow>
        Inr \<lparr>sc_mode = mode, sc_duration = duration, sc_rotate_every = rotations, sc_compact_every = compact,
          sc_progress_secs = progress,
          sc_log_dir = (case env ''DATAWAL_SOAK_LOG_DIR'' of Some p \<Rightarrow> p | None \<Rightarrow> ''/tmp''),
          sc_work_dir = (case env ''DATAWAL_SOAK_WORK_DIR'' of Some p \<Rightarrow> p | None \<Rightarrow> temp @ ''/datawal-soak''),
          sc_small = small, sc_medium = medium, sc_large = large\<rparr>))))))))"

text \<open>The synthetic fixtures lie below the crate's directory.\<close>

definition fixture_path :: "string \<Rightarrow> string \<Rightarrow> string" where
  "fixture_path crate_dir name = crate_dir @ ''/tests/fixtures/soak/'' @ name"

definition load_streams ::
  "(string \<Rightarrow> bytes option) \<Rightarrow> (string \<Rightarrow> (string \<times> string) option) \<Rightarrow> (string \<Rightarrow> string option) \<Rightarrow> string
   \<Rightarrow> soak_cli \<Rightarrow> soak_error + soak_record list \<times> soak_record list \<times> soak_record list" where
  "load_streams b64_dec parse files crate_dir cli =
     (let path = (\<lambda>given name. case sc_mode cli of Synthetic \<Rightarrow> fixture_path crate_dir name | Real \<Rightarrow> the given) in
      case load_jsonl b64_dec parse files (path (sc_small cli) ''small_records.jsonl'') of
        Inl e \<Rightarrow> Inl e
      | Inr small \<Rightarrow>
          (case load_jsonl b64_dec parse files (path (sc_medium cli) ''medium_records.jsonl'') of
             Inl e \<Rightarrow> Inl e
           | Inr medium \<Rightarrow>
               (case load_jsonl b64_dec parse files (path (sc_large cli) ''large_payloads.jsonl'') of
                  Inl e \<Rightarrow> Inl e
                | Inr large \<Rightarrow> Inr (small, medium, large))))"

definition pick_stream ::
  "u64 \<Rightarrow> soak_record list \<Rightarrow> soak_record list \<Rightarrow> soak_record list \<Rightarrow> soak_record" where
  "pick_stream op_idx small medium large =
     (let bucket = (op_idx * 2654435761) mod 100;
          stream = (if bucket < 70 then small else if bucket < 95 then medium else large)
      in stream ! (unat op_idx mod length stream))"

section \<open>The operation loop\<close>

text \<open>
  \<open>Path::with_extension\<close> on a path that ends in a normal component: the extension of the
  last component, from its last dot unless the name begins there, is replaced.
\<close>

definition file_stem :: "string \<Rightarrow> string" where
  "file_stem name =
     (let r = dropWhile (\<lambda>c. c \<noteq> CHR ''.'') (rev name)
      in if length r \<le> 1 then name else rev (tl r))"

definition with_extension :: "string \<Rightarrow> string \<Rightarrow> string" where
  "with_extension path ext =
     (let p = rev (dropWhile (\<lambda>c. c = CHR ''/'') (rev path));
          name = rev (takeWhile (\<lambda>c. c \<noteq> CHR ''/'') (rev p));
          parent = rev (dropWhile (\<lambda>c. c \<noteq> CHR ''/'') (rev p))
      in if name = [] then path else parent @ file_stem name @ ''.'' @ ext)"

record counters =
  ct_puts :: nat
  ct_deletes :: nat
  ct_rotates :: nat
  ct_compacts :: nat
  ct_bytes_written :: nat
  ct_fsyncs :: nat

record soak_row =
  row_elapsed :: nat
  row_rss_kb :: nat
  row_fds :: nat
  row_segments :: nat
  row_live_keys :: nat
  row_counters :: counters

text \<open>
  What the test meets outside of itself.  \<open>sh_fresh\<close> is the state of the lock on a file
  that was just created; \<open>sh_env i\<close> and \<open>sh_env' i\<close> are the calls on the store and on a
  compaction target during operation \<open>i\<close>, \<open>sh_reopen i\<close> those of the reopening after it;
  \<open>sh_tree i\<close> says which calls on directory trees work.  \<open>sh_progress i\<close> holds when a row is
  due, \<open>sh_csv i\<close> when writing it works; \<open>sh_sample i\<close> is the elapsed time, the text of
  \<open>/proc/self/status\<close> and the entries of \<open>/proc/self/fd\<close> then.
\<close>

record 'k soak_host =
  sh_flock :: "'k flock"
  sh_fresh :: 'k
  sh_crc :: "bytes \<Rightarrow> u32"
  sh_pid :: nat
  sh_fd :: nat
  sh_fdt :: nat
  sh_env :: "u64 \<Rightarrow> os_env"
  sh_env' :: "u64 \<Rightarrow> os_env"
  sh_reopen :: "u64 \<Rightarrow> os_env"
  sh_tree :: "u64 \<Rightarrow> tree_call \<Rightarrow> bool"
  sh_progress :: "u64 \<Rightarrow> bool"
  sh_csv :: "u64 \<Rightarrow> bool"
  sh_sample :: "u64 \<Rightarrow> nat \<times> string option \<times> string list option"

record 'k soak_state =
  ss_idx :: u64
  ss_log :: data_wal
  ss_world :: "'k world"
  ss_expected :: "(bytes \<times> bytes) list"
  ss_counters :: counters
  ss_since :: nat
  ss_rows :: "soak_row list"

definition and_then :: "('e + unit) \<times> 's \<Rightarrow> ('s \<Rightarrow> ('e + unit) \<times> 's) \<Rightarrow> ('e + unit) \<times> 's" where
  "and_then m f = (case m of (Inl e, s) \<Rightarrow> (Inl e, s) | (Inr _, s) \<Rightarrow> f s)"

text \<open>The directory of a path, and the world with a directory and its lock put at, or removed from, a path.\<close>

definition dir_at :: "'k world \<Rightarrow> string \<Rightarrow> dir" where
  "dir_at wd p = the_dir (wd_dirs wd p)"

definition put_dir :: "'k world \<Rightarrow> string \<Rightarrow> 'k \<Rightarrow> dir option \<Rightarrow> 'k world" where
  "put_dir wd p k d = wd\<lparr>wd_dirs := (wd_dirs wd)(p := d), wd_locks := (wd_locks wd)(p := k)\<rparr>"

text \<open>One delete or put.\<close>

definition soak_write ::
  "'k soak_host \<Rightarrow> string \<Rightarrow> soak_record list \<times> soak_record list \<times> soak_record list
   \<Rightarrow> 'k soak_state \<Rightarrow> (soak_error + unit) \<times> 'k soak_state" where
  "soak_write h work streams s =
     (let i = ss_idx s; env = sh_env h i; crc = sh_crc h; d = dir_at (ss_world s) work;
          ct = ss_counters s; expected = ss_expected s;
          (small, medium, large) = streams; rec = pick_stream i small medium large;
          leave = (\<lambda>w d'. s\<lparr>ss_log := w, ss_world := put_dir (ss_world s) work (wd_locks (ss_world s) work) (Some d')\<rparr>) in
      if i mod 20 = 19 \<and> expected \<noteq> [] then
        let target_key = fst (expected ! (unat i mod length expected)) in
        (case dw_delete env crc (ss_log s) d target_key of
           (Inl e, w, d') \<Rightarrow> (Inl (SoakStore e), leave w d')
         | (Inr _, w, d') \<Rightarrow> (Inr (), (leave w d')
             \<lparr>ss_expected := AList.delete target_key expected,
              ss_counters := ct\<lparr>ct_deletes := ct_deletes ct + 1,
                ct_bytes_written := ct_bytes_written ct + length target_key\<rparr>\<rparr>))
      else
        (case dw_put env crc (ss_log s) d (so_key rec) (so_payload rec) of
           (Inl e, w, d') \<Rightarrow> (Inl (SoakStore e), leave w d')
         | (Inr _, w, d') \<Rightarrow> (Inr (), (leave w d')
             \<lparr>ss_expected := AList.update (so_key rec) (so_payload rec) expected,
              ss_counters := ct\<lparr>ct_puts := ct_puts ct + 1,
                ct_bytes_written := ct_bytes_written ct + (length (so_key rec) + length (so_payload rec))\<rparr>\<rparr>)))"

definition soak_fsync :: "'k soak_host \<Rightarrow> 'k soak_state \<Rightarrow> (soak_error + unit) \<times> 'k soak_state" where
  "soak_fsync h s =
     (if ss_idx s mod 1000 = 999 then
        (case dw_fsync (sh_env h (ss_idx s)) (ss_log s) of
           (Inl e, w) \<Rightarrow> (Inl (SoakStore e), s\<lparr>ss_log := w\<rparr>)
         | (Inr _, w) \<Rightarrow> (Inr (), s\<lparr>ss_log := w,
             ss_counters := (ss_counters s)\<lparr>ct_fsyncs := ct_fsyncs (ss_counters s) + 1\<rparr>\<rparr>))
      else (Inr (), s))"

text \<open>Compaction into a sibling directory, which then takes the place of the store.\<close>

definition soak_swap :: "'k soak_host \<Rightarrow> string \<Rightarrow> 'k soak_state \<Rightarrow> (soak_error + unit) \<times> 'k soak_state" where
  "soak_swap h work s =
     (let i = ss_idx s; fl = sh_flock h; crc = sh_crc h; target = with_extension work ''compact-tmp'';
          wd = ss_world s;
          wd1 = (if sh_tree h i RemoveTarget then put_dir wd target (sh_fresh h) None else wd) in
      case dw_compact_to fl (sh_env h i) (sh_env' h i) crc (sh_pid h) (sh_fdt h) (wd_locks wd1 target) (ss_log s)
             (dir_at wd1 work) (wd_dirs wd1 target) of
        (Inl e, w, kt, dt) \<Rightarrow> (Inl (SoakStore e), s\<lparr>ss_log := w, ss_world := put_dir wd1 target kt dt\<rparr>)
      | (Inr _, w, kt, dt) \<Rightarrow>
          let wd2 = put_dir wd1 target kt dt;
              wd3 = put_dir wd2 work (dir_lock_drop fl (wd_locks wd2 work) (rl_lock (dw_log w))) (wd_dirs wd2 work) in
          if \<not> sh_tree h i RemoveWork then (Inl (TreeCall RemoveWork), s\<lparr>ss_world := wd3\<rparr>)
          else
            let wd4 = put_dir wd3 work (sh_fresh h) None in
            if \<not> sh_tree h i RenameTarget then (Inl (TreeCall RenameTarget), s\<lparr>ss_world := wd4\<rparr>)
            else
              let wd5 = put_dir (put_dir wd4 work (wd_locks wd4 target) (wd_dirs wd4 target)) target (sh_fresh h) None in
              case dw_open fl (sh_reopen h i) crc (sh_pid h) (sh_fd h) (wd_locks wd5 work) (wd_dirs wd5 work) of
                (Inl e, k, d) \<Rightarrow> (Inl (SoakStore e), s\<lparr>ss_world := put_dir wd5 work k d\<rparr>)
              | (Inr w', k, d) \<Rightarrow>
                  (Inr (), s\<lparr>ss_log := w', ss_world := put_dir wd5 work k d, ss_since := 0,
                     ss_counters := (ss_counters s)\<lparr>ct_compacts := ct_compacts (ss_counters s) + 1\<rparr>\<rparr>))"

text \<open>\<open>op_idx % rotate_every\<close> panics when the divisor is 0.\<close>

definition soak_rotate :: "'k soak_host \<Rightarrow> soak_cli \<Rightarrow> 'k soak_state \<Rightarrow> (soak_error + unit) \<times> 'k soak_state" where
  "soak_rotate h cli s =
     (let every = sc_rotate_every cli; ct = ss_counters s in
      if every = 0 then (Inl Panic, s)
      else if unat (ss_idx s) mod every = every - 1 then
        let s1 = s\<lparr>ss_counters := ct\<lparr>ct_rotates := ct_rotates ct + 1\<rparr>, ss_since := ss_since s + 1\<rparr> in
        if ss_since s1 \<ge> sc_compact_every cli then soak_swap h (sc_work_dir cli) s1 else (Inr (), s1)
      else (Inr (), s))"

definition soak_progress :: "'k soak_host \<Rightarrow> string \<Rightarrow> 'k soak_state \<Rightarrow> (soak_error + unit) \<times> 'k soak_state" where
  "soak_progress h work s0 =
     (let i = ss_idx s0; s = s0\<lparr>ss_idx := i + 1\<rparr> in
      if sh_progress h i then
        let (elapsed, status, fds) = sh_sample h i;
            row = \<lparr>row_elapsed = elapsed, row_rss_kb = or_zero (read_rss_kb status), row_fds = or_zero (read_fd_count fds),
              row_segments = (case count_segments (sh_env h i) (wd_dirs (ss_world s) work) of Inr n \<Rightarrow> n | Inl _ \<Rightarrow> 0),
              row_live_keys = length (ss_expected s), row_counters = ss_counters s\<rparr>
        in if sh_csv h i then (Inr (), s\<lparr>ss_rows := ss_rows s @ [row]\<rparr>) else (Inl CsvWrite, s)
      else (Inr (), s))"

definition soak_op ::
  "'k soak_host \<Rightarrow> soak_cli \<Rightarrow> soak_record list \<times> soak_record list \<times> soak_record list
   \<Rightarrow> 'k soak_state \<Rightarrow> (soak_error + unit) \<times> 'k soak_state" where
  "soak_op h cli streams s =
     and_then (and_then (and_then (soak_write h (sc_work_dir cli) streams s) (soak_fsync h))
       (soak_rotate h cli)) (soak_progress h (sc_work_dir cli))"

fun soak_loop ::
  "'k soak_host \<Rightarrow> soak_cli \<Rightarrow> soak_record list \<times> soak_record list \<times> soak_record list \<Rightarrow> nat
   \<Rightarrow> 'k soak_state \<Rightarrow> (soak_error + unit) \<times> 'k soak_state" where
  "soak_loop h cli streams 0 s = (Inr (), s)"
| "soak_loop h cli streams (Suc n) s = and_then (soak_op h cli streams s) (soak_loop h cli streams n)"

section \<open>The final comparison\<close>

fun value_check ::
  "os_env \<Rightarrow> (bytes \<Rightarrow> u32) \<Rightarrow> dir \<Rightarrow> (bytes \<times> bytes) list \<Rightarrow> bytes list \<Rightarrow> data_wal \<Rightarrow> soak_error + unit" where
  "value_check env crc d expected [] w = Inr ()"
| "value_check env crc d expected (k # ks) w =
     (case dw_get env crc w d k of
        (Inl e, _) \<Rightarrow> Inl (SoakStore e)
      | (Inr got, w') \<Rightarrow>
          let want = map_of expected k in
          if got \<noteq> want then Inl (ValueMismatch (length k) (map_option length got) (map_option length want))
          else value_check env crc d expected ks w')"

definition final_check ::
  "os_env \<Rightarrow> (bytes \<Rightarrow> u32) \<Rightarrow> dir \<Rightarrow> (bytes \<times> bytes) list \<Rightarrow> data_wal \<Rightarrow> soak_error + unit" where
  "final_check env crc d expected w =
     (let observed_keys = dw_keys w; expected_keys = map fst expected in
      if set observed_keys \<noteq> set expected_keys then
        Inl (KeydirMismatch (length observed_keys) (length expected_keys)
          (length (take 3 (filter (\<lambda>k. k \<notin> set expected_keys) observed_keys)))
          (length (take 3 (filter (\<lambda>k. k \<notin> set observed_keys) expected_keys))))
      else value_check env crc d expected expected_keys w)"

record soak_summary =
  sm_final_keys :: nat
  sm_final_segments :: nat
  sm_counters :: counters

text \<open>
  \<open>run\<close> from the first \<open>open\<close> on: \<open>env0\<close> the calls of the first \<open>open\<close>, \<open>env1\<close> of the last
  \<open>fsync\<close>, \<open>env2\<close> of the last \<open>open\<close> and of the comparison.
\<close>

definition soak_session ::
  "'k soak_host \<Rightarrow> os_env \<Rightarrow> os_env \<Rightarrow> os_env \<Rightarrow> nat \<Rightarrow> soak_cli
   \<Rightarrow> soak_record list \<times> soak_record list \<times> soak_record list \<Rightarrow> 'k world \<Rightarrow> soak_error + soak_summary" where
  "soak_session h env0 env1 env2 n cli streams wd =
     (let fl = sh_flock h; crc = sh_crc h; work = sc_work_dir cli in
      case dw_open fl env0 crc (sh_pid h) (sh_fd h) (wd_locks wd work) (wd_dirs wd work) of
        (Inl e, _, _) \<Rightarrow> Inl (SoakStore e)
      | (Inr w, k, d) \<Rightarrow>
          (case soak_loop h cli streams n
                  \<lparr>ss_idx = 0, ss_log = w, ss_world = put_dir wd work k d, ss_expected = [],
                   ss_counters = \<lparr>ct_puts = 0, ct_deletes = 0, ct_rotates = 0, ct_compacts = 0,
                     ct_bytes_written = 0, ct_fsyncs = 0\<rparr>,
                   ss_since = 0, ss_rows = []\<rparr> of
             (Inl e, _) \<Rightarrow> Inl e
           | (Inr _, s) \<Rightarrow>
               (case dw_fsync env1 (ss_log s) of
                  (Inl e, _) \<Rightarrow> Inl (SoakStore e)
                | (Inr _, w1) \<Rightarrow>
                    let k1 = dir_lock_drop fl (wd_locks (ss_world s) work) (rl_lock (dw_log w1)) in
                    (case dw_open fl env2 crc (sh_pid h) (sh_fd h) k1 (wd_dirs (ss_world s) work) of
                       (Inl e, _, _) \<Rightarrow> Inl (SoakStore e)
                     | (Inr reopen, _, d') \<Rightarrow>
                         (case final_check env2 crc (the_dir d') (ss_expected s) reopen of
                            Inl e \<Rightarrow> Inl e
                          | Inr _ \<Rightarrow>
                              Inr \<lparr>sm_final_keys = length (ss_expected s),
                                sm_final_segments = (case count_segments env2 d' of Inr m \<Rightarrow> m | Inl _ \<Rightarrow> 0),
                                sm_counters = ss_counters s\<rparr>)))))"

text \<open>\<open>run\<close> on the world \<open>wd\<close>; \<open>sh_tree h 0\<close> also covers the calls before the loop.\<close>

definition soak_run ::
  "'k soak_host \<Rightarrow> os_env \<Rightarrow> os_env \<Rightarrow> os_env \<Rightarrow> (string \<Rightarrow> bytes option) \<Rightarrow> (string \<Rightarrow> (string \<times> string) option)
   \<Rightarrow> string \<Rightarrow> nat \<Rightarrow> soak_cli \<Rightarrow> 'k world \<Rightarrow> soak_error + soak_summary" where
  "soak_run h env0 env1 env2 b64_dec parse crate_dir n cli wd =
     (let work = sc_work_dir cli; tree = sh_tree h 0;
          wd1 = (if tree RemoveWork then put_dir wd work (sh_fresh h) None else wd) in
      if \<not> tree CreateWorkDirs then Inl (TreeCall CreateWorkDirs)
      else
        let wd2 = (if wd_dirs wd1 work = None then put_dir wd1 work (wd_locks wd1 work) (Some []) else wd1) in
        if \<not> tree CreateLogDirs then Inl (TreeCall CreateLogDirs)
        else if \<not> tree CreateCsv then Inl (TreeCall CreateCsv)
        else case load_streams b64_dec parse (wd_files wd2) crate_dir cli of
          Inl e \<Rightarrow> Inl e
        | Inr streams \<Rightarrow> soak_session h env0 env1 env2 n cli streams wd2)"

definition soak_main :: "(soak_arg_error + soak_cli) \<Rightarrow> (soak_cli \<Rightarrow> soak_error + soak_summary) \<Rightarrow> nat" where
  "soak_main parsed run =
     (case parsed of Inl e \<Rightarrow> 2 | Inr cli \<Rightarrow> (case run cli of Inr _ \<Rightarrow> 0 | Inl e \<Rightarrow> 1))"

end
