(* ===== verification/Soak_Correct.thy ===== *)
theory Soak_Correct
  imports Soak Power_Loss_Correct
begin

text \<open>
  The soak test keeps the map in memory and the store in step, across every compaction that
  swaps the directories, whatever calls fail.
\<close>

section \<open>Compaction and reopening, whatever the operating system does\<close>

lemma rl_open_empty:
  assumes o: "rl_open fl env crc pid fd k out = (Inr log, k', dopt)" and out: "out = None \<or> out = Some []"
  shows "\<exists>d'. dopt = Some d' \<and> rl_inv crc log d' \<and> log_records crc d' = []"
proof -
  have o': "rl_open fl env crc pid fd k (Some []) = (Inr log, k', dopt)"
    using o out rl_open_missing [of env fl crc pid fd k] by (cases "works env CreateDirAll") (auto simp: rl_open_def)
  obtain d' where D: "dopt = Some d'" "log = opened_log crc fd d'" "dir_ok d'"
    "seg_ids d' = [1]" "log_records crc d' = []" "seg_content d' 1 = Some []"
    using rl_open_Inr [OF o' dir_ok_Nil] by (auto simp: log_records_def)
  have "seg_tail crc d' 1 = []" using seg_splitI [of d' 1 crc "[]" "[]"] D(6) by simp
  with D show ?thesis by (auto intro!: opened_inv)
qed

lemma copy_keys_Inr:
  "copy_keys env env' crc d ks stats w log0 d0 = (Inr st, w1, log1, d1) \<Longrightarrow> kd_inv crc w d \<Longrightarrow> rl_inv crc log0 d0 \<Longrightarrow>
    rl_inv crc log1 d1 \<and> dw_log w1 = dw_log w
    \<and> contents crc d1 = (\<lambda>k. if k \<in> set ks then contents crc d k else contents crc d0 k)"
proof (induction ks arbitrary: stats w log0 d0)
  case (Cons k ks)
  from Cons.prems(1) obtain v w2 r log2 d2 where g: "get_live env crc w d k = (Inr v, w2)"
    and a: "rl_append_record env' crc log0 d0 Put k v = (Inr r, log2, d2)"
    and c: "copy_keys env env' crc d ks (stats\<lparr>cs_records_written := cs_records_written stats + 1,
        cs_bytes_written := cs_bytes_written stats + ref_len r\<rparr>) w2 log2 d2 = (Inr st, w1, log1, d1)"
    by (auto split: prod.splits sum.splits)
  have v: "contents crc d k = Some v" "kd_inv crc w2 d" "dw_log w2 = dw_log w"
    using g get_Inr [OF Cons.prems(2)] by (auto simp: get_live_def split: prod.splits sum.splits option.splits)
  have l: "log_append env' crc (log0, d0) Put k v = (Inr r, (log2, d2))" using a by (simp add: log_append_def)
  have i: "rl_inv crc log2 d2" using rlog.append_good [OF _ l] Cons.prems(3) by simp
  have "contents crc d2 = (contents crc d0)(k \<mapsto> v)"
    using rlog.append_view [OF _ l] Cons.prems(3) by (simp add: contents_def kv_step_def)
  with Cons.IH [OF c v(2) i] v(1,3) show ?case by (auto simp: fun_eq_iff)
qed simp

lemma compact_to_Inr:
  assumes c: "dw_compact_to fl env env' crc pid fd k w d out = (Inr stats, w1, k', out')" and inv: "kd_inv crc w d"
  shows "\<exists>d1 log1. out' = Some d1 \<and> rl_inv crc log1 d1 \<and> contents crc d1 = contents crc d \<and> dw_log w1 = dw_log w"
proof -
  have out: "out = None \<or> out = Some []" using c by (auto simp: dw_compact_to_def split: if_splits)
  obtain log0 k1 o1 st log1 d1 where o: "rl_open fl env' crc pid fd k out = (Inr log0, k1, o1)"
    and k: "copy_keys env env' crc d (sort (dw_keys w)) \<lparr>cs_live_keys = 0, cs_records_written = 0, cs_bytes_written = 0\<rparr>
        w log0 (case o1 of None \<Rightarrow> [] | Some d1 \<Rightarrow> d1) = (Inr st, w1, log1, d1)" and d1: "out' = Some d1"
    using c by (auto simp: dw_compact_to_def Let_def split: if_splits prod.splits sum.splits)
  obtain d0 where D: "o1 = Some d0" "rl_inv crc log0 d0" "log_records crc d0 = []"
    using rl_open_empty [OF o out] by blast
  have K: "set (sort (dw_keys w)) = dom (contents crc d)" using keys_contents [OF inv] by simp
  have "rl_inv crc log1 d1 \<and> dw_log w1 = dw_log w
      \<and> contents crc d1 = (\<lambda>k. if k \<in> set (sort (dw_keys w)) then contents crc d k else contents crc d0 k)"
    using k D by (intro copy_keys_Inr [OF _ inv D(2)]) simp
  moreover have "contents crc d0 = Map.empty" using D(3) by (simp add: contents_def)
  ultimately show ?thesis unfolding K using d1 by (auto simp: fun_eq_iff domIff)
qed

lemma dw_open_clean:
  assumes o: "dw_open fl env crc pid fd k (Some d) = (Inr w, k', dopt)" and inv: "rl_inv crc log d"
  shows "\<exists>d'. dopt = Some d' \<and> dw_inv crc w d' \<and> contents crc d' = contents crc d"
proof -
  note I = rl_invD [OF inv]
  obtain d' where D: "dopt = Some d'" "kd_inv crc w d'" "dw_log w = opened_log crc fd d'"
    "contents crc d' = contents crc d" "log_records crc d' = log_records crc d" "seg_ids d' = seg_ids d"
    "\<And>sid. sid \<in> set (seg_ids d) \<Longrightarrow> seg_content d' sid = seg_content d sid"
    using dw_open_Inr [OF o I(1)] I(2) by (metis (no_types, lifting))
  have t: "\<forall>sid\<in>set (seg_ids d'). seg_tail crc d' sid = []"
    using D(6,7) I(4) by (metis seg_tail_cong)
  have "fold max (map rc_txid (log_records crc d)) 0 \<noteq> - 1"
  proof
    assume "fold max (map rc_txid (log_records crc d)) 0 = - 1"
    moreover have "fold max (map rc_txid (log_records crc d)) 0 \<in> insert 0 (rc_txid ` set (log_records crc d))"
      using fold_max_in [of "map rc_txid (log_records crc d)" 0] by auto
    ultimately obtain r where "r \<in> set (log_records crc d)" "rc_txid r = - 1" by auto
    then show False using I(6) [of r] by (metis not_less_iff_gr_or_eq word_order.extremum_strict)
  qed
  then have "rl_inv crc (dw_log w) d'"
    unfolding D(3) using D(2,5,6) t I(2) by (intro opened_inv) (simp_all add: kd_inv_def)
  then show ?thesis using D(1,2,4) by (simp add: dw_inv_def)
qed

section \<open>The loop keeps map and store in step\<close>

definition soak_inv :: "(bytes \<Rightarrow> u32) \<Rightarrow> string \<Rightarrow> 'k soak_state \<Rightarrow> bool" where
  "soak_inv crc work s \<longleftrightarrow> distinct (map fst (ss_expected s))
     \<and> (\<exists>d. wd_dirs (ss_world s) work = Some d \<and> dw_inv crc (ss_log s) d \<and> contents crc d = map_of (ss_expected s))"

lemma and_then_Inr:
  "and_then m f = (Inr u, t) \<longleftrightarrow> (\<exists>s. m = (Inr (), s) \<and> f s = (Inr u, t))"
  by (cases m; cases "fst m") (auto simp: and_then_def)

lemma and_then_Inl:
  "and_then m f = (Inl e, t) \<longleftrightarrow> m = (Inl e, t) \<or> (\<exists>s. m = (Inr (), s) \<and> f s = (Inl e, t))"
  by (cases m; cases "fst m") (auto simp: and_then_def)

lemma wd_dirs_put [simp]: "wd_dirs (put_dir wd p k d) = (wd_dirs wd)(p := d)"
  by (simp add: put_dir_def)

lemma soak_write_inv:
  assumes w: "soak_write h work streams s = (Inr (), s')" and inv: "soak_inv (sh_crc h) work s"
  shows "soak_inv (sh_crc h) work s'"
proof -
  obtain d where D: "wd_dirs (ss_world s) work = Some d" "dw_inv (sh_crc h) (ss_log s) d"
    "contents (sh_crc h) d = map_of (ss_expected s)" "distinct (map fst (ss_expected s))"
    using inv by (auto simp: soak_inv_def)
  have d: "dir_at (ss_world s) work = d" using D(1) by (simp add: dir_at_def the_dir_def)
  show ?thesis
    using w D(4) put_Inr [OF D(2)] delete_Inr [OF D(2)] D(3)
    by (auto simp: soak_write_def Let_def d soak_inv_def distinct_update distinct_delete update_conv' delete_conv' restrict_map_def fun_eq_iff
        split: if_splits prod.splits sum.splits)
qed

lemma soak_fsync_inv:
  "soak_fsync h s = (Inr (), s') \<Longrightarrow> soak_inv crc work s \<Longrightarrow> soak_inv crc work s'"
  by (auto simp: soak_fsync_def soak_inv_def split: if_splits prod.splits sum.splits dest: dw_fsync_Inr)

lemma soak_swap_inv:
  assumes w: "soak_swap h work s = (Inr (), s')" and inv: "soak_inv (sh_crc h) work s"
    and ne: "with_extension work ''compact-tmp'' \<noteq> work"
  shows "soak_inv (sh_crc h) work s'"
proof -
  let ?t = "with_extension work ''compact-tmp''"
  obtain d where D: "wd_dirs (ss_world s) work = Some d" "dw_inv (sh_crc h) (ss_log s) d"
    "contents (sh_crc h) d = map_of (ss_expected s)" "distinct (map fst (ss_expected s))"
    using inv by (auto simp: soak_inv_def)
  define wd1 where "wd1 = (if sh_tree h (ss_idx s) RemoveTarget then put_dir (ss_world s) ?t (sh_fresh h) None else ss_world s)"
  have d: "dir_at wd1 work = d" using D(1) ne by (simp add: wd1_def dir_at_def the_dir_def)
  from w obtain st w1 kt dt k0 w' k d' where
    c: "dw_compact_to (sh_flock h) (sh_env h (ss_idx s)) (sh_env' h (ss_idx s)) (sh_crc h) (sh_pid h) (sh_fdt h)
      (wd_locks wd1 ?t) (ss_log s) d (wd_dirs wd1 ?t) = (Inr st, w1, kt, dt)"
    and o: "dw_open (sh_flock h) (sh_reopen h (ss_idx s)) (sh_crc h) (sh_pid h) (sh_fd h) k0 dt = (Inr w', k, d')"
    and s': "ss_log s' = w'" "wd_dirs (ss_world s') work = d'" "ss_expected s' = ss_expected s"
    using ne unfolding soak_swap_def Let_def wd1_def [symmetric] d
    by (auto split: prod.splits sum.splits if_splits)
  obtain d1 log1 where C: "dt = Some d1" "rl_inv (sh_crc h) log1 d1" "contents (sh_crc h) d1 = contents (sh_crc h) d"
    using compact_to_Inr [OF c] D(2) by (auto simp: dw_inv_def)
  show ?thesis
    using dw_open_clean [OF o [unfolded C(1)] C(2)] C(3) D(3,4) s' by (auto simp: soak_inv_def)
qed

lemma soak_rotate_inv:
  assumes w: "soak_rotate h cli s = (Inr (), s')" and inv: "soak_inv (sh_crc h) (sc_work_dir cli) s"
    and ne: "with_extension (sc_work_dir cli) ''compact-tmp'' \<noteq> sc_work_dir cli"
  shows "soak_inv (sh_crc h) (sc_work_dir cli) s'"
  using w soak_swap_inv [OF _ _ ne, of h "s\<lparr>ss_counters := _, ss_since := _\<rparr>" s'] inv
  by (auto simp: soak_rotate_def Let_def soak_inv_def split: if_splits)

lemma soak_progress_inv:
  "soak_progress h work s = (Inr (), s') \<Longrightarrow> soak_inv crc work s \<Longrightarrow> soak_inv crc work s'"
  by (auto simp: soak_progress_def soak_inv_def Let_def split: if_splits prod.splits)

lemma soak_loop_inv:
  assumes ne: "with_extension (sc_work_dir cli) ''compact-tmp'' \<noteq> sc_work_dir cli"
  shows "soak_loop h cli streams n s = (Inr u, s') \<Longrightarrow> soak_inv (sh_crc h) (sc_work_dir cli) s \<Longrightarrow>
    soak_inv (sh_crc h) (sc_work_dir cli) s'"
  by (induction n arbitrary: s)
    (auto simp: and_then_Inr soak_op_def dest!: soak_write_inv soak_fsync_inv soak_rotate_inv [OF _ _ ne] soak_progress_inv)

section \<open>No false alarm\<close>

fun is_mismatch :: "soak_error \<Rightarrow> bool" where
  "is_mismatch (KeydirMismatch _ _ _ _) = True"
| "is_mismatch (ValueMismatch _ _ _) = True"
| "is_mismatch _ = False"

definition mild :: "soak_cli \<Rightarrow> soak_error \<Rightarrow> bool" where
  "mild cli e \<longleftrightarrow> \<not> is_mismatch e \<and> (e = Panic \<longrightarrow> sc_rotate_every cli = 0)"

lemma soak_swap_mild: "soak_swap h work s = (Inl e, s') \<Longrightarrow> mild cli e"
  by (auto simp: soak_swap_def mild_def Let_def split: prod.splits sum.splits if_splits)

lemma soak_op_mild: "soak_op h cli streams s = (Inl e, s') \<Longrightarrow> mild cli e"
  unfolding soak_op_def and_then_Inl
proof (elim disjE exE conjE)
  show "soak_write h (sc_work_dir cli) streams s = (Inl e, s') \<Longrightarrow> mild cli e"
    by (auto simp: soak_write_def mild_def Let_def split: prod.splits sum.splits if_splits)
  show "soak_fsync h s1 = (Inl e, s') \<Longrightarrow> mild cli e" for s1
    by (auto simp: soak_fsync_def mild_def split: prod.splits sum.splits if_splits)
  show "soak_rotate h cli s1 = (Inl e, s') \<Longrightarrow> mild cli e" for s1
    by (auto simp: soak_rotate_def Let_def dest: soak_swap_mild split: if_splits) (simp add: mild_def)
  show "soak_progress h (sc_work_dir cli) s1 = (Inl e, s') \<Longrightarrow> mild cli e" for s1
    by (auto simp: soak_progress_def mild_def Let_def split: prod.splits if_splits)
qed

lemma soak_loop_mild: "soak_loop h cli streams n s = (Inl e, s') \<Longrightarrow> mild cli e"
  by (induction n arbitrary: s) (auto simp: and_then_Inl dest: soak_op_mild)

lemma value_check_mild:
  assumes "contents crc d = map_of expected"
  shows "kd_inv crc w d \<Longrightarrow> value_check env crc d expected ks w = Inl e \<Longrightarrow> mild cli e"
proof (induction ks arbitrary: w)
  case (Cons k ks)
  obtain r w' where g: "dw_get env crc w d k = (r, w')" by force
  show ?case
  proof (cases r)
    case (Inl e1)
    then have "e = SoakStore e1" using Cons.prems(2) g by simp
    then show ?thesis by (simp add: mild_def)
  next
    case (Inr got)
    note G = get_Inr [OF Cons.prems(1) g [unfolded Inr]]
    have "value_check env crc d expected ks w' = Inl e"
      using Cons.prems(2) g Inr G assms by simp
    then show ?thesis using Cons.IH G by blast
  qed
qed simp

lemma final_check_mild:
  assumes "kd_inv crc w d" "contents crc d = map_of expected" "final_check env crc d expected w = Inl e"
  shows "mild cli e"
proof -
  have "set (dw_keys w) = set (map fst expected)"
    using keys_contents [OF assms(1)] assms(2) by (simp add: dom_map_of_conv_image_fst)
  then have "value_check env crc d expected (map fst expected) w = Inl e"
    using assms(3) unfolding final_check_def Let_def by presburger
  then show ?thesis by (rule value_check_mild [OF assms(2,1)])
qed

lemma load_mild: "load_streams b64_dec parse files crate_dir cli = Inl e \<Longrightarrow> mild cli e"
proof -
  have l: "jsonl_lines b64_dec parse path ls = Inl e \<Longrightarrow> mild cli e" for path ls
    by (induction ls) (auto simp: mild_def split: if_splits option.splits sum.splits)
  have j: "load_jsonl b64_dec parse files path = Inl e \<Longrightarrow> mild cli e" for path
    by (auto simp: load_jsonl_def split: option.splits sum.splits if_splits intro: l) (simp_all add: mild_def)
  show "load_streams b64_dec parse files crate_dir cli = Inl e \<Longrightarrow> mild cli e"
    by (auto simp: load_streams_def Let_def split: sum.splits intro: j)
qed

lemma soak_session_mild:
  assumes run: "soak_session h env0 env1 env2 n cli streams wd = Inl e" and d: "wd_dirs wd (sc_work_dir cli) = Some []"
    and ne: "with_extension (sc_work_dir cli) ''compact-tmp'' \<noteq> sc_work_dir cli"
  shows "mild cli e"
proof -
  let ?work = "sc_work_dir cli" and ?crc = "sh_crc h"
  obtain r w k d1 where o: "dw_open (sh_flock h) env0 ?crc (sh_pid h) (sh_fd h) (wd_locks wd ?work) (Some []) = (r, k, d1)"
    by (metis prod_cases3)
  show ?thesis
  proof (cases r)
    case (Inl e1)
    then show ?thesis using run o d by (auto simp: soak_session_def Let_def mild_def)
  next
    case (Inr w)
    obtain d' where D: "d1 = Some d'" "dw_inv ?crc w d'" "contents ?crc d' = Map.empty"
      by (rule dw_open_fresh [OF o [unfolded Inr] dir_ok_Nil seg_ids_Nil], rule that)
    let ?s0 = "\<lparr>ss_idx = 0, ss_log = w, ss_world = put_dir wd ?work k d1, ss_expected = [],
      ss_counters = \<lparr>ct_puts = 0, ct_deletes = 0, ct_rotates = 0, ct_compacts = 0, ct_bytes_written = 0, ct_fsyncs = 0\<rparr>,
      ss_since = 0, ss_rows = []\<rparr>"
    obtain r2 s where l: "soak_loop h cli streams n ?s0 = (r2, s)" by force
    show ?thesis
    proof (cases r2)
      case (Inl e2)
      then show ?thesis using run o d Inr l soak_loop_mild [of h cli streams n ?s0 e2 s]
        by (simp add: soak_session_def Let_def)
    next
      case r2: (Inr u)
      have "soak_inv ?crc ?work ?s0" using D by (simp add: soak_inv_def)
      from soak_loop_inv [OF ne l [unfolded r2] this] obtain ds where S: "wd_dirs (ss_world s) ?work = Some ds"
        "dw_inv ?crc (ss_log s) ds" "contents ?crc ds = map_of (ss_expected s)"
        by (auto simp: soak_inv_def)
      have "mild cli e" if "dw_open fl env2 ?crc p f k1 (Some ds) = (Inr w', k', dopt)"
        "final_check env2 ?crc (the_dir dopt) (ss_expected s) w' = Inl e" for fl p f k1 w' k' dopt
        using dw_open_clean [OF that(1), of "dw_log (ss_log s)"] S(2,3) that(2)
        by (auto simp: dw_inv_def the_dir_def intro: final_check_mild)
      then show ?thesis
        using run o d Inr l r2 S(1)
        by (auto simp: soak_session_def Let_def mild_def [of cli "SoakStore _"] split: prod.splits sum.splits)
    qed
  qed
qed

lemma soak_run_mild:
  assumes run: "soak_run h env0 env1 env2 b64_dec parse crate_dir n cli wd = Inl e"
    and rm: "sh_tree h 0 RemoveWork \<or> wd_dirs wd (sc_work_dir cli) = None"
    and ne: "with_extension (sc_work_dir cli) ''compact-tmp'' \<noteq> sc_work_dir cli"
  shows "mild cli e"
  using run rm
  by (auto simp: soak_run_def Let_def mild_def [of cli "TreeCall _"] split: if_splits sum.splits
      intro: load_mild soak_session_mild [OF _ _ ne])

section \<open>Counting\<close>

definition soak_counted :: "nat \<Rightarrow> 'k soak_state \<Rightarrow> bool" where
  "soak_counted n s \<longleftrightarrow> ct_puts (ss_counters s) + ct_deletes (ss_counters s) = n
     \<and> length (ss_expected s) + ct_deletes (ss_counters s) \<le> ct_puts (ss_counters s)"

lemma length_update: "length (AList.update k v al) \<le> Suc (length al)"
  by (induction al) auto

lemma length_update_add: "length al + d \<le> p \<Longrightarrow> length (AList.update k v al) + d \<le> Suc p"
  using length_update [of k v al] by linarith

lemma length_delete: "distinct (map fst al) \<Longrightarrow> k \<in> fst ` set al \<Longrightarrow> Suc (length (AList.delete k al)) = length al"
proof (induction al)
  case (Cons x al)
  have "AList.delete k al = al" if "k \<notin> fst ` set al" using that by (simp add: delete_id)
  with Cons show ?case by auto
qed simp

lemma soak_write_counted:
  assumes "soak_write h work streams s = (Inr (), s')" "soak_counted n s" "distinct (map fst (ss_expected s))"
  shows "soak_counted (Suc n) s'"
proof (cases "ss_idx s mod 20 = 19 \<and> ss_expected s \<noteq> []")
  case True
  let ?k = "fst (ss_expected s ! (unat (ss_idx s) mod length (ss_expected s)))"
  have "?k \<in> fst ` set (ss_expected s)" using True by (intro imageI nth_mem) simp
  from length_delete [OF assms(3) this] show ?thesis
    using assms(1,2) True by (auto simp: soak_write_def soak_counted_def Let_def split: prod.splits sum.splits)
next
  case False
  then show ?thesis
    using assms(1,2) by (auto simp: soak_write_def soak_counted_def Let_def split: prod.splits sum.splits
        intro!: length_update_add)
qed

lemma soak_rest_counted:
  "soak_fsync h s = (Inr (), s') \<Longrightarrow> soak_counted n s' = soak_counted n s"
  "soak_swap h work s = (Inr (), s') \<Longrightarrow> soak_counted n s' = soak_counted n s"
  "soak_rotate h cli s = (Inr (), s') \<Longrightarrow> soak_counted n s' = soak_counted n s"
  "soak_progress h work s = (Inr (), s') \<Longrightarrow> soak_counted n s' = soak_counted n s"
proof -
  show "soak_fsync h s = (Inr (), s') \<Longrightarrow> soak_counted n s' = soak_counted n s"
    by (auto simp: soak_fsync_def soak_counted_def split: prod.splits sum.splits if_splits)
  have w: "soak_swap h work s = (Inr (), s') \<Longrightarrow> soak_counted n s' = soak_counted n s" for work s
    by (auto simp: soak_swap_def soak_counted_def Let_def split: prod.splits sum.splits if_splits)
  then show "soak_swap h work s = (Inr (), s') \<Longrightarrow> soak_counted n s' = soak_counted n s" .
  show "soak_rotate h cli s = (Inr (), s') \<Longrightarrow> soak_counted n s' = soak_counted n s"
    by (auto simp: soak_rotate_def Let_def dest!: w split: if_splits) (simp_all add: soak_counted_def)
  show "soak_progress h work s = (Inr (), s') \<Longrightarrow> soak_counted n s' = soak_counted n s"
    by (auto simp: soak_progress_def soak_counted_def Let_def split: prod.splits if_splits)
qed

lemma soak_loop_counted:
  assumes ne: "with_extension (sc_work_dir cli) ''compact-tmp'' \<noteq> sc_work_dir cli"
  shows "soak_loop h cli streams n s = (Inr u, s') \<Longrightarrow> soak_inv (sh_crc h) (sc_work_dir cli) s \<Longrightarrow> soak_counted m s \<Longrightarrow>
    soak_counted (n + m) s'"
proof (induction n arbitrary: m s)
  case (Suc n)
  then obtain s1 s2 s3 s4 where S: "soak_write h (sc_work_dir cli) streams s = (Inr (), s1)" "soak_fsync h s1 = (Inr (), s2)"
    "soak_rotate h cli s2 = (Inr (), s3)" "soak_progress h (sc_work_dir cli) s3 = (Inr (), s4)"
    "soak_loop h cli streams n s4 = (Inr u, s')"
    by (auto simp: and_then_Inr soak_op_def)
  note I = soak_progress_inv [OF S(4) soak_rotate_inv [OF S(3) soak_fsync_inv [OF S(2) soak_write_inv [OF S(1) Suc.prems(2)]] ne]]
  have "soak_counted (Suc m) s4"
    using soak_write_counted [OF S(1) Suc.prems(3)] Suc.prems(2) soak_rest_counted(1) [OF S(2)]
      soak_rest_counted(3) [OF S(3)] soak_rest_counted(4) [OF S(4)]
    by (simp add: soak_inv_def)
  from Suc.IH [OF S(5) I this] show ?case by simp
qed simp

lemma soak_session_counted:
  assumes run: "soak_session h env0 env1 env2 n cli streams wd = Inr sm" and d: "wd_dirs wd (sc_work_dir cli) = Some []"
    and ne: "with_extension (sc_work_dir cli) ''compact-tmp'' \<noteq> sc_work_dir cli"
  shows "ct_puts (sm_counters sm) + ct_deletes (sm_counters sm) = n
    \<and> sm_final_keys sm + ct_deletes (sm_counters sm) \<le> ct_puts (sm_counters sm)"
proof -
  let ?work = "sc_work_dir cli" and ?crc = "sh_crc h"
  obtain w k d1 where o: "dw_open (sh_flock h) env0 ?crc (sh_pid h) (sh_fd h) (wd_locks wd ?work) (Some []) = (Inr w, k, d1)"
    using run d by (auto simp: soak_session_def Let_def split: prod.splits sum.splits)
  obtain d' where D: "d1 = Some d'" "dw_inv ?crc w d'" "contents ?crc d' = Map.empty"
    by (rule dw_open_fresh [OF o dir_ok_Nil seg_ids_Nil], rule that)
  let ?s0 = "\<lparr>ss_idx = 0, ss_log = w, ss_world = put_dir wd ?work k d1, ss_expected = [],
    ss_counters = \<lparr>ct_puts = 0, ct_deletes = 0, ct_rotates = 0, ct_compacts = 0, ct_bytes_written = 0, ct_fsyncs = 0\<rparr>,
    ss_since = 0, ss_rows = []\<rparr>"
  have i: "soak_inv ?crc ?work ?s0" using D by (simp add: soak_inv_def)
  have c: "soak_counted 0 ?s0" by (simp add: soak_counted_def)
  obtain s where s: "soak_loop h cli streams n ?s0 = (Inr (), s)" "sm_counters sm = ss_counters s"
    "sm_final_keys sm = length (ss_expected s)"
    using run o d by (auto simp: soak_session_def Let_def split: prod.splits sum.splits)
  from soak_loop_counted [OF ne s(1) i c] s(2,3) show ?thesis by (simp add: soak_counted_def)
qed

lemma soak_run_counted:
  assumes run: "soak_run h env0 env1 env2 b64_dec parse crate_dir n cli wd = Inr sm"
    and rm: "sh_tree h 0 RemoveWork \<or> wd_dirs wd (sc_work_dir cli) = None"
    and ne: "with_extension (sc_work_dir cli) ''compact-tmp'' \<noteq> sc_work_dir cli"
  shows "ct_puts (sm_counters sm) + ct_deletes (sm_counters sm) = n
    \<and> sm_final_keys sm + ct_deletes (sm_counters sm) \<le> ct_puts (sm_counters sm)"
  using run rm
  by (auto simp: soak_run_def Let_def split: if_splits sum.splits dest: soak_session_counted [OF _ _ ne])

end
