(* ===== verification/Example_Soak.thy ===== *)
theory Example_Soak
  imports Example_Oracle Soak_Correct
begin

text \<open>A soak test of one operation, on streams of one record each.\<close>

definition ex_row_file :: string where
  "ex_row_file = ex_row (to_hex [1]) (to_hex [2, 3]) @ ''\<newline>''"

definition ex_soak_host :: "nat set soak_host" where
  "ex_soak_host = \<lparr>sh_flock = ex_flock, sh_fresh = {}, sh_crc = ex_crc, sh_pid = 0, sh_fd = 5, sh_fdt = 6,
     sh_env = (\<lambda>i. all_works), sh_env' = (\<lambda>i. all_works), sh_reopen = (\<lambda>i. all_works), sh_tree = (\<lambda>i c. True),
     sh_progress = (\<lambda>i. False), sh_csv = (\<lambda>i. True), sh_sample = (\<lambda>i. (0, None, None))\<rparr>"

definition ex_soak_cli :: soak_cli where
  "ex_soak_cli = \<lparr>sc_mode = Real, sc_duration = 1, sc_rotate_every = 5000, sc_compact_every = 4, sc_progress_secs = 60,
     sc_log_dir = ''log'', sc_work_dir = ''work'', sc_small = Some ''a'', sc_medium = Some ''b'', sc_large = Some ''c''\<rparr>"

definition ex_soak_world :: "nat set world" where
  "ex_soak_world = \<lparr>wd_dirs = Map.empty, wd_locks = (\<lambda>p. {}), wd_files = (\<lambda>p. Some ex_row_file)\<rparr>"

lemma ex_work: "with_extension ''work'' ''compact-tmp'' \<noteq> ''work''"
  by (simp add: with_extension_def file_stem_def)

lemma last_row: "last (ex_row a b) = CHR ''}''"
  by (simp add: ex_row_def)

lemma ex_load:
  "load_streams ex_unhex ex_parse_row (\<lambda>p. Some ex_row_file) dir ex_soak_cli =
   Inr ([\<lparr>so_key = [1], so_payload = [2, 3]\<rparr>], [\<lparr>so_key = [1], so_payload = [2, 3]\<rparr>], [\<lparr>so_key = [1], so_payload = [2, 3]\<rparr>])"
proof -
  have l: "buf_lines [] ex_row_file = [ex_row (to_hex [1]) (to_hex [2, 3])]"
    using buf_lines_row [OF ex_row_laws(3) [of "[1]" "[2, 3]"], of "[]" "[]"]
    by (simp add: ex_row_file_def chomp_def last_row del: to_hex.simps)
  have b: "\<not> blank (ex_row (to_hex [1]) (to_hex [2, 3]))" by (simp add: blank_def ex_row_def)
  have "load_jsonl ex_unhex ex_parse_row (\<lambda>p. Some ex_row_file) path = Inr [\<lparr>so_key = [1], so_payload = [2, 3]\<rparr>]" for path
    using b by (simp add: load_jsonl_def l ex_row_laws(1,2) del: to_hex.simps)
  then show ?thesis by (simp add: load_streams_def ex_soak_cli_def)
qed

lemma put_lock: "dw_put env crc w d k v = (r, w', d') \<Longrightarrow> rl_lock (dw_log w') = rl_lock (dw_log w)"
  by (auto simp: dw_put_def split: prod.splits sum.splits dest: append_record_lock)

lemma ex_soak:
  "\<exists>sm. soak_run ex_soak_host all_works all_works all_works ex_unhex ex_parse_row ''crate'' 1 ex_soak_cli ex_soak_world = Inr sm"
proof -
  obtain w k1 dopt where O: "dw_open ex_flock all_works ex_crc 0 5 {} (Some []) = (Inr w, {5}, dopt)"
    by (rule dw_open_contents [OF all_io_all_works dir_ok_Nil openable_Nil ex_flock_try [of 5], of ex_crc 0])
      (auto simp: recoverable_def intro: that)
  obtain d where D: "dopt = Some d" "dw_inv ex_crc w d" "rl_active_size (dw_log w) = 0" "rl_next_txid (dw_log w) = 1"
    "dw_log w = opened_log ex_crc 5 d" "contents ex_crc d = Map.empty"
    by (rule dw_open_fresh [OF O dir_ok_Nil seg_ids_Nil], rule that)
  obtain w1 d1 where P: "dw_put all_works ex_crc w d [1] [2, 3] = (Inr (), w1, d1)"
    using put_room [OF D(2) all_io_all_works, of "[1]" "[2, 3]"] D(3,4)
    by (auto simp: room_def wire_consts record_wire_size_def)
  have F: "dw_fsync all_works w1 = (Inr (), w1)"
    using put_unpoisoned [OF P] by (simp add: dw_fsync_def rl_fsync_def check_poisoned_def)
  have L: "rl_lock (dw_log w1) = 5" using put_lock [OF P] D(5) by (simp add: opened_log_def Let_def)
  note Q = put_Inr [OF D(2) P]
  have op: "openable d1" using put_openable [OF P] dw_open_openable [OF O [unfolded D(1)]] by simp
  have ri: "rl_inv ex_crc (dw_log w1) d1" "dir_ok d1" using Q by (auto simp: dw_inv_def kd_inv_def)
  obtain w2 d2 where R: "dw_open ex_flock all_works ex_crc 0 5 {} (Some d1) = (Inr w2, {5}, Some d2)"
    "kd_inv ex_crc w2 d2" "contents ex_crc d2 = contents ex_crc d1"
    using dw_open_contents [OF all_io_all_works ri(2) op ex_flock_try [of 5] rl_inv_recoverable [OF ri(1)], of 0] by metis
  have m: "contents ex_crc d2 = [[1] \<mapsto> [2, 3]]" using R(3) Q D(6) by simp
  obtain p where g: "dw_get all_works ex_crc w2 d2 [1] = (Inr (Some [2, 3]), w2\<lparr>dw_pool := p\<rparr>)"
    using get_contents [OF R(2) all_io_all_works, of "[1]"] unfolding m by auto
  have k: "set (dw_keys w2) = set (map fst [([1], [2, 3])])" 
  proof -
    have "set (dw_keys w2) = dom [[1 :: u8] \<mapsto> [2 :: u8, 3]]" using keys_contents [OF R(2)] unfolding m by (rule conjunct1)
    also have "\<dots> = set (map fst [([1], [2, 3])])" by simp
    finally show ?thesis .
  qed
  have "final_check all_works ex_crc d2 [([1], [2, 3])] w2 = Inr ()"
    unfolding final_check_def Let_def using g by (subst if_not_P) (use k in \<open>simp, simp\<close>)
  then show ?thesis
    using O D(1) P F L R(1) ex_load [of "''crate''"]
    by (simp add: soak_run_def ex_soak_host_def ex_soak_world_def ex_soak_cli_def soak_session_def Let_def put_dir_def
        soak_op_def and_then_def soak_write_def soak_fsync_def soak_rotate_def soak_progress_def pick_stream_def
        dir_at_def the_dir_def dir_lock_drop_def ex_flock_def)
qed

end
