(* ===== verification/Corpus.thy ===== *)
theory Corpus
  imports Cli_Commands
begin

text \<open>
  \<open>crates/datawal-core/examples/gen_corpus.rs\<close>: the generator of the on-disk fixtures.  A
  generator returns the fixture's directory as it leaves it.  \<open>gh_fs\<close> says which calls on
  directory trees and whole files work, \<open>gh_env\<close> those on the store; \<open>gh_fresh\<close> is the lock
  state of a new lock file; \<open>gh_unlock\<close> holds when the removal of \<open>.lock\<close>, whose failure is
  ignored, works.
\<close>

datatype gen_call =
    RemoveDir | CreateDir | StatSegmentFile | OpenForWrite | SetLen | ReadSegmentFile | WriteSegmentFile | CurrentDir

datatype gen_error = GenStore error | GenFs gen_call | TooManyArgs | GenPanic

record 'k gen_host =
  gh_flock :: "'k flock"
  gh_fresh :: 'k
  gh_crc :: "bytes \<Rightarrow> u32"
  gh_env :: os_env
  gh_pid :: nat
  gh_fd :: nat
  gh_fdt :: nat
  gh_fs :: "gen_call \<Rightarrow> bool"
  gh_unlock :: bool

definition corpus_root_default :: "string \<Rightarrow> string" where
  "corpus_root_default crate_dir = crate_dir @ ''/tests/corpus''"

text \<open>\<open>cwd\<close>: the current directory, if it can be determined.\<close>

definition gen_resolve_root :: "string \<Rightarrow> string option \<Rightarrow> string list \<Rightarrow> gen_error + string" where
  "gen_resolve_root crate_dir cwd args =
     (case args of
        [] \<Rightarrow> Inr (corpus_root_default crate_dir)
      | [arg] \<Rightarrow>
          if take 1 arg = ''/'' then Inr arg
          else (case cwd of None \<Rightarrow> Inl (GenFs CurrentDir) | Some c \<Rightarrow> Inr (c @ ''/'' @ arg))
      | _ \<Rightarrow> Inl TooManyArgs)"

definition reset_dir :: "'k gen_host \<Rightarrow> dir option \<Rightarrow> gen_error + dir" where
  "reset_dir h existing =
     (if existing \<noteq> None \<and> \<not> gh_fs h RemoveDir then Inl (GenFs RemoveDir)
      else if \<not> gh_fs h CreateDir then Inl (GenFs CreateDir)
      else Inr [])"

definition drop_lock_file :: "'k gen_host \<Rightarrow> dir \<Rightarrow> dir" where
  "drop_lock_file h d = (if gh_unlock h then AList.delete (Utf8 LOCK_FILENAME) d else d)"

section \<open>Raw records\<close>

text \<open>Calls of \<open>append\<close>, one after the other, each with \<open>?\<close>.\<close>

fun append_each ::
  "os_env \<Rightarrow> (bytes \<Rightarrow> u32) \<Rightarrow> bytes list \<Rightarrow> record_log \<Rightarrow> dir \<Rightarrow> (error + unit) \<times> record_log \<times> dir" where
  "append_each env crc [] log d = (Inr (), log, d)"
| "append_each env crc (p # ps) log d =
     (case rl_append env crc log d p of
        (Inl e, log1, d1) \<Rightarrow> (Inl e, log1, d1)
      | (Inr _, log1, d1) \<Rightarrow> append_each env crc ps log1 d1)"

text \<open>\<open>open\<close>, appends, \<open>fsync\<close>, \<open>close\<close> in a fresh directory.\<close>

definition raw_session :: "'k gen_host \<Rightarrow> bytes list \<Rightarrow> dir option \<Rightarrow> gen_error + dir" where
  "raw_session h payloads existing =
     (case reset_dir h existing of
        Inl e \<Rightarrow> Inl e
      | Inr d0 \<Rightarrow>
          (case rl_open (gh_flock h) (gh_env h) (gh_crc h) (gh_pid h) (gh_fd h) (gh_fresh h) (Some d0) of
             (Inl e, _, _) \<Rightarrow> Inl (GenStore e)
           | (Inr log, _, d1) \<Rightarrow>
               (case append_each (gh_env h) (gh_crc h) payloads log (the_dir d1) of
                  (Inl e, _, _) \<Rightarrow> Inl (GenStore e)
                | (Inr _, log2, d2) \<Rightarrow>
                    (case rl_fsync (gh_env h) log2 of
                       (Inl e, _) \<Rightarrow> Inl (GenStore e)
                     | (Inr _, _) \<Rightarrow> Inr d2))))"

definition gen_valid_log :: "'k gen_host \<Rightarrow> dir option \<Rightarrow> gen_error + dir" where
  "gen_valid_log h existing =
     (case raw_session h (map bytes_of_string [''alpha'', ''beta'', ''gamma'']) existing of
        Inl e \<Rightarrow> Inl e
      | Inr d \<Rightarrow> Inr (drop_lock_file h d))"

definition seg_file :: string where "seg_file = ''00000001.dwal''"

definition gen_truncated_tail :: "'k gen_host \<Rightarrow> dir option \<Rightarrow> gen_error + dir" where
  "gen_truncated_tail h existing =
     (case raw_session h (map bytes_of_string [''one'', ''two'', ''three'']) existing of
        Inl e \<Rightarrow> Inl e
      | Inr d \<Rightarrow>
          (case file_content d seg_file of
             None \<Rightarrow> Inl (GenFs StatSegmentFile)
           | Some bs \<Rightarrow>
               if \<not> gh_fs h StatSegmentFile then Inl (GenFs StatSegmentFile)
               else if length bs < 5 then Inl GenPanic
               else if \<not> gh_fs h OpenForWrite then Inl (GenFs OpenForWrite)
               else if \<not> gh_fs h SetLen then Inl (GenFs SetLen)
               else Inr (drop_lock_file h (put_file d seg_file (take (length bs - 5) bs)))))"

definition gen_unknown_version :: "'k gen_host \<Rightarrow> dir option \<Rightarrow> gen_error + dir" where
  "gen_unknown_version h existing =
     (case raw_session h [bytes_of_string ''first''] existing of
        Inl e \<Rightarrow> Inl e
      | Inr d \<Rightarrow>
          (case file_content d seg_file of
             None \<Rightarrow> Inl (GenFs ReadSegmentFile)
           | Some bs \<Rightarrow>
               if \<not> gh_fs h ReadSegmentFile then Inl (GenFs ReadSegmentFile)
               else if length bs < 6 then Inl GenPanic
               else if \<not> gh_fs h WriteSegmentFile then Inl (GenFs WriteSegmentFile)
               else Inr (drop_lock_file h (put_file d seg_file (bs[4 := 0xFE, 5 := 0xCA])))))"

text \<open>Three segments of one record each.\<close>

definition three_segments :: "'k gen_host \<Rightarrow> dir option \<Rightarrow> gen_error + dir" where
  "three_segments h existing =
     (let env = gh_env h; crc = gh_crc h in
      case reset_dir h existing of
        Inl e \<Rightarrow> Inl e
      | Inr d0 \<Rightarrow>
     (case rl_open (gh_flock h) env crc (gh_pid h) (gh_fd h) (gh_fresh h) (Some d0) of (Inl e, _, _) \<Rightarrow> Inl (GenStore e)
      | (Inr log0, _, d1) \<Rightarrow>
     (case rl_append env crc log0 (the_dir d1) (bytes_of_string ''good'') of (Inl e, _, _) \<Rightarrow> Inl (GenStore e)
      | (Inr _, log1, d2) \<Rightarrow>
     (case rl_rotate env log1 d2 of (Inl e, _, _) \<Rightarrow> Inl (GenStore e)
      | (Inr _, log2, d3) \<Rightarrow>
     (case rl_append env crc log2 d3 (bytes_of_string ''this-will-be-corrupted'') of (Inl e, _, _) \<Rightarrow> Inl (GenStore e)
      | (Inr _, log3, d4) \<Rightarrow>
     (case rl_rotate env log3 d4 of (Inl e, _, _) \<Rightarrow> Inl (GenStore e)
      | (Inr _, log4, d5) \<Rightarrow>
     (case rl_append env crc log4 d5 (bytes_of_string ''after'') of (Inl e, _, _) \<Rightarrow> Inl (GenStore e)
      | (Inr _, log5, d6) \<Rightarrow>
     (case rl_fsync env log5 of (Inl e, _) \<Rightarrow> Inl (GenStore e) | (Inr _, _) \<Rightarrow> Inr d6))))))))"

definition gen_bad_crc :: "'k gen_host \<Rightarrow> dir option \<Rightarrow> gen_error + dir" where
  "gen_bad_crc h existing =
     (case three_segments h existing of
        Inl e \<Rightarrow> Inl e
      | Inr d \<Rightarrow>
          (case file_content d ''00000002.dwal'' of
             None \<Rightarrow> Inl (GenFs ReadSegmentFile)
           | Some bs \<Rightarrow>
               if \<not> gh_fs h ReadSegmentFile then Inl (GenFs ReadSegmentFile)
               else let idx = 24 + 5 in
                 if length bs \<le> idx then Inl GenPanic
                 else if \<not> gh_fs h WriteSegmentFile then Inl (GenFs WriteSegmentFile)
                 else Inr (drop_lock_file h (put_file d ''00000002.dwal'' (bs[idx := bs ! idx XOR 0xFF])))))"

section \<open>Key-value stores\<close>

text \<open>Calls of \<open>put\<close> (\<open>Some\<close>) and \<open>delete\<close> (\<open>None\<close>), one after the other, each with \<open>?\<close>.\<close>

fun kv_each ::
  "os_env \<Rightarrow> (bytes \<Rightarrow> u32) \<Rightarrow> (string \<times> string option) list \<Rightarrow> data_wal \<Rightarrow> dir \<Rightarrow> (error + unit) \<times> data_wal \<times> dir" where
  "kv_each env crc [] w d = (Inr (), w, d)"
| "kv_each env crc ((key, Some v) # calls) w d =
     (case dw_put env crc w d (bytes_of_string key) (bytes_of_string v) of
        (Inl e, w1, d1) \<Rightarrow> (Inl e, w1, d1)
      | (Inr _, w1, d1) \<Rightarrow> kv_each env crc calls w1 d1)"
| "kv_each env crc ((key, None) # calls) w d =
     (case dw_delete env crc w d (bytes_of_string key) of
        (Inl e, w1, d1) \<Rightarrow> (Inl e, w1, d1)
      | (Inr _, w1, d1) \<Rightarrow> kv_each env crc calls w1 d1)"

text \<open>\<open>open\<close>, calls, \<open>fsync\<close> in a fresh directory; the handle is still open.\<close>

definition kv_session ::
  "'k gen_host \<Rightarrow> (string \<times> string option) list \<Rightarrow> dir option \<Rightarrow> gen_error + data_wal \<times> dir" where
  "kv_session h calls existing =
     (case reset_dir h existing of
        Inl e \<Rightarrow> Inl e
      | Inr d0 \<Rightarrow>
          (case dw_open (gh_flock h) (gh_env h) (gh_crc h) (gh_pid h) (gh_fd h) (gh_fresh h) (Some d0) of
             (Inl e, _, _) \<Rightarrow> Inl (GenStore e)
           | (Inr w, _, d1) \<Rightarrow>
               (case kv_each (gh_env h) (gh_crc h) calls w (the_dir d1) of
                  (Inl e, _, _) \<Rightarrow> Inl (GenStore e)
                | (Inr _, w2, d2) \<Rightarrow>
                    (case dw_fsync (gh_env h) w2 of
                       (Inl e, _) \<Rightarrow> Inl (GenStore e)
                     | (Inr _, w3) \<Rightarrow> Inr (w3, d2)))))"

definition gen_delete_tombstone :: "'k gen_host \<Rightarrow> dir option \<Rightarrow> gen_error + dir" where
  "gen_delete_tombstone h existing =
     (case kv_session h [(''alpha'', Some ''1''), (''beta'', Some ''2''), (''alpha'', Some ''3''), (''beta'', None)] existing of
        Inl e \<Rightarrow> Inl e
      | Inr (w, d) \<Rightarrow> Inr (drop_lock_file h d))"

text \<open>The source directory is a sibling of the fixture; what is there before is \<open>source\<close>.\<close>

definition gen_compact_to_output :: "'k gen_host \<Rightarrow> dir option \<Rightarrow> dir option \<Rightarrow> gen_error + dir" where
  "gen_compact_to_output h source existing =
     (case reset_dir h source of
        Inl e \<Rightarrow> Inl e
      | Inr _ \<Rightarrow>
          if existing \<noteq> None \<and> \<not> gh_fs h RemoveDir then Inl (GenFs RemoveDir)
          else
            (case kv_session h [(''keep'', Some ''final''), (''keep'', Some ''old''), (''keep'', Some ''final''),
                    (''gone'', Some ''nope''), (''gone'', None), (''other'', Some ''value'')] None of
               Inl e \<Rightarrow> Inl e
             | Inr (w, d) \<Rightarrow>
                 (case dw_compact_to (gh_flock h) (gh_env h) (gh_env h) (gh_crc h) (gh_pid h) (gh_fdt h) (gh_fresh h) w d None of
                    (Inl e, _, _, _) \<Rightarrow> Inl (GenStore e)
                  | (Inr _, _, _, out) \<Rightarrow>
                      if \<not> gh_fs h RemoveDir then Inl (GenFs RemoveDir)
                      else Inr (drop_lock_file h (the_dir out)))))"

text \<open>\<open>main\<close> once the root is known; \<open>at\<close> is what its entries are before.\<close>

definition gen_main :: "'k gen_host \<Rightarrow> (string \<Rightarrow> dir option) \<Rightarrow> gen_error + (string \<times> dir) list" where
  "gen_main h at =
     (if \<not> gh_fs h CreateDir then Inl (GenFs CreateDir) else
      case gen_valid_log h (at ''valid_log'') of Inl e \<Rightarrow> Inl e | Inr d1 \<Rightarrow>
     (case gen_truncated_tail h (at ''truncated_tail'') of Inl e \<Rightarrow> Inl e | Inr d2 \<Rightarrow>
     (case gen_bad_crc h (at ''bad_crc'') of Inl e \<Rightarrow> Inl e | Inr d3 \<Rightarrow>
     (case gen_unknown_version h (at ''unknown_version'') of Inl e \<Rightarrow> Inl e | Inr d4 \<Rightarrow>
     (case gen_delete_tombstone h (at ''delete_tombstone'') of Inl e \<Rightarrow> Inl e | Inr d5 \<Rightarrow>
     (case gen_compact_to_output h (at ''compact_to_source'') (at ''compact_to_output'') of Inl e \<Rightarrow> Inl e | Inr d6 \<Rightarrow>
        Inr [(''valid_log'', d1), (''truncated_tail'', d2), (''bad_crc'', d3), (''unknown_version'', d4),
             (''delete_tombstone'', d5), (''compact_to_output'', d6)]))))))"

end
