(* ===== verification/Fuzz_Targets.thy ===== *)
theory Fuzz_Targets
  imports Data_Wal_Correct
begin

text \<open>
  The three libFuzzer targets of \<open>fuzz/fuzz_targets/\<close>.  A target is the boolean
  \<open>no assertion of it fails\<close> on the fuzzer's input: an early \<open>return\<close> is \<open>True\<close>, a
  \<open>panic!\<close> is \<open>False\<close>.  The operations of one iteration may meet different operating
  systems: \<open>env\<close> during \<open>open\<close>, \<open>env1\<close> during \<open>put\<close>, \<open>env2\<close> during \<open>get\<close>;
  \<open>tmp_ok\<close> says whether the temporary directory could be made, which is then empty.
\<close>

definition MAX_FUZZ_INPUT :: nat where "MAX_FUZZ_INPUT = 256 * 1024"
definition MIN_FUZZ_INPUT :: nat where "MIN_FUZZ_INPUT = 3"

definition fuzz_decode_frame :: "(bytes \<Rightarrow> u32) \<Rightarrow> bytes \<Rightarrow> bool" where
  "fuzz_decode_frame crc data =
     (case decode_next crc data 0 of
        Inr (DOk _ _ key payload bytes_consumed) \<Rightarrow>
          bytes_consumed \<le> length data \<and> length key \<le> MAX_KEY_LEN \<and> length payload \<le> MAX_PAYLOAD_LEN
      | Inr (Truncated available needed) \<Rightarrow> available \<le> needed
      | Inr (CrcMismatch bytes_consumed) \<Rightarrow> bytes_consumed \<le> length data
      | Inl _ \<Rightarrow> True)"

definition fuzz_roundtrip ::
  "'k flock \<Rightarrow> os_env \<Rightarrow> os_env \<Rightarrow> os_env \<Rightarrow> (bytes \<Rightarrow> u32) \<Rightarrow> nat \<Rightarrow> nat \<Rightarrow> 'k \<Rightarrow> bool \<Rightarrow> bytes \<Rightarrow> bool" where
  "fuzz_roundtrip fl env env1 env2 crc pid fd k tmp_ok data =
     (if length data < MIN_FUZZ_INPUT \<or> length data > MAX_FUZZ_INPUT then True
      else
        let body = drop 2 data;
            key_len_raw = unat (le_word [data ! 0, data ! 1] :: u16);
            key_len = min (min key_len_raw (length body)) MAX_KEY_LEN;
            key = take key_len body;
            payload = drop key_len body
        in if length payload > MAX_PAYLOAD_LEN then True
        else if \<not> tmp_ok then True
        else case dw_open fl env crc pid fd k (Some []) of
          (Inl _, _, _) \<Rightarrow> True
        | (Inr kv, _, d) \<Rightarrow>
            (case dw_put env1 crc kv (case d of None \<Rightarrow> [] | Some d1 \<Rightarrow> d1) key payload of
               (Inl _, _, _) \<Rightarrow> True
             | (Inr _, kv1, d2) \<Rightarrow>
                 (case dw_get env2 crc kv1 d2 key of
                    (Inr (Some got), _) \<Rightarrow> got = payload
                  | (Inr None, _) \<Rightarrow> False
                  | (Inl _, _) \<Rightarrow> True)))"

text \<open>\<open>write_ok\<close>: the fuzzer's input could be written as \<open>00000001.dwal\<close>.\<close>

definition fuzz_scan_log ::
  "'k flock \<Rightarrow> os_env \<Rightarrow> (bytes \<Rightarrow> u32) \<Rightarrow> nat \<Rightarrow> nat \<Rightarrow> 'k \<Rightarrow> bool \<Rightarrow> bool \<Rightarrow> bytes \<Rightarrow> bool" where
  "fuzz_scan_log fl env crc pid fd k tmp_ok write_ok data =
     (if length data > MAX_FUZZ_INPUT then True
      else if \<not> tmp_ok then True
      else if \<not> write_ok then True
      else case rl_open fl env crc pid fd k (Some [(Utf8 ''00000001.dwal'', RegFile data)]) of
        (Inr log, _, _) \<Rightarrow>
          (case rl_recovery_report log of
             Inr report \<Rightarrow> rr_tail_bytes_discarded report \<le> length data
           | Inl _ \<Rightarrow> True)
      | (Inl _, _, _) \<Rightarrow> True)"

section \<open>No assertion fails\<close>

lemma decode_frame_holds: "fuzz_decode_frame crc data"
proof (cases "decode_next crc data 0")
  case (Inl e)
  then show ?thesis by (simp add: fuzz_decode_frame_def)
next
  case (Inr out)
  show ?thesis
  proof (cases out)
    case (DOk rt txid key payload n)
    with Inr have "decode_next crc data 0 = Inr (DOk rt txid key payload n)" by simp
    from decode_next_progress [OF this] decode_canonical(1) [OF this] show ?thesis
      by (simp add: fuzz_decode_frame_def Inr DOk frame_ok_def)
  next
    case (Truncated a n)
    with Inr have "a \<le> n"
      by (auto simp: decode_next_def Let_def split: if_splits sum.splits)
    then show ?thesis by (simp add: fuzz_decode_frame_def Inr Truncated)
  next
    case (CrcMismatch n)
    with Inr have "n \<le> length data"
      by (auto simp: decode_next_def Let_def intro: order_trans [OF mod_less_eq_dividend] split: if_splits sum.splits)
    then show ?thesis by (simp add: fuzz_decode_frame_def Inr CrcMismatch)
  qed
qed

lemma put_then_get:
  assumes o: "dw_open fl env crc pid fd k (Some []) = (Inr kv, k', d)"
    and p: "dw_put env1 crc kv (case d of None \<Rightarrow> [] | Some d1 \<Rightarrow> d1) key v = (Inr (), kv1, d2)"
    and g: "dw_get env2 crc kv1 d2 key = (Inr r, kv2)"
  shows "r = Some v"
proof -
  obtain d1 where D: "d = Some d1" "dw_inv crc kv d1"
    by (rule dw_open_fresh [OF o dir_ok_Nil seg_ids_Nil])
  note P = put_Inr [OF D(2), of env1 key v kv1 d2]
  with p D(1) have "dw_inv crc kv1 d2" "contents crc d2 = (contents crc d1)(key \<mapsto> v)" by simp_all
  with get_Inr [OF _ g] show ?thesis by (simp add: dw_inv_def)
qed

lemma roundtrip_holds: "fuzz_roundtrip fl env env1 env2 crc pid fd k tmp_ok data"
proof -
  have "case dw_put env1 crc kv (case d of None \<Rightarrow> [] | Some d1 \<Rightarrow> d1) key v of
      (Inl _, _, _) \<Rightarrow> True
    | (Inr _, kv1, d2) \<Rightarrow>
        (case dw_get env2 crc kv1 d2 key of
           (Inr (Some got), _) \<Rightarrow> got = v | (Inr None, _) \<Rightarrow> False | (Inl _, _) \<Rightarrow> True)"
    if o: "dw_open fl env crc pid fd k (Some []) = (Inr kv, k', d)" for kv k' d key v
  proof -
    obtain r kv1 d2 where p: "dw_put env1 crc kv (case d of None \<Rightarrow> [] | Some d1 \<Rightarrow> d1) key v = (r, kv1, d2)"
      by (metis prod_cases3)
    obtain q kv2 where g: "dw_get env2 crc kv1 d2 key = (q, kv2)" by force
    show ?thesis
    proof (cases r)
      case (Inr u)
      with p have p': "dw_put env1 crc kv (case d of None \<Rightarrow> [] | Some d1 \<Rightarrow> d1) key v = (Inr (), kv1, d2)"
        by simp
      show ?thesis
        using put_then_get [OF o p', of env2 _ kv2] by (auto simp: p g Inr split: sum.split option.split)
    qed (simp add: p)
  qed
  then have "case dw_open fl env crc pid fd k (Some []) of
      (Inl _, _, _) \<Rightarrow> True
    | (Inr kv, _, d) \<Rightarrow>
        (case dw_put env1 crc kv (case d of None \<Rightarrow> [] | Some d1 \<Rightarrow> d1) key v of
           (Inl _, _, _) \<Rightarrow> True
         | (Inr _, kv1, d2) \<Rightarrow>
             (case dw_get env2 crc kv1 d2 key of
                (Inr (Some got), _) \<Rightarrow> got = v | (Inr None, _) \<Rightarrow> False | (Inl _, _) \<Rightarrow> True))" for key v
    by (cases "dw_open fl env crc pid fd k (Some [])") (simp split: sum.split)
  then show ?thesis
    unfolding fuzz_roundtrip_def Let_def by (simp only: if_cancel)
qed

lemma segment_name_1: "segment_name 1 = ''00000001.dwal''"
proof -
  have d: "dec_digits 1 = ''1''" by (subst dec_digits.simps) (simp add: digit_char_def char_of_eq_iff)
  show ?thesis
    unfolding segment_name_def d zero_pad_def SEGMENT_ID_WIDTH_def SEGMENT_EXT_def
    by (simp add: eval_nat_numeral)
qed

lemma scan_log_holds: "fuzz_scan_log fl env crc pid fd k tmp_ok write_ok data"
proof -
  let ?d = "[(Utf8 ''00000001.dwal'', RegFile data)]"
  have c: "seg_content ?d i = (if i = 1 then Some data else None)" for i
    using segment_name_eq [of i 1] unfolding segment_name_1
    by (simp add: seg_content_def file_content_def)
  have ok: "dir_ok ?d" by (simp add: dir_ok_def)
  have ids: "seg_ids ?d = [1]" by (rule seg_ids_eqI [OF ok]) (auto simp: c)
  have "rr_tail_bytes_discarded report \<le> length data"
    if o: "rl_open fl env crc pid fd k (Some ?d) = (Inr log, k', d')" and r: "rl_recovery_report log = Inr report"
    for log k' d' report
  proof -
    obtain d2 where D: "log = opened_log crc fd d2" "seg_ids d2 = [1]" "seg_content d2 1 = Some data"
      by (rule rl_open_Inr [OF o ok], rule that) (simp_all add: ids c)
    have "length (seg_tail crc d2 1) \<le> length data"
      using arg_cong [OF seg_split(1) [of d2 1 crc], of length] D(3) by (simp add: seg_bytes_def)
    then show ?thesis
      using r opened_log_fields(4) [of d2 crc fd] D(1,2) by (auto simp: rl_recovery_report_def)
  qed
  then show ?thesis
    unfolding fuzz_scan_log_def by (auto split: prod.splits sum.splits)
qed

end
