(* ===== verification/Corpus_Correct.thy ===== *)
theory Corpus_Correct
  imports Corpus Soak_Correct Cli_Correct Torn_Tail Fuzz_Targets
begin

text \<open>
  What the corpus fixtures contain, when the generator succeeds and whatever calls fail on the
  way.
\<close>

section \<open>Raw records\<close>

lemma append_Inr:
  assumes inv: "rl_inv crc log d" and a: "rl_append_record env crc log d rt k v = (Inr ref, log', d')"
  defines "f \<equiv> append_frame log rt k v"
  shows "rl_inv crc log' d'" "frame_ok f" "rl_active_id log' = rl_active_id log" "seg_ids d' = seg_ids d"
    "rl_next_txid log' = rl_next_txid log + 1"
    "seg_content d' i = (if i = rl_active_id log then Some (seg_bytes d i @ wire crc f) else seg_content d i)"
    "\<exists>r. log_records crc d' = log_records crc d @ [r] \<and> rc_type r = rt \<and> rc_key r = k \<and> rc_payload r = v"
proof -
  note D = append_record_InrD [OF inv a] and I = rl_invD [OF inv]
  obtain t where t: "checked_succ (rl_next_txid log) = Some t" using D(4) by blast
  note A = append_record_ok [OF inv D(1-3) t]
  have e: "log' = log\<lparr>rl_active_size := rl_active_size log + wire_len f, rl_next_txid := t\<rparr>"
    "d' = append_file d (segment_name (rl_active_id log)) (wire crc f)"
    using a A(1) by (simp_all add: f_def)
  show "rl_inv crc log' d'" "frame_ok f" "rl_active_id log' = rl_active_id log" "seg_ids d' = seg_ids d"
    using A(2,4) D(1) by (simp_all add: e f_def)
  show "rl_next_txid log' = rl_next_txid log + 1"
    using t by (auto simp: e checked_succ_def split: if_splits)
  show "seg_content d' i = (if i = rl_active_id log then Some (seg_bytes d i @ wire crc f) else seg_content d i)"
    using seg_content_seg_bytes [OF last_seg_content [OF I(1,2)]] I(3) by (simp add: e seg_content_append)
  show "\<exists>r. log_records crc d' = log_records crc d @ [r] \<and> rc_type r = rt \<and> rc_key r = k \<and> rc_payload r = v"
    using A(3) by (simp add: e f_def append_frame_def located_def)
qed

lemma rotate_content:
  assumes "rl_inv crc log d" "rl_rotate env log d = (Inr (), log', d')"
  shows "rl_next_txid log' = rl_next_txid log" "rl_active_id log' = rl_active_id log + 1"
    "seg_content d' i = (if i = rl_active_id log + 1 then Some [] else seg_content d i)"
proof -
  note I = rl_invD [OF assms(1)]
  show "rl_next_txid log' = rl_next_txid log" "rl_active_id log' = rl_active_id log + 1"
    "seg_content d' i = (if i = rl_active_id log + 1 then Some [] else seg_content d i)"
    using assms(2) I(2,3)
    by (auto simp: rl_rotate_def list_segment_ids_Inr next_segment_id_def checked_add_u32_def seg_content_create
        split: sum.splits if_splits option.splits)
qed

text \<open>A new log: one empty segment, the first transaction id.\<close>

lemma open_new:
  assumes o: "rl_open fl env crc pid fd k (Some []) = (Inr log, k', dopt)"
  obtains d where "dopt = Some d" "rl_inv crc log d" "rl_active_id log = 1" "rl_next_txid log = 1"
    "seg_ids d = [1]" "seg_content d 1 = Some []" "log_records crc d = []"
proof -
  obtain d where D: "dopt = Some d" "log = opened_log crc fd d" "seg_ids d = [1]" "seg_content d 1 = Some []"
    "log_records crc d = []"
    using rl_open_Inr [OF o dir_ok_Nil] by (auto simp: log_records_def)
  have "rl_inv crc log d" using rl_open_empty [OF o] D(1) by auto
  with that D show thesis by (simp add: opened_log_fields opened_next_txid_eq checked_succ_def)
qed

text \<open>The frames of raw records with transaction ids from \<open>n\<close> on.\<close>

fun raw_frames :: "u64 \<Rightarrow> bytes list \<Rightarrow> frame list" where
  "raw_frames n [] = []"
| "raw_frames n (p # ps) = \<lparr>fr_type = Raw, fr_txid = n, fr_key = [], fr_payload = p\<rparr> # raw_frames (n + 1) ps"

lemma active_content: "rl_inv crc log d \<Longrightarrow> seg_content d (rl_active_id log) = Some (seg_bytes d (rl_active_id log))"
  using seg_content_seg_bytes [OF last_seg_content] by (simp add: rl_invD(1-3))

lemma append_each_Inr:
  "append_each env crc ps log d = (Inr u, log', d') \<Longrightarrow> rl_inv crc log d \<Longrightarrow>
    rl_inv crc log' d' \<and> seg_ids d' = seg_ids d
    \<and> list_all frame_ok (raw_frames (rl_next_txid log) ps)
    \<and> seg_content d' (rl_active_id log) =
        Some (seg_bytes d (rl_active_id log) @ stream crc (raw_frames (rl_next_txid log) ps))"
proof (induction ps arbitrary: log d)
  case Nil
  then show ?case using active_content by auto
next
  case (Cons p ps)
  then obtain r log1 d1 where a: "rl_append_record env crc log d Raw [] p = (Inr r, log1, d1)"
    and c: "append_each env crc ps log1 d1 = (Inr u, log', d')"
    by (auto simp: rl_append_def split: prod.splits sum.splits)
  note A = append_Inr [OF Cons.prems(2) a]
  from Cons.IH [OF c A(1)] show ?case
    using A(2-6) by (simp add: append_frame_def seg_bytes_def)
qed

lemma raw_session_Inr:
  assumes "raw_session h ps existing = Inr d"
  shows "dir_ok d" "seg_ids d = [1]" "list_all frame_ok (raw_frames 1 ps)"
    "seg_content d 1 = Some (stream (gh_crc h) (raw_frames 1 ps))"
proof -
  obtain log k1 dopt log2 where
    o: "rl_open (gh_flock h) (gh_env h) (gh_crc h) (gh_pid h) (gh_fd h) (gh_fresh h) (Some []) = (Inr log, k1, dopt)"
    and a: "append_each (gh_env h) (gh_crc h) ps log (the_dir dopt) = (Inr (), log2, d)"
    using assms by (auto simp: raw_session_def reset_dir_def split: sum.splits prod.splits if_splits)
  obtain d0 where D: "dopt = Some d0" "rl_inv (gh_crc h) log d0" "rl_active_id log = 1" "rl_next_txid log = 1"
    "seg_ids d0 = [1]" "seg_content d0 1 = Some []"
    by (rule open_new [OF o])
  have "append_each (gh_env h) (gh_crc h) ps log d0 = (Inr (), log2, d)" using a D(1) by (simp add: the_dir_def)
  from append_each_Inr [OF this D(2)] D(3-6) show "dir_ok d" "seg_ids d = [1]" "list_all frame_ok (raw_frames 1 ps)"
    "seg_content d 1 = Some (stream (gh_crc h) (raw_frames 1 ps))"
    by (auto simp: seg_bytes_def dest: rl_invD(1))
qed

section \<open>Reading a fixture\<close>

text \<open>Type, key and payload of the records of a store.\<close>

definition entries :: "(bytes \<Rightarrow> u32) \<Rightarrow> dir \<Rightarrow> (record_type \<times> bytes \<times> bytes) list" where
  "entries crc d = map (\<lambda>r. (rc_type r, rc_key r, rc_payload r)) (log_records crc d)"

lemma drop_lock_content [simp]:
  "seg_content (drop_lock_file h d) i = seg_content d i" "dir_ok d \<Longrightarrow> dir_ok (drop_lock_file h d)"
proof -
  have "segment_name i \<noteq> LOCK_FILENAME"
  proof
    assume "segment_name i = LOCK_FILENAME"
    then have "length (segment_name i) = 5" by (simp add: LOCK_FILENAME_def)
    then show False by (auto simp: segment_name_def zero_pad_def SEGMENT_ID_WIDTH_def SEGMENT_EXT_def)
  qed
  then show "seg_content (drop_lock_file h d) i = seg_content d i"
    by (simp add: drop_lock_file_def seg_content_def file_content_def delete_conv')
  show "dir_ok d \<Longrightarrow> dir_ok (drop_lock_file h d)" by (simp add: drop_lock_file_def dir_ok_def distinct_delete)
qed

lemma drop_lock_same:
  assumes "dir_ok d"
  shows "seg_ids (drop_lock_file h d) = seg_ids d" "log_records crc (drop_lock_file h d) = log_records crc d"
    "seg_tail crc (drop_lock_file h d) i = seg_tail crc d i"
    "recoverable crc (drop_lock_file h d) = recoverable crc d" "entries crc (drop_lock_file h d) = entries crc d"
    "active_tail crc (drop_lock_file h d) = active_tail crc d"
  using same_segments [of d "drop_lock_file h d"] assms by (simp_all add: entries_def active_tail_def)

lemma put_segment_ids:
  assumes "dir_ok d" "i \<in> set (seg_ids d)"
  shows "seg_ids (put_file d (segment_name i) bs) = seg_ids d"
proof (rule seg_ids_eqI)
  show "set (seg_ids d) = {sid. sid < 10 ^ 8 \<and> seg_content (put_file d (segment_name i) bs) sid \<noteq> None}"
    using assms set_seg_ids [OF assms(1)] by (auto simp: seg_content_def)
qed (use assms in simp_all)

lemma entries_raw: "map (\<lambda>r. (rc_type r, rc_key r, rc_payload r)) (place sid off (raw_frames n ps)) = map (\<lambda>p. (Raw, [], p)) ps"
  by (induction ps arbitrary: off n) (simp_all add: located_def)

lemma one_segment_store:
  assumes "dir_ok d" "seg_ids d = [1]" "seg_content d 1 = Some (stream crc (raw_frames 1 ps) @ t)"
    "list_all frame_ok (raw_frames 1 ps)" "parse_frame crc t = None"
  shows "entries crc d = map (\<lambda>p. (Raw, [], p)) ps" "active_tail crc d = t"
    "recoverable crc d \<longleftrightarrow> tolerated (tail_of crc t)"
proof -
  note S = seg_splitI [OF assms(3-5)]
  show "entries crc d = map (\<lambda>p. (Raw, [], p)) ps"
    using S(1) entries_raw [of 1 0 1 ps] by (simp add: entries_def log_records_def seg_records_def assms(2))
  show "active_tail crc d = t" "recoverable crc d \<longleftrightarrow> tolerated (tail_of crc t)"
    using S(2) by (simp_all add: active_tail_def recoverable_def assms(2))
qed

section \<open>The raw fixtures\<close>

lemma valid_log_entries:
  assumes "gen_valid_log h existing = Inr d"
  shows "dir_ok d \<and> recoverable (gh_crc h) d \<and> active_tail (gh_crc h) d = []
    \<and> entries (gh_crc h) d = map (\<lambda>p. (Raw, [], bytes_of_string p)) [''alpha'', ''beta'', ''gamma'']"
proof -
  obtain d0 where r: "raw_session h (map bytes_of_string [''alpha'', ''beta'', ''gamma'']) existing = Inr d0"
    and d: "d = drop_lock_file h d0"
    using assms by (auto simp: gen_valid_log_def split: sum.splits)
  note R = raw_session_Inr [OF r]
  have c: "seg_content d0 1 = Some (stream (gh_crc h) (raw_frames 1 (map bytes_of_string [''alpha'', ''beta'', ''gamma''])) @ [])"
    using R(4) by simp
  from one_segment_store [OF R(1,2) c R(3) parse_frame_Nil] R(1) show ?thesis
    by (simp add: d drop_lock_same [OF R(1)])
qed

lemma seg_file_name: "seg_file = segment_name 1"
  by (simp only: seg_file_def segment_name_1)

lemma segment_name_2: "''00000002.dwal'' = segment_name 2"
proof -
  have d: "dec_digits 2 = ''2''" by (subst dec_digits.simps) (simp add: digit_char_def char_of_eq_iff)
  show ?thesis
    unfolding segment_name_def d zero_pad_def SEGMENT_ID_WIDTH_def SEGMENT_EXT_def
    by (simp add: eval_nat_numeral)
qed

lemma truncated_tail_entries:
  assumes "gen_truncated_tail h existing = Inr d"
  shows "dir_ok d \<and> recoverable (gh_crc h) d \<and> length (active_tail (gh_crc h) d) = 28
    \<and> entries (gh_crc h) d = map (\<lambda>p. (Raw, [], bytes_of_string p)) [''one'', ''two'']"
proof -
  let ?crc = "gh_crc h"
  obtain d0 bs where r: "raw_session h (map bytes_of_string [''one'', ''two'', ''three'']) existing = Inr d0"
    and bs: "seg_content d0 1 = Some bs"
    and d': "d = drop_lock_file h (put_file d0 (segment_name 1) (take (length bs - 5) bs))"
    using assms by (auto simp: gen_truncated_tail_def seg_file_name seg_content_def split: sum.splits option.splits if_splits)
  note R = raw_session_Inr [OF r]
  define d1 where "d1 = put_file d0 (segment_name 1) (take (length bs - 5) bs)"
  have d: "d = drop_lock_file h d1" by (simp add: d' d1_def)
  define f where "f = \<lparr>fr_type = Raw, fr_txid = 3, fr_key = [], fr_payload = bytes_of_string ''three''\<rparr>"
  have f: "frame_ok f" "wire_len f = 33"
    by (simp_all add: f_def frame_ok_def wire_len_def record_wire_size_def bytes_of_string_def wire_consts)
  let ?ps = "map bytes_of_string [''one'', ''two'']"
  have b: "bs = stream ?crc (raw_frames 1 ?ps) @ wire ?crc f"
    using bs R(4) by (simp add: f_def stream_concat)
  have c: "seg_content d1 1 = Some (stream ?crc (raw_frames 1 ?ps) @ take 28 (wire ?crc f))"
    by (simp add: d1_def seg_content_def b length_wire f(2))
  have ok: "dir_ok d1" "seg_ids d1 = [1]"
    using R(1,2) put_segment_ids [OF R(1), of 1] by (simp_all add: d1_def)
  have fs: "list_all frame_ok (raw_frames 1 ?ps)" using R(3) by simp
  have t: "parse_frame ?crc (take 28 (wire ?crc f)) = None" "tail_of ?crc (take 28 (wire ?crc f)) = ShortTail"
    using parse_torn [OF f(1)] tail_of_torn [OF f(1)] f(2) by simp_all
  note S = one_segment_store [OF ok c fs t(1)]
  show ?thesis
    using S ok(1) by (simp add: d drop_lock_same [OF ok(1)] t(2) length_wire f(2))
qed

lemma unknown_version_entries:
  assumes "gen_unknown_version h existing = Inr d"
  shows "dir_ok d \<and> \<not> recoverable (gh_crc h) d \<and> seg_ids d = [1]
    \<and> decode_next (gh_crc h) (seg_bytes d 1) 0 = Inl (UnknownVersion 0xCAFE)"
proof -
  let ?crc = "gh_crc h"
  obtain d0 bs where r: "raw_session h [bytes_of_string ''first''] existing = Inr d0"
    and bs: "seg_content d0 1 = Some bs"
    and d': "d = drop_lock_file h (put_file d0 (segment_name 1) (bs[4 := 0xFE, 5 := 0xCA]))"
    using assms by (auto simp: gen_unknown_version_def seg_file_name seg_content_def split: sum.splits option.splits if_splits)
  note R = raw_session_Inr [OF r]
  define d1 where "d1 = put_file d0 (segment_name 1) (bs[4 := 0xFE, 5 := 0xCA])"
  have d: "d = drop_lock_file h d1" by (simp add: d' d1_def)
  define f where "f = \<lparr>fr_type = Raw, fr_txid = 1, fr_key = [], fr_payload = bytes_of_string ''first''\<rparr>"
  let ?b = "bs[4 := 0xFE, 5 := 0xCA]"
  have b: "bs = wire ?crc f" using bs R(4) by (simp add: f_def stream_concat)
  then obtain xs where xs: "bs = [0x44, 0x57, 0x41, 0x4C, 1, 0, as_byte Raw, 0] @ xs"
    using wire_start [of ?crc f] by (auto simp: f_def)
  have "28 \<le> length bs" using b wire_len_ge [of f] by (simp add: length_wire)
  moreover have "header_verdict (take 24 ?b) = Some (UnknownVersion 0xCAFE)"
  proof -
    have b': "?b = [0x44, 0x57, 0x41, 0x4C, 0xFE, 0xCA, as_byte Raw, 0] @ xs"
      by (simp add: xs eval_nat_numeral)
    have "slice 0 4 (take 24 ?b) = MAGIC" "slice 4 6 (take 24 ?b) = [0xFE, 0xCA]"
      by (simp_all add: b' slice_def MAGIC_def)
    moreover have "le_word [0xFE, 0xCA] = (0xCAFE :: u16)" "(0xCAFE :: u16) \<noteq> WIRE_VERSION" by code_simp+
    ultimately show ?thesis by (simp only: header_verdict_def) simp
  qed
  ultimately have v: "decode_next ?crc ?b 0 = Inl (UnknownVersion 0xCAFE)" by (simp add: decode_next_Inl)
  have ne: "?b \<noteq> []" by (simp add: xs)
  have p: "parse_frame ?crc ?b = None" by (simp add: parse_frame_def v)
  have c: "seg_content d1 1 = Some (stream ?crc (raw_frames 1 []) @ ?b)" by (simp add: d1_def seg_content_def stream_concat)
  have ok: "dir_ok d1" "seg_ids d1 = [1]"
    using R(1,2) put_segment_ids [OF R(1), of 1] by (simp_all add: d1_def)
  have "\<not> recoverable ?crc d1"
    using one_segment_store(3) [OF ok c _ p] ne by (simp add: tail_of_def v)
  moreover have "seg_bytes d 1 = ?b" using c by (simp add: d seg_bytes_def stream_concat)
  ultimately show ?thesis using ok v by (simp add: d drop_lock_same [OF ok(1)])
qed

text \<open>A checksum that changes when one byte is complemented, as CRC-32C does.\<close>

definition detects_byte_flip :: "(bytes \<Rightarrow> u32) \<Rightarrow> bool" where
  "detects_byte_flip crc \<longleftrightarrow> (\<forall>bs i. i < length bs \<longrightarrow> crc (bs[i := bs ! i XOR 0xFF]) \<noteq> crc bs)"

lemma flip_middle:
  assumes "length a \<le> i" "i < length a + length (b :: bytes)"
  shows "(a @ b @ c)[i := (a @ b @ c) ! i XOR 0xFF] = a @ b[i - length a := b ! (i - length a) XOR 0xFF] @ c"
proof -
  have "i - length a < length b" using assms by linarith
  with assms show ?thesis by (simp add: list_update_append nth_append)
qed

lemma flipped_frame:
  assumes f: "frame_ok f" and det: "detects_byte_flip crc"
    and i: "24 \<le> i" "i < 24 + (length (fr_key f) + length (fr_payload f))"
  shows "decode_next crc ((wire crc f)[i := wire crc f ! i XOR 0xFF]) 0 = Inr (CrcMismatch (wire_len f))"
proof -
  define body tl where "body = fr_key f @ fr_payload f" and "tl = le_bytes 4 (crc (frame_body f))"
  let ?body' = "body[i - 24 := body ! (i - 24) XOR 0xFF]"
  have w: "wire crc f = frame_header f @ body @ tl" "frame_body f = frame_header f @ body @ []"
    by (simp_all add: wire_def frame_body_def body_def tl_def)
  have l: "length body = length (fr_key f) + length (fr_payload f)" by (simp add: body_def)
  note F = flip_middle [of "frame_header f" i body, unfolded length_frame_header, OF i(1) i(2) [folded l]]
  have "i < length (frame_body f)" using i by (simp add: length_frame_body)
  then have "crc (frame_header f @ ?body') \<noteq> crc (frame_body f)"
    using det F [of "[]", folded w(2)] unfolding detects_byte_flip_def by (metis append_Nil2)
  then show ?thesis
    using decode_corrupt_body [OF f, of ?body' crc tl "[]"] l unfolding w(1) F by (simp add: tl_def)
qed

lemma three_segments_Inr:
  assumes "three_segments h existing = Inr d"
  defines "f \<equiv> \<lparr>fr_type = Raw, fr_txid = 2, fr_key = [], fr_payload = bytes_of_string ''this-will-be-corrupted''\<rparr>"
  shows "dir_ok d" "seg_ids d = [1, 2, 3]" "frame_ok f" "seg_content d 2 = Some (wire (gh_crc h) f)"
proof -
  let ?crc = "gh_crc h"
  obtain log0 k1 dopt log1 d2 log2 d3 log3 d4 log4 d5 log5 r1 r2 r3 where
    o: "rl_open (gh_flock h) (gh_env h) ?crc (gh_pid h) (gh_fd h) (gh_fresh h) (Some []) = (Inr log0, k1, dopt)"
    and a1: "rl_append_record (gh_env h) ?crc log0 (the_dir dopt) Raw [] (bytes_of_string ''good'') = (Inr r1, log1, d2)"
    and t1: "rl_rotate (gh_env h) log1 d2 = (Inr (), log2, d3)"
    and a2: "rl_append_record (gh_env h) ?crc log2 d3 Raw [] (bytes_of_string ''this-will-be-corrupted'') = (Inr r2, log3, d4)"
    and t2: "rl_rotate (gh_env h) log3 d4 = (Inr (), log4, d5)"
    and a3: "rl_append_record (gh_env h) ?crc log4 d5 Raw [] (bytes_of_string ''after'') = (Inr r3, log5, d)"
    using assms(1) by (auto simp: three_segments_def reset_dir_def Let_def rl_append_def split: sum.splits prod.splits if_splits)
  obtain d1 where D: "dopt = Some d1" "rl_inv ?crc log0 d1" "rl_active_id log0 = 1" "rl_next_txid log0 = 1"
    "seg_ids d1 = [1]" "seg_content d1 1 = Some []"
    by (rule open_new [OF o])
  have a1': "rl_append_record (gh_env h) ?crc log0 d1 Raw [] (bytes_of_string ''good'') = (Inr r1, log1, d2)"
    using a1 D(1) by (simp add: the_dir_def)
  note A1 = append_Inr [OF D(2) a1']
  note T1 = rotate_content [OF A1(1) t1] and T1' = rotate_Inr [OF A1(1) t1]
  have i2: "rl_active_id log2 = 2" using T1 A1(3) D(3) by simp
  have T2: "rl_inv ?crc log2 d3" "seg_ids d3 = [1, 2]" "seg_content d3 2 = Some []" "rl_next_txid log2 = 2"
    using T1 T1' i2 A1(3,4,5) D(3,4,5) by simp_all
  note A2 = append_Inr [OF T2(1) a2]
  have i3: "rl_active_id log4 = 3" using rotate_content(2) [OF A2(1) t2] A2(3) i2 by simp
  have T3: "rl_inv ?crc log4 d5" "seg_ids d5 = [1, 2, 3]" "seg_content d5 2 = seg_content d4 2"
    using rotate_content [OF A2(1) t2] rotate_Inr [OF A2(1) t2] i2 i3 A2(3,4) T2(2) by simp_all
  note A3 = append_Inr [OF T3(1) a3]
  show "dir_ok d" "seg_ids d = [1, 2, 3]" using A3(1,4) T3(2) by (simp_all add: rl_invD(1))
  show "frame_ok f" using A2(2) T2(4) by (simp add: f_def append_frame_def)
  show "seg_content d 2 = Some (wire ?crc f)"
    using A3(6) [of 2] i3 T3(3) A2(6) [of 2] i2 T2(3,4) by (simp add: f_def append_frame_def seg_bytes_def)
qed

lemma bad_crc_entries:
  assumes "gen_bad_crc h existing = Inr d" "detects_byte_flip (gh_crc h)"
  shows "dir_ok d \<and> \<not> recoverable (gh_crc h) d \<and> seg_ids d = [1, 2, 3]
    \<and> (\<exists>n. decode_next (gh_crc h) (seg_bytes d 2) 0 = Inr (CrcMismatch n))"
proof -
  let ?crc = "gh_crc h"
  define f where "f = \<lparr>fr_type = Raw, fr_txid = 2, fr_key = [], fr_payload = bytes_of_string ''this-will-be-corrupted''\<rparr>"
  let ?b = "(wire ?crc f)[29 := wire ?crc f ! 29 XOR 0xFF]"
  obtain d0 bs where r: "three_segments h existing = Inr d0" and bs: "seg_content d0 2 = Some bs"
    and d': "d = drop_lock_file h (put_file d0 (segment_name 2) (bs[29 := bs ! 29 XOR 0xFF]))"
    using assms(1) by (auto simp: gen_bad_crc_def segment_name_2 seg_content_def split: sum.splits option.splits if_splits)
  note R = three_segments_Inr [OF r, folded f_def]
  define d1 where "d1 = put_file d0 (segment_name 2) ?b"
  have d: "d = drop_lock_file h d1" using bs R(4) by (simp add: d' d1_def)
  have "decode_next ?crc ?b 0 = Inr (CrcMismatch (wire_len f))"
    by (rule flipped_frame [OF R(3) assms(2)]) (simp_all add: f_def bytes_of_string_def)
  then have p: "parse_frame ?crc ?b = None" "decode_next ?crc ?b 0 = Inr (CrcMismatch (wire_len f))"
    by (simp_all add: parse_frame_def)
  have c: "seg_content d1 2 = Some (stream ?crc [] @ ?b)" by (simp add: d1_def seg_content_def stream_concat)
  have ok: "dir_ok d1" "seg_ids d1 = [1, 2, 3]"
    using R(1,2) put_segment_ids [OF R(1), of 2] by (simp_all add: d1_def)
  have "seg_tail ?crc d1 2 = ?b" using seg_splitI(2) [OF c _ p(1)] by simp
  moreover have "?b \<noteq> []" by simp
  ultimately have "\<not> recoverable ?crc d1" using ok by (simp add: recoverable_def)
  then show ?thesis
    using c ok p(2) by (simp add: d drop_lock_same [OF ok(1)] seg_bytes_def stream_concat)
qed

section \<open>The key-value fixtures\<close>

lemma append_entries:
  "rl_append_record env crc log d rt k v = (Inr ref, log', d') \<Longrightarrow> rl_inv crc log d \<Longrightarrow>
    entries crc d' = entries crc d @ [(rt, k, v)]"
  using append_Inr(7) [of crc log d env rt k v ref log' d'] by (auto simp: entries_def)

text \<open>What a call appends, and what it does to the map.\<close>

fun call_entry :: "string \<times> string option \<Rightarrow> record_type \<times> bytes \<times> bytes" where
  "call_entry (k, Some v) = (Put, bytes_of_string k, bytes_of_string v)"
| "call_entry (k, None) = (Delete, bytes_of_string k, [])"

fun call_map :: "string \<times> string option \<Rightarrow> (bytes \<rightharpoonup> bytes) \<Rightarrow> (bytes \<rightharpoonup> bytes)" where
  "call_map (k, v) m = m(bytes_of_string k := map_option bytes_of_string v)"

lemma kv_each_Inr:
  "kv_each env crc calls w d = (Inr u, w', d') \<Longrightarrow> dw_inv crc w d \<Longrightarrow>
    dw_inv crc w' d' \<and> entries crc d' = entries crc d @ map call_entry calls
    \<and> contents crc d' = fold call_map calls (contents crc d)"
proof (induction env crc calls w d rule: kv_each.induct)
  case (2 env crc key v calls w d)
  from 2(2) obtain w1 d1 where p: "dw_put env crc w d (bytes_of_string key) (bytes_of_string v) = (Inr (), w1, d1)"
    and c: "kv_each env crc calls w1 d1 = (Inr u, w', d')"
    by (auto split: prod.splits sum.splits)
  from p obtain ref log' where "rl_append_record env crc (dw_log w) d Put (bytes_of_string key) (bytes_of_string v) = (Inr ref, log', d1)"
    by (auto simp: dw_put_def split: prod.splits sum.splits)
  from append_entries [OF this] 2(3) have "entries crc d1 = entries crc d @ [(Put, bytes_of_string key, bytes_of_string v)]"
    by (simp add: dw_inv_def)
  with 2(1) [OF p [symmetric] refl refl c] put_Inr [OF 2(3) p] show ?case by (simp add: fun_upd_def)
next
  case (3 env crc key calls w d)
  from 3(2) obtain w1 d1 where p: "dw_delete env crc w d (bytes_of_string key) = (Inr (), w1, d1)"
    and c: "kv_each env crc calls w1 d1 = (Inr u, w', d')"
    by (auto split: prod.splits sum.splits)
  from p obtain ref log' where "rl_append_record env crc (dw_log w) d Delete (bytes_of_string key) [] = (Inr ref, log', d1)"
    by (auto simp: dw_delete_def split: prod.splits sum.splits)
  from append_entries [OF this] 3(3) have "entries crc d1 = entries crc d @ [(Delete, bytes_of_string key, [])]"
    by (simp add: dw_inv_def)
  with 3(1) [OF p [symmetric] refl refl c] delete_Inr [OF 3(3) p] show ?case by (simp add: fun_upd_def)
qed simp

lemma kv_session_Inr:
  assumes "kv_session h calls existing = Inr (w, d)"
  shows "dw_inv (gh_crc h) w d" "entries (gh_crc h) d = map call_entry calls"
    "contents (gh_crc h) d = fold call_map calls Map.empty"
proof -
  obtain w0 k1 dopt w2 where
    o: "dw_open (gh_flock h) (gh_env h) (gh_crc h) (gh_pid h) (gh_fd h) (gh_fresh h) (Some []) = (Inr w0, k1, dopt)"
    and a: "kv_each (gh_env h) (gh_crc h) calls w0 (the_dir dopt) = (Inr (), w2, d)"
    and f: "dw_fsync (gh_env h) w2 = (Inr (), w)"
    using assms by (auto simp: kv_session_def reset_dir_def split: sum.splits prod.splits if_splits)
  obtain d0 where D: "dopt = Some d0" "dw_inv (gh_crc h) w0 d0" "contents (gh_crc h) d0 = Map.empty"
    by (rule dw_open_fresh [OF o dir_ok_Nil seg_ids_Nil])
  have "log_records (gh_crc h) d0 = []"
    using dw_open_Inr [OF o dir_ok_Nil] D(1) by (metis ids_records_simps(1) log_records_def option.inject seg_ids_Nil)
  then have e: "entries (gh_crc h) d0 = []" by (simp add: entries_def)
  have "kv_each (gh_env h) (gh_crc h) calls w0 d0 = (Inr (), w2, d)" using a D(1) by (simp add: the_dir_def)
  from kv_each_Inr [OF this D(2)] e D(3) have K: "dw_inv (gh_crc h) w2 d" "entries (gh_crc h) d = map call_entry calls"
    "contents (gh_crc h) d = fold call_map calls Map.empty" by simp_all
  have "w = w2" using f fsync_Inr by (auto simp: dw_fsync_def split: prod.splits)
  with K show "dw_inv (gh_crc h) w d" "entries (gh_crc h) d = map call_entry calls"
    "contents (gh_crc h) d = fold call_map calls Map.empty" by simp_all
qed

lemma delete_tombstone_entries:
  assumes "gen_delete_tombstone h existing = Inr d"
  shows "dir_ok d \<and> recoverable (gh_crc h) d
    \<and> entries (gh_crc h) d = map call_entry [(''alpha'', Some ''1''), (''beta'', Some ''2''), (''alpha'', Some ''3''), (''beta'', None)]
    \<and> contents (gh_crc h) d = [bytes_of_string ''alpha'' \<mapsto> bytes_of_string ''3'']"
proof -
  obtain w d0 where k: "kv_session h [(''alpha'', Some ''1''), (''beta'', Some ''2''), (''alpha'', Some ''3''), (''beta'', None)]
      existing = Inr (w, d0)" and d: "d = drop_lock_file h d0"
    using assms by (auto simp: gen_delete_tombstone_def split: sum.splits)
  note K = kv_session_Inr [OF k]
  have ok: "dir_ok d0" "recoverable (gh_crc h) d0"
    using K(1) rl_inv_recoverable by (auto simp: dw_inv_def kd_inv_def)
  have "contents (gh_crc h) d = contents (gh_crc h) d0" by (simp add: d contents_def drop_lock_same [OF ok(1)])
  also have "\<dots> = [bytes_of_string ''alpha'' \<mapsto> bytes_of_string ''3'']"
    unfolding K(3) by (auto simp: fun_eq_iff bytes_of_string_def)
  finally show ?thesis using ok K(2) by (simp add: d drop_lock_same [OF ok(1)])
qed

lemma copy_keys_entries:
  "copy_keys env env' crc d ks stats w log0 d0 = (Inr st, w1, log1, d1) \<Longrightarrow> kd_inv crc w d \<Longrightarrow> rl_inv crc log0 d0 \<Longrightarrow>
    entries crc d1 = entries crc d0 @ map (\<lambda>k. (Put, k, the (contents crc d k))) ks"
proof (induction ks arbitrary: stats w log0 d0)
  case (Cons k ks)
  from Cons.prems(1) obtain v w2 r log2 d2 where g: "get_live env crc w d k = (Inr v, w2)"
    and a: "rl_append_record env' crc log0 d0 Put k v = (Inr r, log2, d2)"
    and c: "copy_keys env env' crc d ks (stats\<lparr>cs_records_written := cs_records_written stats + 1,
        cs_bytes_written := cs_bytes_written stats + ref_len r\<rparr>) w2 log2 d2 = (Inr st, w1, log1, d1)"
    by (auto split: prod.splits sum.splits)
  have v: "contents crc d k = Some v" "kd_inv crc w2 d"
    using g get_Inr [OF Cons.prems(2)] by (auto simp: get_live_def split: prod.splits sum.splits option.splits)
  from Cons.IH [OF c v(2) append_Inr(1) [OF Cons.prems(3) a]] append_entries [OF a Cons.prems(3)] v(1)
  show ?case by simp
qed simp

lemma compact_to_entries:
  assumes c: "dw_compact_to fl env env' crc pid fd k w d None = (Inr stats, w1, k', out)" and inv: "kd_inv crc w d"
  shows "entries crc (the_dir out) = map (\<lambda>k. (Put, k, the (contents crc d k))) (sort (dw_keys w))"
proof -
  obtain log0 k1 o1 st log1 d1 where o: "rl_open fl env' crc pid fd k None = (Inr log0, k1, o1)"
    and k: "copy_keys env env' crc d (sort (dw_keys w)) \<lparr>cs_live_keys = 0, cs_records_written = 0, cs_bytes_written = 0\<rparr>
        w log0 (case o1 of None \<Rightarrow> [] | Some d1 \<Rightarrow> d1) = (Inr st, w1, log1, d1)" and d1: "out = Some d1"
    using c by (auto simp: dw_compact_to_def Let_def split: if_splits prod.splits sum.splits)
  obtain d0 where D: "o1 = Some d0" "rl_inv crc log0 d0" "log_records crc d0 = []"
    using rl_open_empty [OF o] by blast
  have "copy_keys env env' crc d (sort (dw_keys w)) \<lparr>cs_live_keys = 0, cs_records_written = 0, cs_bytes_written = 0\<rparr>
        w log0 d0 = (Inr st, w1, log1, d1)" using k D(1) by simp
  from copy_keys_entries [OF this inv D(2)] D(3) show ?thesis by (simp add: d1 the_dir_def entries_def)
qed

definition compact_calls :: "(string \<times> string option) list" where
  "compact_calls = [(''keep'', Some ''final''), (''keep'', Some ''old''), (''keep'', Some ''final''),
     (''gone'', Some ''nope''), (''gone'', None), (''other'', Some ''value'')]"

lemma compact_source:
  assumes "kv_session h compact_calls existing = Inr (w, d)"
  shows "contents (gh_crc h) d = [bytes_of_string ''keep'' \<mapsto> bytes_of_string ''final'',
      bytes_of_string ''other'' \<mapsto> bytes_of_string ''value'']"
    "sort (dw_keys w) = [bytes_of_string ''keep'', bytes_of_string ''other'']"
proof -
  note K = kv_session_Inr [OF assms]
  have inv: "kd_inv (gh_crc h) w d" using K(1) by (simp add: dw_inv_def)
  show m: "contents (gh_crc h) d = [bytes_of_string ''keep'' \<mapsto> bytes_of_string ''final'',
      bytes_of_string ''other'' \<mapsto> bytes_of_string ''value'']"
    unfolding K(3) by (auto simp: fun_eq_iff bytes_of_string_def compact_calls_def)
  have "set (sort (dw_keys w)) = set [bytes_of_string ''keep'', bytes_of_string ''other'']"
    using keys_contents [OF inv] unfolding m by auto
  moreover have "distinct (dw_keys w)" using keys_contents [OF inv] by (rule conjunct2)
  ultimately show "sort (dw_keys w) = [bytes_of_string ''keep'', bytes_of_string ''other'']"
    by (intro sorted_distinct_set_unique) (simp_all add: bytes_of_string_def)
qed

lemma compact_to_output_entries:
  assumes "gen_compact_to_output h source existing = Inr d"
  shows "dir_ok d \<and> recoverable (gh_crc h) d
    \<and> entries (gh_crc h) d = map call_entry [(''keep'', Some ''final''), (''other'', Some ''value'')]"
proof -
  let ?crc = "gh_crc h"
  obtain w d0 st w1 k1 out where k: "kv_session h compact_calls None = Inr (w, d0)"
    and c: "dw_compact_to (gh_flock h) (gh_env h) (gh_env h) ?crc (gh_pid h) (gh_fdt h) (gh_fresh h) w d0 None = (Inr st, w1, k1, out)"
    and d: "d = drop_lock_file h (the_dir out)"
    using assms by (auto simp: gen_compact_to_output_def reset_dir_def compact_calls_def split: sum.splits prod.splits if_splits)
  note S = compact_source [OF k]
  have inv: "kd_inv ?crc w d0" using kv_session_Inr(1) [OF k] by (simp add: dw_inv_def)
  obtain d1 log1 where C: "out = Some d1" "rl_inv ?crc log1 d1" using compact_to_Inr [OF c inv] by blast
  have ok: "dir_ok d1" "recoverable ?crc d1" using C(2) by (simp_all add: rl_invD(1) rl_inv_recoverable)
  have "entries ?crc d1 = map call_entry [(''keep'', Some ''final''), (''other'', Some ''value'')]"
    using compact_to_entries [OF c inv] unfolding S C(1) by (simp add: the_dir_def bytes_of_string_def)
  then show ?thesis using ok by (simp add: d C(1) the_dir_def drop_lock_same [OF ok(1)])
qed

section \<open>The generator succeeds\<close>

text \<open>A directory without subdirectories.\<close>

definition plain :: "dir \<Rightarrow> bool" where
  "plain d \<longleftrightarrow> (\<forall>n. map_of d n \<noteq> Some OtherNode)"

lemma plain_simps [simp]:
  "plain []" "plain d \<Longrightarrow> plain (put_file d name bs)" "plain d \<Longrightarrow> plain (append_file d name bs)"
  by (auto simp: plain_def map_of_put append_file_def split: option.splits)

lemma plain_openable: "plain d \<Longrightarrow> openable d"
  by (simp add: plain_def openable_def)

lemma rl_open_plain:
  "rl_open fl env crc pid fd k (Some d) = (r, k', Some d') \<Longrightarrow> plain d \<Longrightarrow> plain d'"
  by (auto simp: rl_open_def dir_lock_acquire_def ensure_segment_def create_file_Some Let_def
      split: if_splits option.splits sum.splits prod.splits)

lemma append_record_plain:
  "rl_append_record env crc log d rt k v = (r, log', d') \<Longrightarrow> plain d \<Longrightarrow> plain d'"
  by (auto simp: rl_append_record_def Let_def split: sum.splits if_splits option.splits)

lemma fsync_ok: "all_io env \<Longrightarrow> rl_inv crc log d \<Longrightarrow> rl_fsync env log = (Inr (), log)"
  by (simp add: rl_fsync_def check_poisoned_def rl_invD(7))

lemma open_new_ok:
  assumes "all_io env" "fl_try_lock_exclusive fl k fd = Some k'"
  obtains log d where "rl_open fl env crc pid fd k (Some []) = (Inr log, k', Some d)" "rl_inv crc log d"
    "rl_active_id log = 1" "seg_ids d = [1]" "plain d" "n < 2 ^ 64 \<Longrightarrow> m + 1 < 2 ^ 64 \<Longrightarrow> room log n m"
proof -
  obtain log d where o: "rl_open fl env crc pid fd k (Some []) = (Inr log, k', Some d)" and i: "rl_inv crc log d"
    and z: "rl_active_size log = 0" "rl_next_txid log = 1" "seg_ids d = [1]"
    by (rule rl_open_fresh [OF assms(1) dir_ok_Nil openable_Nil assms(2) seg_ids_Nil])
  show thesis
    using that [OF o i _ z(3) rl_open_plain [OF o]] rl_invD(3) [OF i] z by (simp add: room_def)
qed

lemma append_each_ok:
  assumes io: "all_io env"
  shows "rl_inv crc log d \<Longrightarrow> room log (sum_list (map (\<lambda>p. record_wire_size 0 (length p)) ps)) (length ps) \<Longrightarrow>
    \<forall>p\<in>set ps. length p \<le> MAX_PAYLOAD_LEN \<Longrightarrow>
    \<exists>log' d'. append_each env crc ps log d = (Inr (), log', d') \<and> rl_inv crc log' d'"
proof (induction ps arbitrary: log d)
  case (Cons p ps)
  have l: "length ([] :: bytes) \<le> MAX_KEY_LEN" "length p \<le> MAX_PAYLOAD_LEN" using Cons.prems(3) by simp_all
  obtain r log1 d1 where "rl_append_record env crc log d Raw [] p = (Inr (ref_of_record r), log1, d1)" "rl_inv crc log1 d1"
    "room log1 (sum_list (map (\<lambda>p. record_wire_size 0 (length p)) ps)) (length ps)"
    by (rule append_room [OF Cons.prems(1) io l, where rt = Raw
          and n = "sum_list (map (\<lambda>p. record_wire_size 0 (length p)) ps)" and m = "length ps"])
      (use Cons.prems(2) in simp_all)
  with Cons.IH [of log1 d1] Cons.prems(3) show ?case by (auto simp: rl_append_def)
qed simp

lemma raw_session_ok:
  assumes io: "all_io (gh_env h)" and fs: "\<forall>c. gh_fs h c"
    and lk: "fl_try_lock_exclusive (gh_flock h) (gh_fresh h) (gh_fd h) = Some k'"
    and ps: "\<forall>p\<in>set ps. length p \<le> MAX_PAYLOAD_LEN"
    and sz: "sum_list (map (\<lambda>p. record_wire_size 0 (length p)) ps) < 2 ^ 64" "length ps + 1 < 2 ^ 64"
  shows "\<exists>d. raw_session h ps existing = Inr d"
proof -
  obtain log d where O: "rl_open (gh_flock h) (gh_env h) (gh_crc h) (gh_pid h) (gh_fd h) (gh_fresh h) (Some []) = (Inr log, k', Some d)"
    "rl_inv (gh_crc h) log d" "room log (sum_list (map (\<lambda>p. record_wire_size 0 (length p)) ps)) (length ps)"
    by (rule open_new_ok [OF io lk]) (use sz in blast)
  obtain log1 d1 where A: "append_each (gh_env h) (gh_crc h) ps log d = (Inr (), log1, d1)" "rl_inv (gh_crc h) log1 d1"
    using append_each_ok [OF io O(2,3) ps] by blast
  show ?thesis
    using O(1) A(1) fsync_ok [OF io A(2)] fs by (simp add: raw_session_def reset_dir_def the_dir_def)
qed

lemma length_bytes_of_string [simp]: "length (bytes_of_string s) = length s"
  by (simp add: bytes_of_string_def)

lemma raw_append_ok:
  assumes inv: "rl_inv crc log d" and io: "all_io env" and pl: "plain d" and rm: "room log (128 + n) (Suc m)"
    and len: "length s \<le> 100"
  obtains r log' d' where "rl_append env crc log d (bytes_of_string s) = (Inr r, log', d')" "rl_inv crc log' d'" "plain d'"
    "room log' n m" "rl_active_id log' = rl_active_id log"
proof -
  have l: "length ([] :: bytes) \<le> MAX_KEY_LEN" "length (bytes_of_string s) \<le> MAX_PAYLOAD_LEN"
    using len by (simp_all add: wire_consts)
  have rm': "room log (record_wire_size (length ([] :: bytes)) (length (bytes_of_string s)) + n) (Suc m)"
    using rm len by (simp add: room_def record_wire_size_def wire_consts)
  obtain r log' d' where a: "rl_append_record env crc log d Raw [] (bytes_of_string s) = (Inr (ref_of_record r), log', d')"
    "rl_inv crc log' d'" "room log' n m"
    by (rule append_room [OF inv io l rm', where rt = Raw])
  with that append_Inr(3) [OF inv a(1)] append_record_plain [OF a(1) pl] show thesis by (simp add: rl_append_def)
qed

lemma raw_rotate_ok:
  assumes inv: "rl_inv crc log d" and io: "all_io env" and pl: "plain d" and n: "rl_active_id log + 1 < 10 ^ 8"
    and rm: "room log n m"
  obtains log' d' where "rl_rotate env log d = (Inr (), log', d')" "rl_inv crc log' d'" "plain d'" "room log' n m"
    "rl_active_id log' = rl_active_id log + 1"
proof -
  have free: "map_of d (Utf8 (segment_name (rl_active_id log + 1))) \<noteq> Some OtherNode" using pl by (simp add: plain_def)
  note R = rl_rotate_ok [OF inv io n free]
  show thesis by (rule that [OF R(1,2)]) (use pl rm in \<open>simp_all add: room_def\<close>)
qed

lemma three_segments_ok:
  assumes io: "all_io (gh_env h)" and fs: "\<forall>c. gh_fs h c"
    and lk: "fl_try_lock_exclusive (gh_flock h) (gh_fresh h) (gh_fd h) = Some k'"
  shows "\<exists>d. three_segments h existing = Inr d"
proof -
  let ?crc = "gh_crc h" and ?env = "gh_env h"
  obtain log0 d1 where O: "rl_open (gh_flock h) ?env ?crc (gh_pid h) (gh_fd h) (gh_fresh h) (Some []) = (Inr log0, k', Some d1)"
    "rl_inv ?crc log0 d1" "rl_active_id log0 = 1" "plain d1" "room log0 (128 + (128 + (128 + 0))) 3"
    by (rule open_new_ok [OF io lk, where n = "128 + (128 + (128 + 0))" and m = 3]) simp
  obtain r1 log1 d2 where A1: "rl_append ?env ?crc log0 d1 (bytes_of_string ''good'') = (Inr r1, log1, d2)" "rl_inv ?crc log1 d2"
    "plain d2" "room log1 (128 + (128 + 0)) (Suc (Suc 0))" "rl_active_id log1 = rl_active_id log0"
    by (rule raw_append_ok [OF O(2) io O(4) O(5) [unfolded numeral_3_eq_3], where s = "''good''"]) simp
  obtain log2 d3 where T1: "rl_rotate ?env log1 d2 = (Inr (), log2, d3)" "rl_inv ?crc log2 d3" "plain d3" "room log2 (128 + (128 + 0)) (Suc (Suc 0))"
    "rl_active_id log2 = rl_active_id log1 + 1"
    by (rule raw_rotate_ok [OF A1(2) io A1(3) _ A1(4)]) (use A1(5) O(3) in simp_all)
  obtain r2 log3 d4 where A2: "rl_append ?env ?crc log2 d3 (bytes_of_string ''this-will-be-corrupted'') = (Inr r2, log3, d4)"
    "rl_inv ?crc log3 d4" "plain d4" "room log3 (128 + 0) (Suc 0)" "rl_active_id log3 = rl_active_id log2"
    by (rule raw_append_ok [OF T1(2) io T1(3,4), where s = "''this-will-be-corrupted''"]) simp
  obtain log4 d5 where T2: "rl_rotate ?env log3 d4 = (Inr (), log4, d5)" "rl_inv ?crc log4 d5" "plain d5" "room log4 (128 + 0) (Suc 0)"
    by (rule raw_rotate_ok [OF A2(2) io A2(3) _ A2(4)]) (use A2(5) T1(5) A1(5) O(3) in simp_all)
  obtain r3 log5 d6 where A3: "rl_append ?env ?crc log4 d5 (bytes_of_string ''after'') = (Inr r3, log5, d6)" "rl_inv ?crc log5 d6"
    by (rule raw_append_ok [OF T2(2) io T2(3,4), where s = "''after''"]) simp
  show ?thesis
    using O(1) A1(1) T1(1) A2(1) T2(1) A3(1) fsync_ok [OF io A3(2)] fs
    by (simp add: three_segments_def reset_dir_def the_dir_def Let_def)
qed

text \<open>The bytes a call appends.\<close>

fun call_size :: "string \<times> string option \<Rightarrow> nat" where
  "call_size (k, v) = record_wire_size (length k) (case v of Some v \<Rightarrow> length v | None \<Rightarrow> 0)"

fun call_fits :: "string \<times> string option \<Rightarrow> bool" where
  "call_fits (k, v) \<longleftrightarrow> length k \<le> MAX_KEY_LEN \<and> (case v of Some v \<Rightarrow> length v \<le> MAX_PAYLOAD_LEN | None \<Rightarrow> True)"

lemma kv_each_ok:
  assumes io: "all_io env"
  shows "dw_inv crc w d \<Longrightarrow> room (dw_log w) (sum_list (map call_size calls)) (length calls) \<Longrightarrow> list_all call_fits calls \<Longrightarrow>
    \<exists>w' d'. kv_each env crc calls w d = (Inr (), w', d') \<and> dw_inv crc w' d'"
proof (induction calls arbitrary: w d)
  case (Cons c calls)
  obtain k v where c: "c = (k, v)" by force
  have inv: "rl_inv crc (dw_log w) d" using Cons.prems(1) by (simp add: dw_inv_def)
  show ?case
  proof (cases v)
    case None
    have l: "length (bytes_of_string k) \<le> MAX_KEY_LEN" "length ([] :: bytes) \<le> MAX_PAYLOAD_LEN"
      using Cons.prems(3) by (simp_all add: c)
    obtain r log1 d1 where "rl_append_record env crc (dw_log w) d Delete (bytes_of_string k) [] = (Inr (ref_of_record r), log1, d1)"
      "room log1 (sum_list (map call_size calls)) (length calls)"
      by (rule append_room [OF inv io l, where rt = Delete and n = "sum_list (map call_size calls)" and m = "length calls"])
        (use Cons.prems(2) None in \<open>simp_all add: c\<close>)
    then obtain w1 where p: "dw_delete env crc w d (bytes_of_string k) = (Inr (), w1, d1)"
      "room (dw_log w1) (sum_list (map call_size calls)) (length calls)" by (simp add: dw_delete_def)
    with Cons.IH [of w1 d1] delete_Inr [OF Cons.prems(1) p(1)] Cons.prems(3) None show ?thesis by (simp add: c)
  next
    case (Some x)
    have l: "length (bytes_of_string k) \<le> MAX_KEY_LEN" "length (bytes_of_string x) \<le> MAX_PAYLOAD_LEN"
      using Cons.prems(3) by (simp_all add: c Some)
    obtain r log1 d1 where "rl_append_record env crc (dw_log w) d Put (bytes_of_string k) (bytes_of_string x) = (Inr (ref_of_record r), log1, d1)"
      "room log1 (sum_list (map call_size calls)) (length calls)"
      by (rule append_room [OF inv io l, where rt = Put and n = "sum_list (map call_size calls)" and m = "length calls"])
        (use Cons.prems(2) Some in \<open>simp_all add: c\<close>)
    then obtain w1 where p: "dw_put env crc w d (bytes_of_string k) (bytes_of_string x) = (Inr (), w1, d1)"
      "room (dw_log w1) (sum_list (map call_size calls)) (length calls)" by (simp add: dw_put_def)
    with Cons.IH [of w1 d1] put_Inr [OF Cons.prems(1) p(1)] Cons.prems(3) Some show ?thesis by (simp add: c)
  qed
qed simp

lemma kv_session_ok:
  assumes io: "all_io (gh_env h)" and fs: "\<forall>c. gh_fs h c"
    and lk: "fl_try_lock_exclusive (gh_flock h) (gh_fresh h) (gh_fd h) = Some k'"
    and fit: "list_all call_fits calls" and sz: "sum_list (map call_size calls) < 2 ^ 64" "length calls + 1 < 2 ^ 64"
  shows "\<exists>w d. kv_session h calls existing = Inr (w, d)"
proof -
  have r: "recoverable (gh_crc h) []" by (simp add: recoverable_def)
  obtain w d where o: "dw_open (gh_flock h) (gh_env h) (gh_crc h) (gh_pid h) (gh_fd h) (gh_fresh h) (Some []) = (Inr w, k', Some d)"
    by (rule dw_open_contents [OF io dir_ok_Nil openable_Nil lk r])
  have D: "dw_inv (gh_crc h) w d" "rl_active_size (dw_log w) = 0" "rl_next_txid (dw_log w) = 1"
    by (rule dw_open_fresh [OF o dir_ok_Nil seg_ids_Nil], simp)+
  have "room (dw_log w) (sum_list (map call_size calls)) (length calls)"
    unfolding room_def D(2,3) using sz by simp
  then obtain w1 d1 where A: "kv_each (gh_env h) (gh_crc h) calls w d = (Inr (), w1, d1)" "dw_inv (gh_crc h) w1 d1"
    using kv_each_ok [OF io D(1) _ fit] by blast
  have "rl_fsync (gh_env h) (dw_log w1) = (Inr (), dw_log w1)"
    using fsync_ok [OF io] A(2) by (auto simp: dw_inv_def)
  with o A(1) fs show ?thesis by (simp add: kv_session_def reset_dir_def the_dir_def dw_fsync_def)
qed

lemma generators_ok:
  assumes io: "all_io (gh_env h)" and fs: "\<forall>c. gh_fs h c"
    and lk: "fl_try_lock_exclusive (gh_flock h) (gh_fresh h) (gh_fd h) = Some k'"
  shows "\<exists>d. gen_valid_log h existing = Inr d" "\<exists>d. gen_truncated_tail h existing = Inr d"
    "\<exists>d. gen_bad_crc h existing = Inr d" "\<exists>d. gen_unknown_version h existing = Inr d"
    "\<exists>d. gen_delete_tombstone h existing = Inr d"
proof -
  note S = raw_session_ok [OF io fs lk] and sizes = record_wire_size_def wire_consts
  obtain d1 where "raw_session h (map bytes_of_string [''alpha'', ''beta'', ''gamma'']) existing = Inr d1"
    using S [of "map bytes_of_string [''alpha'', ''beta'', ''gamma'']" existing] by (auto simp: sizes)
  then show "\<exists>d. gen_valid_log h existing = Inr d" by (simp add: gen_valid_log_def)
  obtain d2 where d2: "raw_session h (map bytes_of_string [''one'', ''two'', ''three'']) existing = Inr d2"
    using S [of "map bytes_of_string [''one'', ''two'', ''three'']" existing] by (auto simp: sizes)
  have "file_content d2 seg_file = Some (stream (gh_crc h) (raw_frames 1 (map bytes_of_string [''one'', ''two'', ''three''])))"
    using raw_session_Inr(4) [OF d2] by (simp add: seg_content_def seg_file_name)
  moreover have "5 \<le> length (stream (gh_crc h) (raw_frames 1 (map bytes_of_string [''one'', ''two'', ''three''])))"
    by (simp add: stream_concat length_wire wire_len_def sizes)
  ultimately show "\<exists>d. gen_truncated_tail h existing = Inr d" using d2 fs by (simp add: gen_truncated_tail_def)
  obtain d3 where d3: "three_segments h existing = Inr d3" using three_segments_ok [OF io fs lk] by blast
  then show "\<exists>d. gen_bad_crc h existing = Inr d"
    using three_segments_Inr(4) [OF d3] fs
    by (simp add: gen_bad_crc_def segment_name_2 seg_content_def length_wire wire_len_def sizes)
  obtain d4 where d4: "raw_session h (map bytes_of_string [''first'']) existing = Inr d4"
    using S [of "map bytes_of_string [''first'']" existing] by (auto simp: sizes)
  then show "\<exists>d. gen_unknown_version h existing = Inr d"
    using raw_session_Inr(4) [OF d4] fs
    by (simp add: gen_unknown_version_def seg_file_name seg_content_def stream_concat length_wire wire_len_def sizes)
  obtain w d5 where "kv_session h [(''alpha'', Some ''1''), (''beta'', Some ''2''), (''alpha'', Some ''3''), (''beta'', None)] existing = Inr (w, d5)"
    using kv_session_ok [OF io fs lk, of "[(''alpha'', Some ''1''), (''beta'', Some ''2''), (''alpha'', Some ''3''), (''beta'', None)]" existing]
    by (auto simp: sizes)
  then show "\<exists>d. gen_delete_tombstone h existing = Inr d" by (simp add: gen_delete_tombstone_def)
qed

lemma compact_to_output_ok:
  assumes io: "all_io (gh_env h)" and fs: "\<forall>c. gh_fs h c"
    and lk: "fl_try_lock_exclusive (gh_flock h) (gh_fresh h) (gh_fd h) = Some k'"
      "fl_try_lock_exclusive (gh_flock h) (gh_fresh h) (gh_fdt h) = Some k2"
  shows "\<exists>d. gen_compact_to_output h source existing = Inr d"
proof -
  obtain w d where k: "kv_session h compact_calls None = Inr (w, d)"
    using kv_session_ok [OF io fs lk(1), of compact_calls None] by (auto simp: compact_calls_def record_wire_size_def wire_consts)
  note S = compact_source [OF k]
  have inv: "kd_inv (gh_crc h) w d" using kv_session_Inr(1) [OF k] by (simp add: dw_inv_def)
  have "sum_list (map f (dw_keys w)) = sum_list (map f (sort (dw_keys w)))" for f :: "bytes \<Rightarrow> nat"
    by (metis mset_map mset_sort sum_mset_sum_list)
  then have sz: "sum_list (map (entry_size (contents (gh_crc h) d)) (dw_keys w)) < 2 ^ 64"
    unfolding S by (simp add: entry_size_def record_wire_size_def wire_consts)
  obtain st w1 k1 out where "dw_compact_to (gh_flock h) (gh_env h) (gh_env h) (gh_crc h) (gh_pid h) (gh_fdt h) (gh_fresh h) w d None =
      (Inr st, w1, k1, out)"
    by (rule compact_to_contents [OF inv io io lk(2) _ sz, where out = None]) blast
  with k fs show ?thesis by (simp add: gen_compact_to_output_def reset_dir_def compact_calls_def)
qed

lemma gen_main_ok:
  assumes "all_io (gh_env h)" "\<forall>c. gh_fs h c"
    "fl_try_lock_exclusive (gh_flock h) (gh_fresh h) (gh_fd h) = Some k1"
    "fl_try_lock_exclusive (gh_flock h) (gh_fresh h) (gh_fdt h) = Some k2"
  shows "\<exists>out. gen_main h at = Inr out"
proof -
  note G = generators_ok [OF assms(1-3)] and C = compact_to_output_ok [OF assms]
  from G(1) [of "at ''valid_log''"] G(2) [of "at ''truncated_tail''"] G(3) [of "at ''bad_crc''"]
    G(4) [of "at ''unknown_version''"] G(5) [of "at ''delete_tombstone''"]
    C [of "at ''compact_to_source''" "at ''compact_to_output''"]
  show ?thesis using assms(2) unfolding gen_main_def by (elim exE) simp
qed

end
