(* ===== verification/Example_Corpus.thy ===== *)
theory Example_Corpus
  imports Example_Soak Corpus_Correct
begin

text \<open>A machine for the fixture generator, and a checksum that detects a complemented byte.\<close>

definition ex_gen_host :: "nat set gen_host" where
  "ex_gen_host = \<lparr>gh_flock = ex_flock, gh_fresh = {}, gh_crc = ex_crc, gh_env = all_works, gh_pid = 0, gh_fd = 5,
     gh_fdt = 6, gh_fs = (\<lambda>c. True), gh_unlock = True\<rparr>"

lemma ex_gen_host_fields:
  "all_io (gh_env ex_gen_host)" "\<forall>c. gh_fs ex_gen_host c" "gh_crc ex_gen_host = ex_crc"
  "fl_try_lock_exclusive (gh_flock ex_gen_host) (gh_fresh ex_gen_host) (gh_fd ex_gen_host) = Some {5}"
  "fl_try_lock_exclusive (gh_flock ex_gen_host) (gh_fresh ex_gen_host) (gh_fdt ex_gen_host) = Some {6}"
  by (simp_all add: ex_gen_host_def ex_flock_def)

lemma mult_31_inj: "31 * c = 31 * c' \<longleftrightarrow> c = (c' :: u32)"
proof
  assume e: "31 * c = 31 * c'"
  have i: "(3186588639 :: u32) * 31 = 1" by code_simp
  have "(3186588639 * 31) * c = (3186588639 * 31) * c'" by (simp only: mult.assoc e)
  then show "c = c'" unfolding i by simp
qed simp

lemma ex_fold_inj:
  "foldl (\<lambda>c b. 31 * c + ucast b) c bs = foldl (\<lambda>c b. 31 * c + ucast (b :: u8)) (c' :: u32) bs \<longleftrightarrow> c = c'"
  by (induction bs arbitrary: c c') (simp_all add: mult_31_inj)

lemma flip_changes: "ucast (b XOR 0xFF) \<noteq> (ucast (b :: u8) :: u32)"
proof
  assume e: "ucast (b XOR 0xFF) = (ucast b :: u32)"
  have u: "ucast (ucast x :: u32) = x" for x :: u8 by (rule bit_word_eqI) (simp add: bit_unsigned_iff)
  have "b XOR 0xFF = b" using arg_cong [OF e, of "\<lambda>w. ucast w :: u8"] by (simp only: u)
  then have "b XOR (b XOR 0xFF) = b XOR b" by (rule arg_cong)
  then show False by (simp add: xor.assoc [symmetric])
qed

lemma ex_crc_detects: "detects_byte_flip ex_crc"
  unfolding detects_byte_flip_def
proof (intro allI impI)
  fix bs :: bytes and i assume i: "i < length bs"
  have s: "take i bs @ bs ! i # drop (Suc i) bs = bs" by (rule id_take_nth_drop [OF i, symmetric])
  have "ex_crc (bs[i := bs ! i XOR 0xFF]) \<noteq> ex_crc (take i bs @ bs ! i # drop (Suc i) bs)"
    unfolding upd_conv_take_nth_drop [OF i] by (simp only: ex_crc_def foldl_append foldl_Cons ex_fold_inj add_left_cancel flip_changes not_False_eq_True)
  then show "ex_crc (bs[i := bs ! i XOR 0xFF]) \<noteq> ex_crc bs" unfolding s .
qed

end
