(* ===== verification/Soak_Fixtures.thy ===== *)
theory Soak_Fixtures
  imports Soak Power_Loss_Correct
begin

text \<open>
  \<open>crates/datawal-core/examples/gen_soak_fixtures.rs\<close>: the generator of the soak test's input
  streams, and that the soak test loads what the generator wrote.  The pseudo-random
  generator is the one of the power-loss workload (\<open>next_u64\<close>, \<open>fill\<close>), seeded with its
  state.
\<close>

section \<open>The generator\<close>

datatype fixture_error = FxTooManyArgs | FxCurrentDir | FxMakeDir string | FxCreate string | FxWrite string | FxSync string

text \<open>\<open>wi_write = Some n\<close>: writing fails after \<open>n\<close> characters of the file.\<close>

record write_io =
  wi_mkdir :: bool
  wi_create :: bool
  wi_write :: "nat option"
  wi_sync :: bool

definition jsonl_text :: "(bytes \<Rightarrow> string) \<Rightarrow> (string \<Rightarrow> string \<Rightarrow> string) \<Rightarrow> (bytes \<times> bytes) list \<Rightarrow> string" where
  "jsonl_text b64 json rows = concat (map (\<lambda>(key, payload). json (b64 key) (b64 payload) @ ''\<newline>'') rows)"

definition write_jsonl ::
  "write_io \<Rightarrow> (bytes \<Rightarrow> string) \<Rightarrow> (string \<Rightarrow> string \<Rightarrow> string) \<Rightarrow> string \<Rightarrow> (bytes \<times> bytes) list
   \<Rightarrow> (string \<Rightarrow> string option) \<Rightarrow> (fixture_error + unit) \<times> (string \<Rightarrow> string option)" where
  "write_jsonl io b64 json path rows files =
     (let text = jsonl_text b64 json rows in
      if \<not> wi_mkdir io then (Inl (FxMakeDir path), files)
      else if \<not> wi_create io then (Inl (FxCreate path), files)
      else case wi_write io of
        Some n \<Rightarrow> (Inl (FxWrite path), files(path \<mapsto> take n text))
      | None \<Rightarrow> (if wi_sync io then Inr () else Inl (FxSync path), files(path \<mapsto> text)))"

fun gen_records :: "u64 \<Rightarrow> nat \<Rightarrow> nat \<Rightarrow> nat \<Rightarrow> (bytes \<times> bytes) list \<times> u64" where
  "gen_records rng 0 key_size payload_size = ([], rng)"
| "gen_records rng (Suc n) key_size payload_size =
     (let (k, rng1) = fill key_size rng; (p, rng2) = fill payload_size rng1;
          (out, rng3) = gen_records rng2 n key_size payload_size
      in ((k, p) # out, rng3))"

definition fixtures_root_default :: "string \<Rightarrow> string" where
  "fixtures_root_default crate_dir = crate_dir @ ''/tests/fixtures/soak''"

text \<open>\<open>cwd\<close>: the current directory, if it can be determined.\<close>

definition fixtures_resolve_root :: "string \<Rightarrow> string option \<Rightarrow> string list \<Rightarrow> fixture_error + string" where
  "fixtures_resolve_root crate_dir cwd args =
     (case args of
        [] \<Rightarrow> Inr (fixtures_root_default crate_dir)
      | [arg] \<Rightarrow>
          if take 1 arg = ''/'' then Inr arg
          else (case cwd of None \<Rightarrow> Inl FxCurrentDir | Some c \<Rightarrow> Inr (c @ ''/'' @ arg))
      | _ \<Rightarrow> Inl FxTooManyArgs)"

definition small_rows :: "(bytes \<times> bytes) list" where
  "small_rows = fst (gen_records 0x5050505000000001 100 32 512)"

definition medium_rows :: "(bytes \<times> bytes) list" where
  "medium_rows = fst (gen_records 0x5050505000000002 100 32 3072)"

definition large_rows :: "(bytes \<times> bytes) list" where
  "large_rows = fst (gen_records 0x5050505000000003 20 32 65536)"

definition fixtures_main ::
  "(string \<Rightarrow> write_io) \<Rightarrow> (bytes \<Rightarrow> string) \<Rightarrow> (string \<Rightarrow> string \<Rightarrow> string) \<Rightarrow> string \<Rightarrow> string option \<Rightarrow> string list
   \<Rightarrow> (string \<Rightarrow> string option) \<Rightarrow> (fixture_error + unit) \<times> (string \<Rightarrow> string option)" where
  "fixtures_main io b64 json crate_dir cwd args files =
     (case fixtures_resolve_root crate_dir cwd args of
        Inl e \<Rightarrow> (Inl e, files)
      | Inr root \<Rightarrow>
          let small = root @ ''/small_records.jsonl''; medium = root @ ''/medium_records.jsonl'';
              large = root @ ''/large_payloads.jsonl'' in
          (case write_jsonl (io small) b64 json small small_rows files of
             (Inl e, files1) \<Rightarrow> (Inl e, files1)
           | (Inr _, files1) \<Rightarrow>
               (case write_jsonl (io medium) b64 json medium medium_rows files1 of
                  (Inl e, files2) \<Rightarrow> (Inl e, files2)
                | (Inr _, files2) \<Rightarrow> write_jsonl (io large) b64 json large large_rows files2)))"

section \<open>The soak test loads what was written\<close>

definition rows_are :: "nat \<Rightarrow> nat \<Rightarrow> nat \<Rightarrow> soak_record list \<Rightarrow> bool" where
  "rows_are n key_size payload_size rs \<longleftrightarrow> length rs = n
     \<and> (\<forall>r\<in>set rs. length (so_key r) = key_size \<and> length (so_payload r) = payload_size)"

definition as_records :: "(bytes \<times> bytes) list \<Rightarrow> soak_record list" where
  "as_records rows = map (\<lambda>(k, p). \<lparr>so_key = k, so_payload = p\<rparr>) rows"

lemma gen_records_sizes: "rows_are n ks ps (as_records (fst (gen_records rng n ks ps)))"
proof (induction n arbitrary: rng)
  case (Suc n)
  obtain k r1 where k: "fill ks rng = (k, r1)" by force
  obtain p r2 where p: "fill ps r1 = (p, r2)" by force
  have "length k = ks" "length p = ps" using length_fill [of ks rng] length_fill [of ps r1] by (simp_all add: k p)
  moreover obtain out r3 where "gen_records r2 n ks ps = (out, r3)" by force
  ultimately show ?case using Suc [of r2] by (auto simp: rows_are_def as_records_def k p)
qed (simp add: rows_are_def as_records_def)

text \<open>What serde_json has to guarantee for a row.\<close>

definition row_laws :: "(bytes \<Rightarrow> string) \<Rightarrow> (string \<Rightarrow> bytes option) \<Rightarrow> (string \<Rightarrow> string \<Rightarrow> string)
    \<Rightarrow> (string \<Rightarrow> (string \<times> string) option) \<Rightarrow> bool" where
  "row_laws b64 b64_dec json parse \<longleftrightarrow> (\<forall>a b. b64_dec (b64 a) = Some a
     \<and> parse (json (b64 a) (b64 b)) = Some (b64 a, b64 b)
     \<and> CHR 0x0A \<notin> set (json (b64 a) (b64 b)) \<and> last (json (b64 a) (b64 b)) \<noteq> CHR 0x0D
     \<and> \<not> blank (json (b64 a) (b64 b)))"

lemma jsonl_lines_text:
  assumes "row_laws b64 b64_dec json parse"
  shows "jsonl_lines b64_dec parse path (buf_lines [] (jsonl_text b64 json rows)) = Inr (as_records rows)"
proof (induction rows)
  case (Cons row rows)
  obtain k p where r: "row = (k, p)" by force
  have L: "b64_dec (b64 a) = Some a" "parse (json (b64 a) (b64 b)) = Some (b64 a, b64 b)"
    "CHR 0x0A \<notin> set (json (b64 a) (b64 b))" "last (json (b64 a) (b64 b)) \<noteq> CHR 0x0D"
    "\<not> blank (json (b64 a) (b64 b))" for a b
    using assms unfolding row_laws_def by blast+
  have "buf_lines [] (jsonl_text b64 json (row # rows)) =
      json (b64 k) (b64 p) # buf_lines [] (jsonl_text b64 json rows)"
    using buf_lines_row [OF L(3) [of k p], of "[]"] L(4) [of k p] by (simp add: jsonl_text_def r chomp_def)
  with Cons show ?case by (simp add: L as_records_def r)
qed (simp add: jsonl_text_def as_records_def)

lemma load_written:
  assumes "row_laws b64 b64_dec json parse" "files path = Some (jsonl_text b64 json rows)" "rows \<noteq> []"
  shows "load_jsonl b64_dec parse files path = Inr (as_records rows)"
  using assms(3) by (simp add: load_jsonl_def assms(2) jsonl_lines_text [OF assms(1)] as_records_def)

lemma write_jsonl_Inr: "write_jsonl io b64 json path rows files = (Inr u, files') \<Longrightarrow> files' = files(path \<mapsto> jsonl_text b64 json rows)"
  by (auto simp: write_jsonl_def Let_def split: if_splits option.splits)

lemma rows_sizes:
  "rows_are 100 32 512 (as_records small_rows)" "rows_are 100 32 3072 (as_records medium_rows)"
  "rows_are 20 32 65536 (as_records large_rows)"
  unfolding small_rows_def medium_rows_def large_rows_def by (rule gen_records_sizes)+

lemma rows_nonempty: "small_rows \<noteq> []" "medium_rows \<noteq> []" "large_rows \<noteq> []"
  using rows_sizes by (auto simp: rows_are_def as_records_def)

lemma fixtures_load:
  assumes run: "fixtures_main io b64 json crate_dir cwd [] files = (Inr (), files')"
    and laws: "row_laws b64 b64_dec json parse" and mode: "sc_mode cli = Synthetic"
  shows "load_streams b64_dec parse files' crate_dir cli = Inr (as_records small_rows, as_records medium_rows, as_records large_rows)"
proof -
  let ?p = "\<lambda>name. fixture_path crate_dir name"
  obtain f1 f2 where W: "write_jsonl (io (?p ''small_records.jsonl'')) b64 json (?p ''small_records.jsonl'') small_rows files = (Inr (), f1)"
    "write_jsonl (io (?p ''medium_records.jsonl'')) b64 json (?p ''medium_records.jsonl'') medium_rows f1 = (Inr (), f2)"
    "write_jsonl (io (?p ''large_payloads.jsonl'')) b64 json (?p ''large_payloads.jsonl'') large_rows f2 = (Inr (), files')"
    using run
    by (auto simp: fixtures_main_def fixtures_resolve_root_def fixtures_root_default_def fixture_path_def Let_def
        split: prod.splits sum.splits)
  note F = write_jsonl_Inr [OF W(1)] write_jsonl_Inr [OF W(2)] write_jsonl_Inr [OF W(3)]
  have "files' (?p ''small_records.jsonl'') = Some (jsonl_text b64 json small_rows)"
    "files' (?p ''medium_records.jsonl'') = Some (jsonl_text b64 json medium_rows)"
    "files' (?p ''large_payloads.jsonl'') = Some (jsonl_text b64 json large_rows)"
    by (simp_all add: F fixture_path_def)
  then show ?thesis
    by (simp add: load_streams_def Let_def mode load_written [OF laws] rows_nonempty)
qed

end
