(* ===== verification/Demos.thy ===== *)
theory Demos
  imports Corpus
begin

text \<open>
  The demos \<open>record_log_demo.rs\<close>, \<open>tail_recovery_demo.rs\<close> and \<open>datawal_kv_demo.rs\<close> of
  \<open>crates/datawal-core/examples\<close>, and \<open>populate_smoke_store.rs\<close> of \<open>crates/datawal-cli\<close>.  A
  demo returns what it prints about the store.  The directories it begins with are what the
  ignored removals leave: \<open>None\<close> when these work.
\<close>

section \<open>\<open>record_log_demo\<close>\<close>

fun append_payloads ::
  "os_env \<Rightarrow> (bytes \<Rightarrow> u32) \<Rightarrow> bytes list \<Rightarrow> record_log \<Rightarrow> dir \<Rightarrow> (error + record_ref list) \<times> record_log \<times> dir" where
  "append_payloads env crc [] log d = (Inr [], log, d)"
| "append_payloads env crc (p # ps) log d =
     (case rl_append env crc log d p of
        (Inl e, log1, d1) \<Rightarrow> (Inl e, log1, d1)
      | (Inr r, log1, d1) \<Rightarrow>
          (case append_payloads env crc ps log1 d1 of
             (Inl e, log2, d2) \<Rightarrow> (Inl e, log2, d2)
           | (Inr rs, log2, d2) \<Rightarrow> (Inr (r # rs), log2, d2)))"

definition record_log_demo ::
  "'k flock \<Rightarrow> os_env \<Rightarrow> (bytes \<Rightarrow> u32) \<Rightarrow> nat \<Rightarrow> nat \<Rightarrow> 'k \<Rightarrow> dir option \<Rightarrow> error + record_ref list \<times> log_record list" where
  "record_log_demo fl env crc pid fd k dopt =
     (case rl_open fl env crc pid fd k dopt of
        (Inl e, _, _) \<Rightarrow> Inl e
      | (Inr log, k1, d) \<Rightarrow>
     (case append_payloads env crc (map bytes_of_string [''hello'', ''world'', ''datawal v0.1.0-alpha'']) log (the_dir d) of
        (Inl e, _, _) \<Rightarrow> Inl e
      | (Inr refs, log1, d1) \<Rightarrow>
     (case rl_fsync env log1 of
        (Inl e, _) \<Rightarrow> Inl e
      | (Inr _, log2) \<Rightarrow>
     (case rl_scan env crc log2 d1 of
        (Inl e, _) \<Rightarrow> Inl e
      | (Inr records, log3) \<Rightarrow>
     (case rl_close fl k1 log3 of
        (Inl e, _) \<Rightarrow> Inl e
      | (Inr _, _) \<Rightarrow> Inr (refs, records))))))"

section \<open>\<open>tail_recovery_demo\<close>\<close>

datatype demo_error = DemoStore error | DemoFs gen_call | DemoAssert string

text \<open>The blocks of the code: the first phase drops the log, the second truncates its file.\<close>

definition tail_demo_write ::
  "'k flock \<Rightarrow> os_env \<Rightarrow> (bytes \<Rightarrow> u32) \<Rightarrow> nat \<Rightarrow> nat \<Rightarrow> 'k \<Rightarrow> dir option \<Rightarrow> error + 'k \<times> dir" where
  "tail_demo_write fl env crc pid fd k dopt =
     (case rl_open fl env crc pid fd k dopt of
        (Inl e, _, _) \<Rightarrow> Inl e
      | (Inr log, k1, d) \<Rightarrow>
     (case append_each env crc (map bytes_of_string [''alpha'', ''beta'', ''gamma'']) log (the_dir d) of
        (Inl e, _, _) \<Rightarrow> Inl e
      | (Inr _, log1, d1) \<Rightarrow>
     (case rl_fsync env log1 of
        (Inl e, _) \<Rightarrow> Inl e
      | (Inr _, log2) \<Rightarrow> Inr (dir_lock_drop fl k1 (rl_lock log2), d1))))"

definition tail_demo_truncate :: "(gen_call \<Rightarrow> bool) \<Rightarrow> dir \<Rightarrow> demo_error + dir" where
  "tail_demo_truncate fs d =
     (case file_content d seg_file of
        None \<Rightarrow> Inl (DemoFs StatSegmentFile)
      | Some bs \<Rightarrow>
          if \<not> fs StatSegmentFile then Inl (DemoFs StatSegmentFile)
          else let truncate_to = length bs - 5 in
            if \<not> fs OpenForWrite then Inl (DemoFs OpenForWrite)
            else if \<not> fs SetLen then Inl (DemoFs SetLen)
            else Inr (put_file d seg_file (take truncate_to bs)))"

definition tail_recovery_demo ::
  "'k flock \<Rightarrow> os_env \<Rightarrow> (gen_call \<Rightarrow> bool) \<Rightarrow> (bytes \<Rightarrow> u32) \<Rightarrow> nat \<Rightarrow> nat \<Rightarrow> 'k \<Rightarrow> dir option
   \<Rightarrow> demo_error + log_record list \<times> recovery_report" where
  "tail_recovery_demo fl env fs crc pid fd k dopt =
     (case tail_demo_write fl env crc pid fd k dopt of
        Inl e \<Rightarrow> Inl (DemoStore e)
      | Inr (k1, d1) \<Rightarrow>
     (case tail_demo_truncate fs d1 of
        Inl e \<Rightarrow> Inl e
      | Inr d2 \<Rightarrow>
     (case rl_open fl env crc pid fd k1 (Some d2) of
        (Inl e, _, _) \<Rightarrow> Inl (DemoStore e)
      | (Inr log, k2, d3) \<Rightarrow>
     (case rl_scan env crc log (the_dir d3) of
        (Inl e, _) \<Rightarrow> Inl (DemoStore e)
      | (Inr records, log1) \<Rightarrow>
     (case rl_recovery_report log1 of
        Inl e \<Rightarrow> Inl (DemoStore e)
      | Inr report \<Rightarrow>
          if length records \<noteq> 2 then Inl (DemoAssert ''expected the truncated tail to drop the last record'')
          else if rr_tail_truncated report \<noteq> 1 then Inl (DemoAssert ''expected exactly one truncated tail'')
          else if \<not> rr_tail_bytes_discarded report > 0 then Inl (DemoAssert ''expected some bytes to be discarded'')
          else (case rl_close fl k2 log1 of
             (Inl e, _) \<Rightarrow> Inl (DemoStore e)
           | (Inr _, _) \<Rightarrow> Inr (records, report)))))))"

section \<open>\<open>datawal_kv_demo\<close>\<close>

text \<open>What the demo prints of a store: its size, the value of \<open>a\<close>, whether it has \<open>b\<close>.\<close>

record kv_view =
  kv_len :: nat
  kv_a :: "bytes option"
  kv_has_b :: bool

definition kv_show :: "os_env \<Rightarrow> (bytes \<Rightarrow> u32) \<Rightarrow> data_wal \<Rightarrow> dir \<Rightarrow> (error + kv_view) \<times> data_wal" where
  "kv_show env crc w d =
     (case dw_get env crc w d (bytes_of_string ''a'') of
        (Inl e, w1) \<Rightarrow> (Inl e, w1)
      | (Inr a, w1) \<Rightarrow>
          (Inr \<lparr>kv_len = dw_len w, kv_a = a, kv_has_b = dw_contains_key w1 (bytes_of_string ''b'')\<rparr>, w1))"

text \<open>
  \<open>env'\<close> are the calls on the compacted directory \<open>out\<close>, \<open>kt\<close> its lock; \<open>read_back\<close>: the
  exported file can be read; otherwise the result is \<open>Inl None\<close>.
\<close>

definition datawal_kv_demo ::
  "'k flock \<Rightarrow> os_env \<Rightarrow> os_env \<Rightarrow> (bytes \<Rightarrow> u32) \<Rightarrow> (bytes \<Rightarrow> string) \<Rightarrow> (string \<Rightarrow> string \<Rightarrow> string) \<Rightarrow> bool \<Rightarrow> bool
   \<Rightarrow> nat \<Rightarrow> nat \<Rightarrow> nat \<Rightarrow> 'k \<Rightarrow> dir option \<Rightarrow> string option \<Rightarrow> 'k \<Rightarrow> dir option
   \<Rightarrow> error option + kv_view \<times> string \<times> compaction_stats \<times> kv_view" where
  "datawal_kv_demo fl env env' crc b64 json_row has_parent read_back pid fd fdt k dopt target kt out =
     (case dw_open fl env crc pid fd k dopt of
        (Inl e, _, _) \<Rightarrow> Inl (Some e)
      | (Inr kv, _, d) \<Rightarrow>
     (case kv_each env crc [(''a'', Some ''1''), (''b'', Some ''2''), (''a'', Some ''3''), (''b'', None)] kv (the_dir d) of
        (Inl e, _, _) \<Rightarrow> Inl (Some e)
      | (Inr _, kv1, d1) \<Rightarrow>
     (case kv_show env crc kv1 d1 of
        (Inl e, _) \<Rightarrow> Inl (Some e)
      | (Inr before, kv2) \<Rightarrow>
     (case dw_export_jsonl env crc b64 json_row has_parent kv2 d1 target of
        (Inl e, _, _) \<Rightarrow> Inl (Some e)
      | (Inr _, kv3, exported) \<Rightarrow>
          if \<not> read_back \<or> exported = None then Inl None
          else
     (case dw_compact_to fl env env' crc pid fdt kt kv3 d1 out of
        (Inl e, _, _, _) \<Rightarrow> Inl (Some e)
      | (Inr stats, _, kt1, out1) \<Rightarrow>
     (case dw_open fl env' crc pid fdt kt1 out1 of
        (Inl e, _, _) \<Rightarrow> Inl (Some e)
      | (Inr kv4, _, d4) \<Rightarrow>
     (case kv_show env' crc kv4 (the_dir d4) of
        (Inl e, _) \<Rightarrow> Inl (Some e)
      | (Inr after, _) \<Rightarrow> Inr (before, the exported, stats, after))))))))"

section \<open>\<open>populate_smoke_store\<close>\<close>

text \<open>\<open>Inl None\<close> is the usage error.\<close>

definition populate_smoke_store ::
  "'k flock \<Rightarrow> os_env \<Rightarrow> (bytes \<Rightarrow> u32) \<Rightarrow> nat \<Rightarrow> nat \<Rightarrow> string list \<Rightarrow> (string \<Rightarrow> 'k) \<Rightarrow> (string \<Rightarrow> dir option)
   \<Rightarrow> error option + dir" where
  "populate_smoke_store fl env crc pid fd args locks dirs =
     (case args of
        [] \<Rightarrow> Inl None
      | path # _ \<Rightarrow>
     (case dw_open fl env crc pid fd (locks path) (dirs path) of
        (Inl e, _, _) \<Rightarrow> Inl (Some e)
      | (Inr wal, _, d) \<Rightarrow>
     (case kv_each env crc [(''alpha'', Some ''1''), (''beta'', Some ''22''), (''gamma'', Some ''333''), (''delta'', Some ''4444'')]
             wal (the_dir d) of
        (Inl e, _, _) \<Rightarrow> Inl (Some e)
      | (Inr _, wal1, d1) \<Rightarrow>
     (case dw_fsync env wal1 of
        (Inl e, _) \<Rightarrow> Inl (Some e)
      | (Inr _, _) \<Rightarrow> Inr d1))))"

end
