(* ===== verification/Demos_Correct.thy ===== *)
theory Demos_Correct
  imports Demos Corpus_Correct
begin

text \<open>What the demos show, from directories that do not exist yet and whatever calls fail.\<close>

section \<open>\<open>record_log_demo\<close>\<close>

lemma append_payloads_Inr:
  "append_payloads env crc ps log d = (Inr refs, log', d') \<Longrightarrow> rl_inv crc log d \<Longrightarrow>
    rl_inv crc log' d' \<and> (\<exists>rs. log_records crc d' = log_records crc d @ rs \<and> map ref_of_record rs = refs
      \<and> map rc_payload rs = ps \<and> (\<forall>r\<in>set rs. rc_type r = Raw))"
proof (induction ps arbitrary: log d refs)
  case (Cons p ps)
  from Cons.prems(1) obtain r log1 d1 rs where a: "rl_append_record env crc log d Raw [] p = (Inr r, log1, d1)"
    and c: "append_payloads env crc ps log1 d1 = (Inr rs, log', d')" and refs: "refs = r # rs"
    by (auto simp: rl_append_def split: prod.splits sum.splits)
  have l: "log_append env crc (log, d) Raw [] p = (Inr r, (log1, d1))" using a by (simp add: log_append_def)
  obtain x where x: "log_records crc d1 = log_records crc d @ [x]" "rc_type x = Raw" "rc_payload x = p" "ref_of_record x = r"
    using rlog.append_records [OF _ l] Cons.prems(2) by auto
  obtain xs where xs: "log_records crc d' = log_records crc d1 @ xs" "map ref_of_record xs = rs"
    "map rc_payload xs = ps" "\<forall>r\<in>set xs. rc_type r = Raw" and i: "rl_inv crc log' d'"
    using Cons.IH [OF c append_Inr(1) [OF Cons.prems(2) a]] by blast
  have "log_records crc d' = log_records crc d @ (x # xs)" using xs(1) x(1) by simp
  with xs x i show ?case unfolding refs by (intro conjI exI [of _ "x # xs"]) simp_all
qed simp

lemma record_log_demo_shows:
  assumes run: "record_log_demo fl env crc pid fd k None = Inr (refs, records)"
  shows "map ref_of_record records = refs \<and> (\<forall>r\<in>set records. rc_type r = Raw)
    \<and> map rc_payload records = map bytes_of_string [''hello'', ''world'', ''datawal v0.1.0-alpha'']"
proof -
  let ?ps = "map bytes_of_string [''hello'', ''world'', ''datawal v0.1.0-alpha'']"
  obtain log k1 dopt log1 d1 log2 log3 where o: "rl_open fl env crc pid fd k None = (Inr log, k1, dopt)"
    and a: "append_payloads env crc ?ps log (the_dir dopt) = (Inr refs, log1, d1)"
    and f: "rl_fsync env log1 = (Inr (), log2)" and s: "rl_scan env crc log2 d1 = (Inr records, log3)"
    using run by (auto simp: record_log_demo_def split: prod.splits sum.splits)
  obtain d where D: "dopt = Some d" "rl_inv crc log d" "log_records crc d = []"
    using rl_open_empty [OF o] by blast
  have a': "append_payloads env crc ?ps log d = (Inr refs, log1, d1)" using a D(1) by (simp add: the_dir_def)
  note A = append_payloads_Inr [OF a' D(2)]
  have "records = log_records crc d1" using scan_Inr(2) [OF _ s] A fsync_Inr [OF f] by blast
  with A D(3) show ?thesis by auto
qed

section \<open>\<open>tail_recovery_demo\<close>\<close>

lemma scan_any: "rl_scan env crc log d = (Inr rs, log') \<Longrightarrow> seg_ids d \<noteq> [] \<Longrightarrow>
    rs = log_records crc d \<and> rl_last_report log' = Some (into_public (scan_result crc d (seg_ids d) empty_scan))"
  by (auto simp: rl_scan_def list_segment_ids_Inr scan_all_iff scan_result_def log_records_def empty_scan_def Let_def
      split: sum.splits)

lemma open_missing:
  assumes "rl_open fl env crc pid fd k None = (Inr log, k', dopt)"
  shows "rl_open fl env crc pid fd k (Some []) = (Inr log, k', dopt)"
  using assms rl_open_missing [of env fl crc pid fd k] by (cases "works env CreateDirAll") (auto simp: rl_open_def)

text \<open>The demo's directory after its crash: two records and 28 bytes of the third.\<close>

lemma tail_demo_crash:
  assumes w: "tail_demo_write fl env crc pid fd k None = Inr (k1, d1)" and t: "tail_demo_truncate fs d1 = Inr d2"
  shows "dir_ok d2" "seg_ids d2 = [1]" "length (active_tail crc d2) = 28"
    "map (\<lambda>r. (rc_type r, rc_payload r)) (log_records crc d2) =
      map (\<lambda>p. (Raw, bytes_of_string p)) [''alpha'', ''beta'']"
proof -
  let ?ps = "map bytes_of_string [''alpha'', ''beta'', ''gamma'']"
  obtain log k0 dopt log1 where o: "rl_open fl env crc pid fd k None = (Inr log, k0, dopt)"
    and a: "append_each env crc ?ps log (the_dir dopt) = (Inr (), log1, d1)"
    using w by (auto simp: tail_demo_write_def split: prod.splits sum.splits)
  obtain d where D: "dopt = Some d" "rl_inv crc log d" "rl_active_id log = 1" "rl_next_txid log = 1"
    "seg_ids d = [1]" "seg_content d 1 = Some []"
    by (rule open_new [OF open_missing [OF o]])
  have a': "append_each env crc ?ps log d = (Inr (), log1, d1)" using a D(1) by (simp add: the_dir_def)
  have A: "dir_ok d1" "seg_ids d1 = [1]" "list_all frame_ok (raw_frames 1 ?ps)"
    "seg_content d1 1 = Some (stream crc (raw_frames 1 ?ps))"
    using append_each_Inr [OF a' D(2)] D(3-6) by (auto simp: seg_bytes_def dest: rl_invD(1))
  define f where "f = \<lparr>fr_type = Raw, fr_txid = 3, fr_key = [], fr_payload = bytes_of_string ''gamma''\<rparr>"
  have f: "frame_ok f" "wire_len f = 33"
    by (simp_all add: f_def frame_ok_def wire_len_def record_wire_size_def wire_consts)
  let ?qs = "map bytes_of_string [''alpha'', ''beta'']"
  have b: "stream crc (raw_frames 1 ?ps) = stream crc (raw_frames 1 ?qs) @ wire crc f" by (simp add: f_def stream_concat)
  obtain bs where "seg_content d1 1 = Some bs" "d2 = put_file d1 (segment_name 1) (take (length bs - 5) bs)"
    using t by (auto simp: tail_demo_truncate_def seg_file_name seg_content_def Let_def split: if_splits option.splits)
  moreover have "take (length (xs @ wire crc f) - 5) (xs @ wire crc f) = xs @ take 28 (wire crc f)" for xs
    by (simp add: length_wire f(2))
  ultimately have d2: "d2 = put_file d1 (segment_name 1) (stream crc (raw_frames 1 ?qs) @ take 28 (wire crc f))"
    using A(4) unfolding b by (metis option.inject)
  then have c: "seg_content d2 1 = Some (stream crc (raw_frames 1 ?qs) @ take 28 (wire crc f))" by (simp add: seg_content_def)
  show ok: "dir_ok d2" "seg_ids d2 = [1]"
    using A(1,2) put_segment_ids [OF A(1), of 1] by (simp_all add: d2)
  have fs: "list_all frame_ok (raw_frames 1 ?qs)" using A(3) by simp
  have p: "parse_frame crc (take 28 (wire crc f)) = None" using parse_torn [OF f(1)] f(2) by simp
  note S = one_segment_store [OF ok c fs p]
  show "length (active_tail crc d2) = 28" by (simp add: S(2) length_wire f(2))
  have "map (\<lambda>(t, k, v). (t, v)) (entries crc d2) = map (\<lambda>p. (Raw, bytes_of_string p)) [''alpha'', ''beta'']"
    by (simp add: S(1))
  then show "map (\<lambda>r. (rc_type r, rc_payload r)) (log_records crc d2) = map (\<lambda>p. (Raw, bytes_of_string p)) [''alpha'', ''beta'']"
    by (simp add: entries_def comp_def)
qed

lemma tail_recovery_demo_shows:
  assumes run: "tail_recovery_demo fl env fs crc pid fd k None = out"
  shows "case out of
      Inl e \<Rightarrow> (\<forall>msg. e \<noteq> DemoAssert msg)
    | Inr (records, report) \<Rightarrow> map rc_payload records = map bytes_of_string [''alpha'', ''beta'']
        \<and> rr_tail_truncated report = 1 \<and> rr_tail_bytes_discarded report = 28"
proof (cases "tail_demo_write fl env crc pid fd k None")
  case (Inr kd)
  obtain k1 d1 where kd: "kd = (k1, d1)" by force
  show ?thesis
  proof (cases "tail_demo_truncate fs d1")
    case (Inr d2)
    note C = tail_demo_crash [OF \<open>_ = Inr kd\<close> [unfolded kd] Inr]
    show ?thesis
    proof (cases "rl_open fl env crc pid fd k1 (Some d2)")
      case (fields res k2 dopt)
      show ?thesis
      proof (cases res)
        case (Inr log)
        obtain d3 where D: "dopt = Some d3" "seg_ids d3 = seg_ids d2" "log_records crc d3 = log_records crc d2"
          "seg_content d3 1 = seg_content d2 1"
          using rl_open_Inr [OF fields [unfolded Inr] C(1)] C(2) by (metis list.discI list.set_intros(1))
        have t: "active_tail crc d3 = active_tail crc d2"
          using seg_tail_cong [OF D(4), of crc] D(2) C(2) by (simp add: active_tail_def)
        have l: "length (log_records crc d2) = 2" using arg_cong [OF C(4), of length] by simp
        have p: "map rc_payload (log_records crc d2) = map bytes_of_string [''alpha'', ''beta'']"
          using arg_cong [OF C(4), of "map snd"] by (simp add: comp_def)
        have ne: "seg_ids d3 \<noteq> []" using D(2) C(2) by simp
        have tr: "(if active_tail crc d3 = [] then 0 else 1) = (1 :: nat)" "length (active_tail crc d3) = 28"
          using t C(3) by auto
        obtain sres log1 where s: "rl_scan env crc log d3 = (sres, log1)" by force
        show ?thesis
        proof (cases sres)
          case (Inr records)
          note S = scan_any [OF s [unfolded Inr] ne]
          note R = opened_report(2,5) [OF ne, of crc, unfolded tr]
          have "rl_recovery_report log1 = Inr (into_public (scan_result crc d3 (seg_ids d3) empty_scan))"
            using S by (simp add: rl_recovery_report_def)
          then have "out = Inr (log_records crc d2, into_public (scan_result crc d3 (seg_ids d3) empty_scan))"
            using run \<open>_ = Inr kd\<close> kd \<open>_ = Inr d2\<close> fields \<open>res = _\<close> D(1,3) s Inr S l R
            by (simp add: tail_recovery_demo_def the_dir_def rl_close_def)
          then show ?thesis using p R by simp
        qed (use run \<open>_ = Inr kd\<close> kd \<open>_ = Inr d2\<close> fields \<open>res = _\<close> D(1) s in
            \<open>auto simp: tail_recovery_demo_def the_dir_def\<close>)
      qed (use run \<open>_ = Inr kd\<close> kd \<open>_ = Inr d2\<close> fields in \<open>auto simp: tail_recovery_demo_def\<close>)
    qed
  qed (use run \<open>_ = Inr kd\<close> kd in \<open>auto simp: tail_recovery_demo_def tail_demo_truncate_def Let_def
      split: option.splits if_splits\<close>)
qed (use run in \<open>auto simp: tail_recovery_demo_def\<close>)

section \<open>The key-value demos\<close>

lemma the_dir_Some [simp]: "the_dir (Some d) = d"
  by (simp add: the_dir_def)

lemma open_missing_kv:
  assumes "dw_open fl env crc pid fd k None = (Inr w, k', dopt)"
  shows "dw_open fl env crc pid fd k (Some []) = (Inr w, k', dopt)"
  using assms rl_open_missing [of env fl crc pid fd k]
  by (cases "works env CreateDirAll") (auto simp: dw_open_def rl_open_def)

lemma open_new_kv:
  assumes o: "dw_open fl env crc pid fd k None = (Inr w, k', dopt)"
  obtains d where "dopt = Some d" "dw_inv crc w d" "contents crc d = Map.empty"
  using dw_open_fresh [OF open_missing_kv [OF o] dir_ok_Nil seg_ids_Nil] by metis

lemma kv_show_Inr:
  assumes s: "kv_show env crc w d = (Inr v, w')" and inv: "kd_inv crc w d"
  shows "kd_inv crc w' d \<and> dw_log w' = dw_log w
    \<and> v = \<lparr>kv_len = card (dom (contents crc d)), kv_a = contents crc d (bytes_of_string ''a''),
        kv_has_b = (contents crc d (bytes_of_string ''b'') \<noteq> None)\<rparr>"
proof -
  obtain r where g: "dw_get env crc w d (bytes_of_string ''a'') = (Inr r, w')"
    and v: "v = \<lparr>kv_len = dw_len w, kv_a = r, kv_has_b = dw_contains_key w' (bytes_of_string ''b'')\<rparr>"
    using s by (auto simp: kv_show_def split: prod.splits sum.splits)
  have G: "r = contents crc d (bytes_of_string ''a'')" "kd_inv crc w' d" "dw_log w' = dw_log w"
    using get_Inr [OF inv g] by blast+
  show ?thesis using lookups_contents(2) [OF inv] lookups_contents(1) [OF G(2)] G by (simp add: v)
qed

lemma export_Inr:
  assumes e: "dw_export_jsonl env crc b64 json_row has_parent w d target = (Inr u, w', x)" and inv: "kd_inv crc w d"
  shows "kd_inv crc w' d"
proof -
  have "export_loop env crc b64 json_row d ks buf w = (Inr s, w') \<Longrightarrow> kd_inv crc w d \<Longrightarrow> kd_inv crc w' d" for ks buf s w
  proof (induction ks arbitrary: buf w)
    case (Cons k ks)
    then show ?case using get_Inr by (fastforce simp: get_live_def split: prod.splits sum.splits option.splits)
  qed simp
  with e inv show ?thesis by (auto simp: dw_export_jsonl_def split: prod.splits sum.splits if_splits)
qed

lemma kv_demo_shows:
  assumes run: "datawal_kv_demo fl env env' crc b64 json_row has_parent read_back pid fd fdt k None target kt None
      = Inr (before, exported, stats, after)"
  shows "before = \<lparr>kv_len = 1, kv_a = Some (bytes_of_string ''3''), kv_has_b = False\<rparr> \<and> after = before"
proof -
  obtain kv k1 d kv1 d1 kv2 kv3 x kv3' kt1 out1 kv4 k4 d4 kv5 where
    o: "dw_open fl env crc pid fd k None = (Inr kv, k1, d)"
    and e: "kv_each env crc [(''a'', Some ''1''), (''b'', Some ''2''), (''a'', Some ''3''), (''b'', None)] kv (the_dir d)
        = (Inr (), kv1, d1)"
    and s1: "kv_show env crc kv1 d1 = (Inr before, kv2)"
    and ex: "dw_export_jsonl env crc b64 json_row has_parent kv2 d1 target = (Inr (), kv3, x)"
    and c: "dw_compact_to fl env env' crc pid fdt kt kv3 d1 None = (Inr stats, kv3', kt1, out1)"
    and o2: "dw_open fl env' crc pid fdt kt1 out1 = (Inr kv4, k4, d4)"
    and s2: "kv_show env' crc kv4 (the_dir d4) = (Inr after, kv5)"
    using run by (auto simp: datawal_kv_demo_def split: prod.splits sum.splits if_splits)
  obtain d0 where D: "d = Some d0" "dw_inv crc kv d0" "contents crc d0 = Map.empty" by (rule open_new_kv [OF o])
  let ?m = "[bytes_of_string ''a'' \<mapsto> bytes_of_string ''3'']"
  have E: "dw_inv crc kv1 d1" "contents crc d1 = ?m"
    using kv_each_Inr [OF e [unfolded D(1) the_dir_Some] D(2)] D(3)
    by (auto simp: fun_eq_iff bytes_of_string_def)
  have i1: "kd_inv crc kv1 d1" using E(1) by (simp add: dw_inv_def)
  note S1 = kv_show_Inr [OF s1 i1]
  have i3: "kd_inv crc kv3 d1" using export_Inr [OF ex] S1 by blast
  obtain d2 log2 where C: "out1 = Some d2" "rl_inv crc log2 d2" "contents crc d2 = contents crc d1"
    using compact_to_Inr [OF c i3] by blast
  obtain d3 where R: "d4 = Some d3" "dw_inv crc kv4 d3" "contents crc d3 = contents crc d2"
    using dw_open_clean [OF o2 [unfolded C(1)] C(2)] by blast
  have i4: "kd_inv crc kv4 d3" using R(2) by (simp add: dw_inv_def)
  have s2': "kv_show env' crc kv4 d3 = (Inr after, kv5)" using s2 R(1) by (simp add: the_dir_def)
  have "contents crc d3 = ?m" using R(3) C(3) E(2) by simp
  with S1 kv_show_Inr [OF s2' i4] E(2) show ?thesis by (simp add: bytes_of_string_def)
qed

lemma populate_shows:
  assumes run: "populate_smoke_store fl env crc pid fd (path # args) locks dirs = Inr d" and new: "dirs path = None"
  shows "contents crc d = [bytes_of_string ''alpha'' \<mapsto> bytes_of_string ''1'', bytes_of_string ''beta'' \<mapsto> bytes_of_string ''22'',
      bytes_of_string ''gamma'' \<mapsto> bytes_of_string ''333'', bytes_of_string ''delta'' \<mapsto> bytes_of_string ''4444'']"
proof -
  obtain w k1 dopt w1 where o: "dw_open fl env crc pid fd (locks path) None = (Inr w, k1, dopt)"
    and e: "kv_each env crc [(''alpha'', Some ''1''), (''beta'', Some ''22''), (''gamma'', Some ''333''), (''delta'', Some ''4444'')]
             w (the_dir dopt) = (Inr (), w1, d)"
    using run new by (auto simp: populate_smoke_store_def split: prod.splits sum.splits)
  obtain d0 where D: "dopt = Some d0" "dw_inv crc w d0" "contents crc d0 = Map.empty" by (rule open_new_kv [OF o])
  from kv_each_Inr [OF e [unfolded D(1) the_dir_Some] D(2)] D(3) show ?thesis
    by (simp add: bytes_of_string_def fun_upd_def)
qed

end
