(* ===== verification/Harness_Properties.thy ===== *)
theory Harness_Properties
  imports Example_Corpus Power_Loss_Crash Fuzz_Targets Soak_Fixtures Demos_Correct
begin

text \<open>
  Properties of the fuzz targets and of the power-loss harness.
\<close>

section \<open>Fuzz targets and demos\<close>


section \<open>The validator\<close>

text \<open>
  C39.  What the validator accepts.  On a store that opens, exit code 0 means exactly that
  every live key of the store is live in the oracle and, unless \<open>--sample 0\<close> was given,
  that the store's map is contained in the oracle's.  Missing keys are counted, never
  rejected.
\<close>

theorem validator_accepts_iff:
  fixes pid fd fd2 sample :: nat
  assumes "load_oracle b64_dec parse oracle = Inr agg"
    and "dir_ok d" and "openable d" and "recoverable crc d"
    and "all_io env1" and "all_io env2" and "all_io env3" and "flock_laws fl holders" and "holders k = {}"
  defines "r \<equiv> validate_run fl env1 env2 env3 crc b64_dec parse pid fd fd2 sample k (Some d) oracle"
  shows "((\<exists>x. r = Inr x) \<longleftrightarrow> dom (contents crc d) \<subseteq> dom (oracle_map (oa_effect agg))
      \<and> (sample = 0 \<or> contents crc d \<subseteq>\<^sub>m oracle_map (oa_effect agg)))
    \<and> (\<forall>x. r = Inr x \<longrightarrow> vs_dropped x = card (dom (oracle_map (oa_effect agg)) - dom (contents crc d)))"
proof -
  obtain store d2 where V: "kd_inv crc store d2" "contents crc d2 = contents crc d"
    "validate_run fl env1 env2 env3 crc b64_dec parse pid fd fd2 sample k (Some d) oracle =
       validate_store env3 crc sample (oa_effect agg) store d2"
    by (rule validate_run_result [OF assms(1-6,8,9)], rule that)
  note R = validate_store_result [OF V(1) assms(7) load_oracle_distinct [OF assms(1)], of sample]
  show ?thesis using R(1) R(2) unfolding r_def V(2,3) by blast
qed

text \<open>
  A store whose only value differs from the oracle's: accepted with \<open>--sample 0\<close>, rejected
  with \<open>--sample 1\<close>.
\<close>

theorem validator_accepts_iff_witness:
  "\<exists>txt. txt = oracle_text ex_json [OPut 0 (to_hex [1]) (to_hex [9])]
    \<and> (\<exists>x. validate_run ex_flock all_works all_works all_works ex_crc ex_unhex ex_parse 0 5 6 0 {} (Some ex_dir)
        (Some txt) = Inr x)
    \<and> \<not> (\<exists>x. validate_run ex_flock all_works all_works all_works ex_crc ex_unhex ex_parse 0 5 6 1 {} (Some ex_dir)
        (Some txt) = Inr x)"
proof -
  obtain agg where A: "load_oracle ex_unhex ex_parse (Some (oracle_text ex_json [OPut 0 (to_hex [1]) (to_hex [9])])) = Inr agg"
    "oracle_map (oa_effect agg) = [[1] \<mapsto> [9]]"
    using load_oracle_text [OF ex_json_laws, of ex_unhex "[OPut 0 (to_hex [1]) (to_hex [9])]"]
    by (auto simp: ex_row_laws(1) simp del: to_hex.simps)
  note V = validator_accepts_iff [OF A(1) ex_dir_facts(1,2,7) all_io_all_works all_io_all_works all_io_all_works
      ex_flock_laws, of "{}", simplified id_apply, OF refl, of 0 5 6, unfolded A(2) ex_contents, THEN conjunct1]
  show ?thesis using V [of 0] V [of 1] by (simp add: map_le_def del: to_hex.simps)
qed

section \<open>The harness as a whole\<close>

text \<open>
  C34.  A workload that ended without an error, on a fresh directory, is accepted by the
  validator after every crash that keeps the forced bytes, with no key dropped.
\<close>

theorem harness_accepts_its_own_store:
  assumes "workload_run fl env0 env env' time_up oracle_io created opened synced crc b64 json pid fd cli k (Some [])
      = (Inr (), Some s)"
    and "crash \<lparr>wl_log = dw_log (ws_log s), wl_dir = ws_dir s,
      wl_synced = length (seg_bytes (ws_dir s) (rl_active_id (dw_log (ws_log s))))\<rparr> d'"
    and "\<And>bs. b64_dec (b64 bs) = Some bs" and "json_laws json parse"
    and "all_io env1" and "all_io env2" and "all_io env3" and "flock_laws fl holders" and "holders k2 = {}"
  shows "\<exists>x. validate_run fl env1 env2 env3 crc b64_dec parse pid2 fd2 fd3 sample k2 (Some d') (Some (ws_oracle s))
      = Inr x \<and> vs_dropped x = 0"
proof -
  obtain ls where I: "dw_inv crc (ws_log s) (ws_dir s)" "openable (ws_dir s)" "ws_oracle s = oracle_text json ls"
    "list_all (decodable b64_dec) ls" "foldl (line_step b64_dec) Map.empty ls = contents crc (ws_dir s)"
    using workload_run_inv [OF assms(3,1)] by (auto simp: workload_inv_def)
  note C = crash_after_fsync [OF I(1,2) assms(2)]
  have "foldl (line_step b64_dec) Map.empty ls = contents crc d'" using I(5) C(4) by simp
  from validate_accepts [OF C(1-3) assms(4) I(4) this assms(5-9)] show ?thesis by (simp add: I(3))
qed

text \<open>One operation on a fresh directory, a crash, and the validator.\<close>

theorem harness_accepts_its_own_store_witness:
  "\<exists>s x. workload_run ex_flock all_works (\<lambda>_. all_works) all_works (\<lambda>_. False) (\<lambda>_. None) True True True
       ex_crc to_hex ex_json 0 5 ex_cli {} (Some []) = (Inr (), Some s)
    \<and> ws_oracle s \<noteq> []
    \<and> validate_run ex_flock all_works all_works all_works ex_crc ex_unhex ex_parse 1 6 7 5 {}
        (Some (cut_active (ws_dir s) (length (seg_bytes (ws_dir s) (rl_active_id (dw_log (ws_log s))))))) (Some (ws_oracle s)) = Inr x
    \<and> vs_dropped x = 0"
proof -
  obtain s where W: "workload_run ex_flock all_works (\<lambda>_. all_works) all_works (\<lambda>_. False) (\<lambda>_. None) True True True
       ex_crc to_hex ex_json 0 5 ex_cli {} (Some []) = (Inr (), Some s)"
    "ws_oracle s = oracle_text ex_json [OPut 0 (to_hex (key_for 1 0 4)) (to_hex (value_for 1 0 4))]"
    using ex_workload by blast
  from harness_accepts_its_own_store [OF W(1) _ ex_row_laws(1) ex_json_laws all_io_all_works all_io_all_works
      all_io_all_works ex_flock_laws, of _ "{}" 1 6 7 5]
  show ?thesis using W by (auto simp: crash_def oracle_text_def)
qed



section \<open>The soak test\<close>

text \<open>
  C36.  The soak test gives no false alarm.  Starting from an empty directory, whatever
  inputs, clock and failing calls it meets, and however often it swaps in a compacted store,
  it never reports a difference between the reopened store and the map it kept in memory; it
  panics only for a rotation interval of 0; and when it ends without an error, every one of
  the \<open>n\<close> operations was a put or a delete, and at least as many were puts as there are
  live keys and deletes.
\<close>

theorem soak_gives_no_false_alarm:
  assumes "sh_tree h 0 RemoveWork \<or> wd_dirs wd (sc_work_dir cli) = None"
    and "with_extension (sc_work_dir cli) ''compact-tmp'' \<noteq> sc_work_dir cli"
  shows "case soak_run h env0 env1 env2 b64_dec parse crate_dir n cli wd of
      Inl e \<Rightarrow> (\<forall>a b c d. e \<noteq> KeydirMismatch a b c d) \<and> (\<forall>l a b. e \<noteq> ValueMismatch l a b)
        \<and> (e = Panic \<longrightarrow> sc_rotate_every cli = 0)
    | Inr sm \<Rightarrow> ct_puts (sm_counters sm) + ct_deletes (sm_counters sm) = n
        \<and> sm_final_keys sm + ct_deletes (sm_counters sm) \<le> ct_puts (sm_counters sm)"
proof (cases "soak_run h env0 env1 env2 b64_dec parse crate_dir n cli wd")
  case (Inl e)
  then show ?thesis using soak_run_mild [OF Inl assms] by (auto simp: mild_def)
next
  case (Inr sm)
  then show ?thesis using soak_run_counted [OF Inr assms] by simp
qed

text \<open>A run of one operation ends without an error, with one key.\<close>

theorem soak_gives_no_false_alarm_witness:
  "\<exists>sm. soak_run ex_soak_host all_works all_works all_works ex_unhex ex_parse_row ''crate'' 1 ex_soak_cli ex_soak_world = Inr sm
    \<and> ct_puts (sm_counters sm) + ct_deletes (sm_counters sm) = 1"
proof -
  have "sh_tree ex_soak_host 0 RemoveWork \<or> wd_dirs ex_soak_world (sc_work_dir ex_soak_cli) = None"
    "with_extension (sc_work_dir ex_soak_cli) ''compact-tmp'' \<noteq> sc_work_dir ex_soak_cli"
    using ex_work by (simp_all add: ex_soak_host_def ex_soak_cli_def)
  note N = soak_gives_no_false_alarm [OF this, where ?env0.0 = all_works and ?env1.0 = all_works and ?env2.0 = all_works
    and b64_dec = ex_unhex and parse = ex_parse_row and crate_dir = "''crate''" and n = 1]
  obtain sm where sm: "soak_run ex_soak_host all_works all_works all_works ex_unhex ex_parse_row ''crate'' 1
      ex_soak_cli ex_soak_world = Inr sm"
    using ex_soak by blast
  from N [unfolded sm] sm show ?thesis by simp
qed

text \<open>
  C37.  The soak test loads what its fixture generator wrote: after a run of the generator
  into the crate's directory that ends without an error, the synthetic mode reads 100, 100
  and 20 records with keys of 32 bytes and payloads of 512, 3072 and 65536 bytes, exactly
  the pseudo-random ones.
\<close>

theorem soak_loads_its_fixtures:
  assumes "fixtures_main io b64 json crate_dir cwd [] files = (Inr (), files')"
    and "row_laws b64 b64_dec json parse" and "sc_mode cli = Synthetic"
  shows "load_streams b64_dec parse files' crate_dir cli =
      Inr (as_records small_rows, as_records medium_rows, as_records large_rows)
    \<and> rows_are 100 32 512 (as_records small_rows) \<and> rows_are 100 32 3072 (as_records medium_rows)
    \<and> rows_are 20 32 65536 (as_records large_rows)"
  using fixtures_load [OF assms] rows_sizes by simp

lemma ex_row_law: "row_laws to_hex ex_unhex ex_row ex_parse_row"
  unfolding row_laws_def using ex_row_laws by (simp add: last_row blank_def) (simp add: ex_row_def)

text \<open>Every call works, with hexadecimal digits for Base64.\<close>

theorem soak_loads_its_fixtures_witness:
  "\<exists>files'. fixtures_main (\<lambda>p. \<lparr>wi_mkdir = True, wi_create = True, wi_write = None, wi_sync = True\<rparr>) to_hex ex_row ''crate''
      None [] Map.empty = (Inr (), files')
    \<and> load_streams ex_unhex ex_parse_row files' ''crate'' (ex_soak_cli\<lparr>sc_mode := Synthetic\<rparr>) =
      Inr (as_records small_rows, as_records medium_rows, as_records large_rows)"
proof -
  obtain files' where f: "fixtures_main (\<lambda>p. \<lparr>wi_mkdir = True, wi_create = True, wi_write = None, wi_sync = True\<rparr>) to_hex ex_row
      ''crate'' None [] Map.empty = (Inr (), files')"
    by (simp add: fixtures_main_def fixtures_resolve_root_def write_jsonl_def Let_def)
  from soak_loads_its_fixtures [OF f ex_row_law, of "ex_soak_cli\<lparr>sc_mode := Synthetic\<rparr>"] f show ?thesis by auto
qed

section \<open>The fixture generator\<close>

text \<open>
  C38.  The corpus fixtures are what they are meant to be.  Whatever was in the output
  directory and whatever the operating system does, when the generator ends without an error
  the six fixtures are: three raw records; two raw records and a torn third one; a log with a
  record of wrong checksum in a sealed segment, which is not recoverable; a log whose first
  record has the unknown version 0xCAFE; four entries that leave one live key; the two live
  entries of a compacted store.
\<close>

theorem corpus_fixtures_are_right:
  assumes "gen_main h at = Inr out" and "detects_byte_flip (gh_crc h)"
  shows "\<exists>d1 d2 d3 d4 d5 d6 n. out = [(''valid_log'', d1), (''truncated_tail'', d2), (''bad_crc'', d3),
        (''unknown_version'', d4), (''delete_tombstone'', d5), (''compact_to_output'', d6)]
    \<and> (\<forall>d\<in>{d1, d2, d5, d6}. dir_ok d \<and> recoverable (gh_crc h) d)
    \<and> entries (gh_crc h) d1 = map (\<lambda>p. (Raw, [], bytes_of_string p)) [''alpha'', ''beta'', ''gamma'']
    \<and> active_tail (gh_crc h) d1 = []
    \<and> entries (gh_crc h) d2 = map (\<lambda>p. (Raw, [], bytes_of_string p)) [''one'', ''two'']
    \<and> length (active_tail (gh_crc h) d2) = 28
    \<and> \<not> recoverable (gh_crc h) d3 \<and> seg_ids d3 = [1, 2, 3]
    \<and> decode_next (gh_crc h) (seg_bytes d3 2) 0 = Inr (CrcMismatch n)
    \<and> \<not> recoverable (gh_crc h) d4 \<and> decode_next (gh_crc h) (seg_bytes d4 1) 0 = Inl (UnknownVersion 0xCAFE)
    \<and> map fst (entries (gh_crc h) d5) = [Put, Put, Put, Delete]
    \<and> contents (gh_crc h) d5 = [bytes_of_string ''alpha'' \<mapsto> bytes_of_string ''3'']
    \<and> entries (gh_crc h) d6 = [(Put, bytes_of_string ''keep'', bytes_of_string ''final''),
        (Put, bytes_of_string ''other'', bytes_of_string ''value'')]"
proof -
  obtain d1 d2 d3 d4 d5 d6 where G: "gen_valid_log h (at ''valid_log'') = Inr d1"
    "gen_truncated_tail h (at ''truncated_tail'') = Inr d2" "gen_bad_crc h (at ''bad_crc'') = Inr d3"
    "gen_unknown_version h (at ''unknown_version'') = Inr d4" "gen_delete_tombstone h (at ''delete_tombstone'') = Inr d5"
    "gen_compact_to_output h (at ''compact_to_source'') (at ''compact_to_output'') = Inr d6"
    and out: "out = [(''valid_log'', d1), (''truncated_tail'', d2), (''bad_crc'', d3),
        (''unknown_version'', d4), (''delete_tombstone'', d5), (''compact_to_output'', d6)]"
    using assms(1) by (auto simp: gen_main_def split: if_splits sum.splits)
  note V = valid_log_entries [OF G(1)] and T = truncated_tail_entries [OF G(2)] and U = unknown_version_entries [OF G(4)]
  note D = delete_tombstone_entries [OF G(5)] and C = compact_to_output_entries [OF G(6)]
  obtain n where B: "\<not> recoverable (gh_crc h) d3" "seg_ids d3 = [1, 2, 3]"
    "decode_next (gh_crc h) (seg_bytes d3 2) 0 = Inr (CrcMismatch n)"
    using bad_crc_entries [OF G(3) assms(2)] by blast
  have r: "\<forall>d\<in>{d1, d2, d5, d6}. dir_ok d \<and> recoverable (gh_crc h) d" using V T D C by blast
  have e: "map fst (entries (gh_crc h) d5) = [Put, Put, Put, Delete]"
    "entries (gh_crc h) d6 = [(Put, bytes_of_string ''keep'', bytes_of_string ''final''),
        (Put, bytes_of_string ''other'', bytes_of_string ''value'')]"
    using conjunct1 [OF conjunct2 [OF conjunct2 [OF D]]] conjunct2 [OF conjunct2 [OF C]] by simp_all
  note v = conjunct2 [OF conjunct2 [OF V]] and t = conjunct2 [OF conjunct2 [OF T]]
    and u = conjunct2 [OF U] and d = conjunct2 [OF conjunct2 [OF conjunct2 [OF D]]]
  show ?thesis
    unfolding out
    by (intro exI conjI, rule refl, rule r, rule conjunct2 [OF v], rule conjunct1 [OF v], rule conjunct2 [OF t],
        rule conjunct1 [OF t], rule B(1), rule B(2), rule B(3), rule conjunct1 [OF u],
        rule conjunct2 [OF conjunct2 [OF u]], rule e(1), rule d, rule e(2))
qed

text \<open>On a machine where every call works, into an empty output directory.\<close>

theorem corpus_fixtures_are_right_witness:
  "\<exists>out d. gen_main ex_gen_host (\<lambda>p. None) = Inr out \<and> map_of out ''delete_tombstone'' = Some d
    \<and> contents ex_crc d = [bytes_of_string ''alpha'' \<mapsto> bytes_of_string ''3'']"
proof -
  obtain out where o: "gen_main ex_gen_host (\<lambda>p. None) = Inr out"
    using gen_main_ok [OF ex_gen_host_fields(1,2,4,5)] by blast
  obtain d1 d2 d3 d4 d5 d6 where "out = [(''valid_log'', d1), (''truncated_tail'', d2), (''bad_crc'', d3),
        (''unknown_version'', d4), (''delete_tombstone'', d5), (''compact_to_output'', d6)]"
    "contents ex_crc d5 = [bytes_of_string ''alpha'' \<mapsto> bytes_of_string ''3'']"
    using corpus_fixtures_are_right [OF o] ex_crc_detects unfolding ex_gen_host_fields(3) by blast
  with o show ?thesis by simp
qed


end
