(* ===== verification/Spec2Isabelle.thy ===== *)
theory Spec2Isabelle
  imports Format_Properties Log_Properties Cli_Properties Harness_Properties
begin

text \<open>
  A verification development for datawal, an append-only record log with a key-value layer
  on top (Rust crates \<open>datawal-core\<close> and \<open>datawal-cli\<close>).

  \<^bold>\<open>The program.\<close>  A store is one directory: a file \<open>.lock\<close> and segment files
  \<open>00000001.dwal\<close>, \<open>00000002.dwal\<close>, ... of self-delimiting frames (24 bytes of header, key,
  payload, CRC32C).  \<open>RecordLog\<close> takes the lock, recovers the longest valid prefix of every
  segment, appends frames to the last segment, forces it with \<open>fsync\<close>, and seals it with
  \<open>rotate\<close>.  \<open>RecordIter\<close> reads a log lazily, for the writer (\<open>scan_iter\<close>) and for the
  lock-free \<open>RecordLogReader\<close>.  \<open>DataWal\<close> replays the log into a keydir, a map from keys to
  record references, and reads values through a pool of file descriptors.  The command line
  opens a store and prints what it finds.  Fuzz targets, a power-loss
  harness and a soak test check it; generators write the fixtures of the tests.

  \<^bold>\<open>Theories, and the code they model.\<close>
  \<^item> Prelude, Errors, Filesystem: bytes and words, the failure values, one directory with the
    calls of \<open>std::fs\<close> that the crate makes.
  \<^item> Wire_Format (\<open>format.rs\<close>): \<open>encode_record\<close>, \<open>decode_next\<close>.  Frames proves that they are
    inverse to each other and that a stream has one longest valid prefix.  Header_Errors: which
    bytes start a record, and where the errors of \<open>decode_next\<close> lie.  Messages: the text of
    \<open>DecodeError\<close>.
  \<^item> Segments (\<open>segment.rs\<close>), Dir_Lock (\<open>lock.rs\<close>), Fd_Pool (\<open>fd_pool.rs\<close>).
  \<^item> Scan, Record_Log, Record_Iter (\<open>record_log.rs\<close>, \<open>record_log_reader.rs\<close>): eager and lazy
    scanning, the writer's operations; Log_Image says what a directory contains
    (\<open>log_records\<close>), Record_Log_Correct what each operation does to it.
  \<^item> Keydir, Data_Wal (\<open>datawal.rs\<close>): the keydir's replay and all operations of \<open>DataWal\<close>;
    Data_Wal_Correct shows that they refine a partial map (\<open>contents\<close>), Kv_Runs that runs
    of calls with any results are runs of that map.
  \<^item> Crash_Image: crashes as cuts of the last segment.  Durability: the writer's calls as
    steps, with every result they may have, and runs of them.  Read_While_Write: calls of the
    reader's iterator between the writer's.  Torn_Tail: what appends behind a torn tail do.
    Store_Liveness: calls on a healthy store succeed.
  \<^item> Bytes_Render, Cli_Output, Cli_Commands (\<open>datawal-cli/src\<close>); Cli_Correct relates exit
    codes and lines to the log.
  \<^item> Fuzz_Targets (\<open>fuzz/fuzz_targets\<close>), Power_Loss_Workload and Power_Loss_Validate
    (\<open>datawal-core/examples\<close>); Power_Loss_Correct relates the oracle to the store,
    Power_Loss_Crash when the workload is stopped anywhere.
  \<^item> Cli_Main (\<open>cli.rs\<close>, \<open>dispatch\<close>, \<open>main.rs\<close>): commands on a \<open>world\<close> of directories, their
    locks and files; Cli_Main_Correct shows what every command keeps of it.
  \<^item> Soak (\<open>examples/soak.rs\<close>), Soak_Fixtures (\<open>gen_soak_fixtures.rs\<close>), Corpus
    (\<open>gen_corpus.rs\<close>), Demos (the four demos): programs that drive the store.  Soak_Correct,
    Corpus_Correct and Demos_Correct relate what they see to the store's contents.
  \<^item> Format_Properties, Log_Properties, Cli_Properties, Harness_Properties and this theory
    state the properties; Example_Store, Example_Oracle, Example_Soak and Example_Corpus hold
    the instances they are tried on.

  \<^bold>\<open>Correspondence.\<close>  A handle of the code is a record of its fields; the directory it works on
  is passed and returned beside it.  An operation returns \<open>error + 'a\<close>, the new handle and
  the new directory.  Definitions keep the names of the code, with a prefix (\<open>rl_\<close>, \<open>dw_\<close>,
  \<open>cmd_\<close>) where a type's methods need one.  A system call may fail: each operation takes an
  \<open>os_env\<close> that says which calls succeed and how many bytes a failing write leaves behind, and
  the theorems quantify over it, or assume \<open>all_io\<close> where they claim success.  Words have the
  width of the code on the wire and where overflow is checked.

  \<^bold>\<open>Parameters.\<close>  The checksum (\<open>crc32c\<close>) is any function; only the detection of damage
  assumes that the checksums differ.  \<open>flock\<close> obeys \<open>flock_laws\<close>: one holder at a time.
  Base64 and serde_json are functions whose decoders invert them, and whose lines contain no
  line breaks.  \<open>safeatomic_rs\<close> replaces a file entirely or not at all.  Example_Store and
  Example_Oracle instantiate all of them.

  \<^bold>\<open>Abstract specifications.\<close>  A log is the list \<open>log_records\<close> of its records: an append adds
  one at the end, rotation and scanning keep the list.  A key-value store is the partial map
  \<open>contents\<close>, the fold of that list.  The locales \<open>frame_code\<close> (a self-delimiting code),
  \<open>segment_reader\<close> (reads through a cache) and \<open>append_log\<close> (what the key-value layer needs of
  a log) state these interfaces, and are interpreted on the definitions of the code.
  The invariants are \<open>rl_inv\<close> (log handle), \<open>kd_inv\<close> and \<open>dw_inv\<close> (key-value handle) and
  \<open>wal_inv\<close> (writer with its forced bytes, poisoned or not; \<open>writer_image\<close> is its part
  about the directory).  \<open>rl_inv\<close> and \<open>dw_inv\<close> are a side condition of the properties of a
  writer (crash safety, refinement, atomicity, append, transaction ids, readers): they say that the handle is not poisoned, that no segment ends in a
  torn tail and that the next transaction id is above all ids on disk.
  \<open>opened_in_good_order\<close> says that \<open>open\<close> gives such a handle exactly when it found no torn
  tail and no id \<open>u64::MAX\<close>; for the other handles the contrary is proved, appends behind a
  torn tail being lost or making the store impossible to open, and ids restarting at 1.

  \<^bold>\<open>Durability.\<close>  The ghost \<open>wl_synced\<close> counts the bytes of the last segment that a \<open>sync_all\<close>
  with result \<open>Ok\<close> covered.  A crash keeps sealed segments and these bytes, and any prefix of the
  rest; this is the documented guarantee of \<open>fsync\<close> for appended files.  It may also lose the
  directory entry of a last segment that is still empty.  A call that fails half way is a step
  like any other, so a crash in the middle of an append or of a rotation is covered.  The steps
  ask for segment ids below \<open>10 ^ 8\<close>, the width of the file names.  Reader and writer share
  only the directory; they alternate by whole calls (\<open>watch\<close>), so each \<open>next\<close> sees one
  state of the directory, also when it goes on to another segment.

  \<^bold>\<open>Termination.\<close>  Every definition is total: there is no fuel.  Recursions that are not
  structural carry a measure, the bytes left (\<open>scan_loop\<close>, \<open>fill\<close>) or the operations left of
  the budget (\<open>workload_loop\<close>); the iterator's items decrease a well-founded relation.

  \<^bold>\<open>What the properties show.\<close>  Crash safety of \<open>fsync\<close>, the refinement of a map, atomic and
  completing writes,
  recovery, refusal of damage, single writing, compaction and export keep the map; the wire
  format's round trips and the verdict on every malformed input; that lazy and eager scans
  agree; what the commands print, and that no command changes what a store contains; that the
  harness accepts exactly what it should, the soak test gives no false alarm, and the fixtures
  are what they are meant to be.  Some state
  behaviour one may not expect: an append behind a torn tail can be lost or make the store
  impossible to open, segment 100000000 is invisible, transaction ids restart at 1 after the
  largest, and \<open>--sample 0\<close> switches the payload check off.

  \<^bold>\<open>Worlds.\<close>  Programs that work on several directories run in a \<open>world\<close>: directories and
  files by path, with the kernel's lock state of each directory.  Paths are equal exactly when
  they name the same object, stores are not nested, and the file that \<open>export\<close> writes lies
  outside of stores.  Removing or renaming a directory tree does all or nothing.

  \<^bold>\<open>Not modelled.\<close>  Standard error and the texts of errors other than \<open>DecodeError\<close> (they
  print values that the models return);
  clap's parsing of the command line; the text of JSON, made by serde_json; permissions,
  symbolic links, and losing the directory entry of a segment that holds records; file handles kept open while another
  process deletes the file.  Benchmarks, tests, scripts and the TLA models in \<open>formal/\<close> are not
  part of the program; \<open>lib.rs\<close> re-exports, and its test hook is in Record_Log.
\<close>

section \<open>Durability and recovery\<close>

text \<open>
  C1.  Crash safety, of a handle in good order (\<open>rl_inv\<close>: not opened over a torn tail, and
  its next id above all ids on disk; what appends behind a torn tail do is shown in
  Log_Properties).  After an \<open>fsync\<close> on it that returned \<open>Ok\<close>, let the writer go on with
  any calls, with any results: appends that a full disk tears, refused ones, scans,
  rotations and fsyncs that fail half way.  Let the machine crash at any moment, cutting
  the last segment anywhere behind its last forced byte, or losing it while it is empty.
  Then \<open>DataWal::open\<close> succeeds on what is left, and every \<open>get\<close> answers from a list of
  records that begins with all records present at the \<open>fsync\<close>, goes on with records that
  later calls appended, in their order, and is the beginning of the log at the crash.
\<close>

theorem crash_then_open:
  assumes "rl_inv crc log d" and "openable d" and "rl_fsync env0 log = (Inr (), log')"
    and "wal_run crc \<lparr>wl_log = log', wl_dir = d, wl_synced = length (seg_bytes d (rl_active_id log))\<rparr> calls t"
    and "crash t d'" and "all_io env" and "fl_try_lock_exclusive fl k fd = Some k'"
  shows "\<exists>w d'' more. dw_open fl env crc pid fd k (Some d') = (Inr w, k', Some d'')
    \<and> prefix (log_records crc d @ more) (log_records crc (wl_dir t))
    \<and> subseq (map rec_content more) (concat (map appended_by calls))
    \<and> (\<forall>key. fst (dw_get env crc w d'' key) = Inr (view (log_records crc d @ more) key))"
proof -
  have l: "log' = log" by (rule fsync_Inr [OF assms(3)])
  note F = fsynced_all [OF assms(1)]
  note run = assms(4) [unfolded l]
  note R = wal_run_inv [OF run F(1)]
  have "forced crc t" using R by (simp add: wal_inv_def)
  note P = crash_image [OF this assms(5)]
  have "openable d'" using crash_openable [OF assms(5)] wal_run_openable [OF run] assms(2) by simp
  from dw_open_contents [OF assms(6) P(1) this assms(7), where crc = crc and pid = pid] P(2)
  obtain w d'' where W: "dw_open fl env crc pid fd k (Some d') = (Inr w, k', Some d'')"
    "kd_inv crc w d''" "contents crc d'' = contents crc d'" by blast
  from P(3) R F(2) obtain more where m: "log_records crc d' = log_records crc d @ more"
    by (metis prefixE prefix_order.trans)
  from wal_run_records [OF run F(1)] obtain more' where
    m': "log_records crc (wl_dir t) = log_records crc d @ more'"
    "subseq (map rec_content more') (concat (map appended_by calls))" by auto
  from P(4) m m'(1) have "prefix more more'" by simp
  then have "subseq (map rec_content more) (map rec_content more')"
    by (metis map_mono_prefix prefix_imp_subseq)
  then have "subseq (map rec_content more) (concat (map appended_by calls))"
    using m'(2) by (rule subseq_order.trans)
  moreover have "fst (dw_get env crc w d'' key) = Inr (view (log_records crc d @ more) key)" for key
    using get_contents [OF W(2) assms(6), of key] W(3) m by (auto simp: contents_def)
  ultimately show ?thesis using W(1) P(4) m by auto
qed

text \<open>
  A \<open>put\<close> after the fsync that a full disk tears, an fsync that the poisoned handle
  refuses, and a crash that tears the frame once more: the fsynced value is there.
\<close>

theorem crash_then_open_witness:
  "\<exists>log1 d1 w d''. rl_append_record ex_full_disk ex_crc ex_log ex_dir Put [1] [9] =
      (Inl (Io (WriteAll 1)), log1, d1)
    \<and> dw_open ex_flock all_works ex_crc 0 7 {} (Some (cut_active d1 33)) = (Inr w, {7}, Some d'')
    \<and> fst (dw_get all_works ex_crc w d'' [1]) = Inr (Some [2, 3])"
proof -
  obtain log1 d1 reason where A: "rl_append_record ex_full_disk ex_crc ex_log ex_dir Put [1] [9] =
      (Inl (Io (WriteAll 1)), log1, d1)" "log_records ex_crc d1 = log_records ex_crc ex_dir"
    "rl_poisoned log1 = Some reason"
    using ex_torn_append by blast
  let ?s = "\<lambda>log d. \<lparr>wl_log = log, wl_dir = d, wl_synced = length (seg_bytes ex_dir (rl_active_id ex_log))\<rparr>"
  have fs: "rl_fsync all_works ex_log = (Inr (), ex_log)"
    by (simp add: rl_fsync_def check_poisoned_def ex_log_fields)
  have "wal_run ex_crc (?s ex_log ex_dir) ([] @ [CallAppend Put [1] [9]]) (?s log1 d1)"
    by (rule wr_step [OF wr_refl wal_step.appended [OF A(1)]])
  from wr_step [OF this wal_step.synced [OF poisoned_refuses(2) [OF A(3), of all_works]]]
  have run: "wal_run ex_crc (?s ex_log ex_dir) [CallAppend Put [1] [9], CallFsync] (?s log1 d1)" by simp
  have cr: "crash (?s log1 d1) (cut_active d1 33)"
    by (auto simp: crash_def ex_log_fields ex_bytes intro!: exI [of _ 33])
  from crash_then_open [OF ex_log_inv _ fs run cr all_io_all_works ex_flock_try [of 7], of 0]
  obtain w d'' more where W: "dw_open ex_flock all_works ex_crc 0 7 {} (Some (cut_active d1 33)) = (Inr w, {7}, Some d'')"
    "prefix (log_records ex_crc ex_dir @ more) (log_records ex_crc ex_dir)"
    "\<forall>key. fst (dw_get all_works ex_crc w d'' key) = Inr (view (log_records ex_crc ex_dir @ more) key)"
    using A(2) by auto
  then have "more = []" by (auto simp: prefix_def)
  with W(1,3) A(1) show ?thesis using ex_contents by (auto simp: contents_def)
qed

end
